(* ===== verification/Wire.thy ===== *)
theory Wire
  imports Prelude
begin

text \<open>
  The wire format of \<^verbatim>\<open>src/src/wire.rs\<close>: a big-endian 32-bit length, a message type, a
  version byte and the payload. The reader of a connection is the list of bytes the peer
  sends before it closes; the writer collects the bytes the peer takes, and may break
  after any number of them. Operations: \<open>write_message\<close>, \<open>read_message\<close>; the
  \<^verbatim>\<open>framing\<close> interface states what the rest of the program relies on.
\<close>

unbundle bit_operations_syntax

section \<open>MessagePack\<close>

text \<open>Two helpers around the crate \<^verbatim>\<open>rmp_serde\<close>, a parameter, whose errors are texts; nothing in the library uses them.\<close>

definition encode_msgpack :: "('a \<Rightarrow> string + bytes) \<Rightarrow> 'a \<Rightarrow> bytes result" where
  "encode_msgpack to_vec value = (case to_vec value of Inl e \<Rightarrow> Err (Encoding e) | Inr bs \<Rightarrow> Ok bs)"

definition decode_msgpack :: "(bytes \<Rightarrow> string + 'a) \<Rightarrow> bytes \<Rightarrow> 'a result" where
  "decode_msgpack from_slice data = (case from_slice data of Inl e \<Rightarrow> Err (Encoding e) | Inr x \<Rightarrow> Ok x)"

section \<open>Byte streams\<close>

definition early_eof :: string where
  "early_eof = ''early eof''"

text \<open>\<^verbatim>\<open>AsyncReadExt::read_exact\<close> for a buffer of \<open>n\<close> bytes.\<close>

definition read_exact :: "nat \<Rightarrow> (bytes, bytes) action" where
  "read_exact n s =
     (if n \<le> length s then (Inr (take n s), drop n s) else (Inl (from_io_error early_eof), []))"

record sink =
  sk_out :: bytes
  sk_room :: "nat option" \<comment> \<open>bytes still taken before the connection breaks; None: no limit\<close>

definition broken_pipe :: string where
  "broken_pipe = ''Broken pipe''"

text \<open>\<^verbatim>\<open>AsyncWriteExt::write_all\<close>: on an error a prefix may already be on the wire.\<close>

definition write_all :: "bytes \<Rightarrow> (sink, unit) action" where
  "write_all bs k =
     (case sk_room k of
        None \<Rightarrow> (Inr (), k\<lparr>sk_out := sk_out k @ bs\<rparr>)
      | Some r \<Rightarrow>
          if length bs \<le> r then (Inr (), k\<lparr>sk_out := sk_out k @ bs, sk_room := Some (r - length bs)\<rparr>)
          else (Inl (from_io_error broken_pipe), k\<lparr>sk_out := sk_out k @ take r bs, sk_room := Some 0\<rparr>))"

definition open_sink :: sink where
  "open_sink = \<lparr>sk_out = [], sk_room = None\<rparr>"

section \<open>Framing\<close>

definition MAX_MESSAGE_SIZE :: nat where
  "MAX_MESSAGE_SIZE = 16 * 1024 * 1024"

definition to_be_bytes :: "u32 \<Rightarrow> bytes" where
  "to_be_bytes w = [ucast (drop_bit 24 w), ucast (drop_bit 16 w), ucast (drop_bit 8 w), ucast w]"

definition from_be_bytes :: "bytes \<Rightarrow> u32" where
  "from_be_bytes bs = foldl (\<lambda>acc b. push_bit 8 acc OR ucast b) 0 bs"

definition write_message :: "u8 \<Rightarrow> bytes \<Rightarrow> (sink, unit) action" where
  "write_message msg_type payload =
     (let len = 2 + length payload in
      if len > MAX_MESSAGE_SIZE then fail (InvalidMessage ''message too large'')
      else
        let len_bytes = to_be_bytes (of_nat len) in
        and_then (write_all len_bytes) (\<lambda>_.
        and_then (write_all [msg_type]) (\<lambda>_.
        and_then (write_all [1]) (\<lambda>_.
        write_all payload))))"

definition read_message :: "(bytes, u8 \<times> bytes) action" where
  "read_message =
     and_then (read_exact 4) (\<lambda>len_buf.
       let len = unat (from_be_bytes len_buf) in
       if len < 2 \<or> len > MAX_MESSAGE_SIZE then
         fail (InvalidMessage (''invalid length: '' @ show_nat len))
       else
         and_then (read_exact 1) (\<lambda>type_buf.
         and_then (read_exact 1) (\<lambda>version_buf.
           let payload_len = len - 2 in
           if payload_len > 0 then
             and_then (read_exact payload_len) (\<lambda>payload. give (type_buf ! 0, payload))
           else give (type_buf ! 0, []))))"

definition MSG_HANDSHAKE :: u8 where "MSG_HANDSHAKE = 0x01"
definition MSG_HANDSHAKE_ACK :: u8 where "MSG_HANDSHAKE_ACK = 0x02"
definition MSG_REQUEST :: u8 where "MSG_REQUEST = 0x10"
definition MSG_RESPONSE :: u8 where "MSG_RESPONSE = 0x11"
definition MSG_STREAM_REQUEST :: u8 where "MSG_STREAM_REQUEST = 0x12"
definition MSG_STREAM_START :: u8 where "MSG_STREAM_START = 0x13"
definition MSG_STREAM_CHUNK :: u8 where "MSG_STREAM_CHUNK = 0x14"
definition MSG_STREAM_END :: u8 where "MSG_STREAM_END = 0x15"
definition MSG_ERROR :: u8 where "MSG_ERROR = 0x1F"
definition MSG_PING :: u8 where "MSG_PING = 0x40"
definition MSG_PONG :: u8 where "MSG_PONG = 0x41"
definition MSG_CLOSE :: u8 where "MSG_CLOSE = 0x50"
definition MSG_SCHEMA_REQUEST :: u8 where "MSG_SCHEMA_REQUEST = 0x60"
definition MSG_SCHEMA_RESPONSE :: u8 where "MSG_SCHEMA_RESPONSE = 0x61"

text \<open>
  A connection handler reads messages one after the other until a read fails: the messages
  it sees, the error that ends the sequence. Every message takes at least six bytes off the
  stream, so the sequence is finite.
\<close>

lemma read_message_length:
  "read_message s = (Inr m, s') \<Longrightarrow> length s' + 6 \<le> length s"
  by (auto simp: read_message_def read_exact_def and_then_def Let_def give_def fail_def
      split: if_splits)

function read_all :: "bytes \<Rightarrow> (u8 \<times> bytes) list \<times> protocol_error" where
  "read_all s =
     (case read_message s of
        (Inl e, _) \<Rightarrow> ([], e)
      | (Inr m, s') \<Rightarrow> (case read_all s' of (ms, e) \<Rightarrow> (m # ms, e)))"
  by pat_completeness auto
termination
  by (relation "measure length") (auto dest: read_message_length [OF sym])

declare read_all.simps [simp del]

fun write_many :: "(u8 \<times> bytes) list \<Rightarrow> (sink, unit) action" where
  "write_many [] = give ()"
| "write_many ((t, p) # ms) = and_then (write_message t p) (\<lambda>_. write_many ms)"

lemmas msg_defs =
  MSG_HANDSHAKE_def MSG_HANDSHAKE_ACK_def MSG_REQUEST_def MSG_RESPONSE_def
  MSG_STREAM_REQUEST_def MSG_STREAM_START_def MSG_STREAM_CHUNK_def MSG_STREAM_END_def
  MSG_ERROR_def MSG_PING_def MSG_PONG_def MSG_CLOSE_def
  MSG_SCHEMA_REQUEST_def MSG_SCHEMA_RESPONSE_def

section \<open>Big-endian lengths\<close>

lemma length_to_be_bytes [simp]: "length (to_be_bytes w) = 4"
  by (simp add: to_be_bytes_def)

lemma from_to_be_bytes [simp]: "from_be_bytes (to_be_bytes w) = w"
proof (rule bit_word_eqI)
  fix n assume n: "n < LENGTH(32)"
  have "bit (from_be_bytes (to_be_bytes w)) n \<longleftrightarrow>
      n < 8 \<and> bit w n \<or> 8 \<le> n \<and> n < 16 \<and> bit w (8 + (n - 8)) \<or>
      16 \<le> n \<and> n < 24 \<and> bit w (16 + (n - 16)) \<or> 24 \<le> n \<and> bit w (24 + (n - 24))"
    using n by (simp add: from_be_bytes_def to_be_bytes_def bit_simps) linarith
  then show "bit (from_be_bytes (to_be_bytes w)) n = bit w n"
    by auto
qed

lemma to_from_be_bytes:
  assumes "length bs = 4"
  shows "to_be_bytes (from_be_bytes bs) = bs"
proof -
  from assms obtain a b c d where bs: "bs = [a, b, c, d]"
    by (auto simp: length_Suc_conv numeral_eq_Suc)
  show ?thesis
    unfolding bs from_be_bytes_def to_be_bytes_def
    by (simp, intro conjI; rule bit_word_eqI; auto simp: bit_simps dest: bit_imp_le_length)
qed

section \<open>One message on the wire\<close>

definition frame_bytes :: "u8 \<Rightarrow> u8 \<Rightarrow> bytes \<Rightarrow> bytes" where
  "frame_bytes ver t p = to_be_bytes (of_nat (2 + length p)) @ [t, ver] @ p"

definition fits :: "bytes \<Rightarrow> bool" where
  "fits p \<longleftrightarrow> 2 + length p \<le> MAX_MESSAGE_SIZE"

lemma length_frame_bytes [simp]: "length (frame_bytes ver t p) = 6 + length p"
  by (simp add: frame_bytes_def)

lemma length_field:
  "fits p \<Longrightarrow> unat (of_nat (2 + length p) :: u32) = 2 + length p"
  by (rule unat_of_nat_small) (simp add: fits_def MAX_MESSAGE_SIZE_def)

lemma read_exact_append [action_simps]:
  "n = length a \<Longrightarrow> read_exact n (a @ rest) = (Inr a, rest)"
  by (simp add: read_exact_def)

lemma read_exact_one [action_simps]: "read_exact (Suc 0) (b # rest) = (Inr [b], rest)"
  by (simp add: read_exact_def)

lemma read_exact_short [action_simps]:
  "length s < n \<Longrightarrow> read_exact n s = (Inl (ConnectionFailed early_eof), [])"
  by (simp add: read_exact_def from_io_error_def)

lemma write_all_split:
  "and_then (write_all a) (\<lambda>_. write_all b) k = write_all (a @ b) k"
  by (auto simp: and_then_def write_all_def min_def split: option.splits)

lemma write_all_split':
  "and_then (write_all a) (\<lambda>_. and_then (write_all b) f) = and_then (write_all (a @ b)) f"
  by (rule ext) (auto simp: and_then_def write_all_def min_def split: option.splits)

lemma write_message_frame:
  "write_message t p = (if fits p then write_all (frame_bytes 1 t p)
     else fail (InvalidMessage ''message too large''))"
  by (rule ext)
    (simp add: write_message_def fits_def frame_bytes_def Let_def write_all_split write_all_split'
      not_le)

lemma write_message_open [action_simps]:
  "fits p \<Longrightarrow> sk_room k = None \<Longrightarrow>
    write_message t p k = (Inr (), k\<lparr>sk_out := sk_out k @ frame_bytes 1 t p\<rparr>)"
  by (simp add: write_message_frame write_all_def)

lemma write_message_okD:
  "write_message t p k = (Inr u, k') \<Longrightarrow>
    fits p \<and> sk_out k' = sk_out k @ frame_bytes 1 t p
    \<and> sk_room k' = map_option (\<lambda>r. r - (6 + length p)) (sk_room k)"
  by (auto simp: write_message_frame write_all_def split: if_splits option.splits)

text \<open>Reading back a frame, whatever its version byte and whatever follows it.\<close>

lemma read_message_frame:
  assumes "fits p"
  shows "read_message (frame_bytes ver t p @ rest) = (Inr (t, p), rest)"
proof -
  have len: "unat (from_be_bytes (to_be_bytes (of_nat (2 + length p)))) = 2 + length p"
    using assms by (simp only: from_to_be_bytes length_field)
  show ?thesis
    using assms len
    by (cases p)
      (auto simp: read_message_def frame_bytes_def and_then_def read_exact_def Let_def fits_def)
qed

text \<open>The three reads of a message, put together.\<close>

lemma read_message_alt:
  "read_message s =
    (let n = unat (from_be_bytes (take 4 s)) in
     if length s < 4 then (Inl (ConnectionFailed early_eof), [])
     else if n < 2 \<or> n > MAX_MESSAGE_SIZE then
       (Inl (InvalidMessage (''invalid length: '' @ show_nat n)), drop 4 s)
     else if length s < 4 + n then (Inl (ConnectionFailed early_eof), [])
     else (Inr (s ! 4, take (n - 2) (drop 6 s)), drop (4 + n) s))"
proof (cases "length s < 4")
  case True
  then show ?thesis
    by (simp add: read_message_def and_then_def read_exact_def from_io_error_def)
next
  case False
  define n where "n = unat (from_be_bytes (take 4 s))"
  have first: "read_exact 4 s = (Inr (take 4 s), drop 4 s)"
    using False by (simp add: read_exact_def)
  consider "n < 2 \<or> n > MAX_MESSAGE_SIZE" | "2 \<le> n" "n \<le> MAX_MESSAGE_SIZE" by linarith
  then show ?thesis
  proof cases
    case 1
    then show ?thesis
      using False by (simp add: read_message_def and_then_def first Let_def flip: n_def)
  next
    case 2
    have ty: "take (Suc 0) (drop 4 s) ! 0 = s ! 4" if "5 \<le> length s"
      using that by simp
    show ?thesis
      using 2 False ty
      by (auto simp: read_message_def and_then_def first Let_def read_exact_def from_io_error_def
          add.commute [of n] simp flip: n_def)
  qed
qed

text \<open>Every successful read took exactly one frame off the stream.\<close>

lemma read_messageD:
  assumes "read_message s = (Inr (t, p), s')"
  shows "\<exists>ver. s = frame_bytes ver t p @ s' \<and> fits p"
proof -
  define n where "n = unat (from_be_bytes (take 4 s))"
  from assms have n: "2 \<le> n" "n \<le> MAX_MESSAGE_SIZE" and long: "4 + n \<le> length s"
    and t: "t = s ! 4" and p: "p = take (n - 2) (drop 6 s)" and rest: "s' = drop (4 + n) s"
    by (auto simp: read_message_alt Let_def simp flip: n_def split: if_splits)
  have len: "2 + length p = n" using n long p by simp
  have "to_be_bytes (of_nat (2 + length p)) = take 4 s"
    unfolding len n_def using long by (simp add: to_from_be_bytes)
  moreover have "drop 4 s = [s ! 4, s ! 5] @ drop 6 s"
    using long n Cons_nth_drop_Suc [of 4 s] Cons_nth_drop_Suc [of 5 s] by simp
  moreover have "drop 6 s = p @ s'"
  proof -
    have "s' = drop (n - 2) (drop 6 s)" using n rest by (simp add: add.commute)
    then show ?thesis unfolding p by (simp only: append_take_drop_id)
  qed
  ultimately have "s = frame_bytes (s ! 5) t p @ s'"
    using t append_take_drop_id [of 4 s] by (simp add: frame_bytes_def)
  with n len show ?thesis by (auto simp: fits_def)
qed

lemma read_message_error:
  "read_message s = (Inl e, s') \<Longrightarrow> e = ConnectionFailed early_eof \<or> (\<exists>m. e = InvalidMessage m)"
  by (auto simp: read_message_alt Let_def split: if_splits)

lemma read_message_not_closed: "fst (read_message s) \<noteq> Inl ConnectionClosed"
  using read_message_error [of s] by (cases "read_message s") auto

lemma read_message_eof [simp]: "read_message [] = (Inl (ConnectionFailed early_eof), [])"
  by (simp add: read_message_def and_then_def read_exact_short)

section \<open>The framing interface\<close>

text \<open>
  What the rest of the program relies on when it puts messages on one byte stream: a frame
  is parsed back, whatever follows it, and is never empty. The lemmas hold for every format
  with these two laws.
\<close>

fun frames :: "('m \<Rightarrow> 'b list option) \<Rightarrow> 'm list \<Rightarrow> 'b list option" where
  "frames frame [] = Some []"
| "frames frame (m # ms) =
     (case (frame m, frames frame ms) of (Some b, Some bs) \<Rightarrow> Some (b @ bs) | _ \<Rightarrow> None)"

fun parse_many :: "('b list \<Rightarrow> ('m \<times> 'b list) option) \<Rightarrow> nat \<Rightarrow> 'b list \<Rightarrow> ('m list \<times> 'b list) option" where
  "parse_many parse 0 s = Some ([], s)"
| "parse_many parse (Suc n) s =
     (case parse s of
        None \<Rightarrow> None
      | Some (m, s') \<Rightarrow> map_option (\<lambda>(ms, r). (m # ms, r)) (parse_many parse n s'))"

lemma frames_Cons [simp]:
  "frames frame (m # ms) = Some bs \<longleftrightarrow>
    (\<exists>b cs. frame m = Some b \<and> frames frame ms = Some cs \<and> bs = b @ cs)"
  by (auto split: option.splits)

declare frames.simps(2) [simp del]

locale framing =
  fixes frame :: "'m \<Rightarrow> 'b list option"
    and parse :: "'b list \<Rightarrow> ('m \<times> 'b list) option"
  assumes parse_frame: "frame m = Some bs \<Longrightarrow> parse (bs @ rest) = Some (m, rest)"
    and frame_nonempty: "frame m = Some bs \<Longrightarrow> bs \<noteq> []"
begin

lemma parse_many_frames:
  "frames frame ms = Some bs \<Longrightarrow> parse_many parse (length ms) (bs @ rest) = Some (ms, rest)"
  by (induction ms arbitrary: bs) (auto simp: parse_frame split: option.splits)

lemma prefix_free:
  assumes "frame m = Some a" and "frame m' = Some (a @ b)"
  shows "m' = m \<and> b = []"
  using parse_frame [OF assms(1), of b] parse_frame [OF assms(2), of "[]"] by simp

lemma frames_nonempty: "frames frame (m # ms) = Some bs \<Longrightarrow> bs \<noteq> []"
  by (auto dest: frame_nonempty)

lemma frames_inject:
  "frames frame ms = Some bs \<Longrightarrow> frames frame ms' = Some bs \<Longrightarrow> ms = ms'"
proof (induction ms arbitrary: ms' bs)
  case Nil
  then show ?case by (cases ms') (auto dest: frame_nonempty)
next
  case (Cons m ms)
  then obtain a as where a: "frame m = Some a" "frames frame ms = Some as" "bs = a @ as"
    by (auto split: option.splits)
  from Cons.prems obtain m' ms'' where ms': "ms' = m' # ms''"
    by (cases ms') (auto dest: frame_nonempty)
  with Cons.prems obtain b cs where b: "frame m' = Some b" "frames frame ms'' = Some cs" "bs = b @ cs"
    by (auto split: option.splits)
  have "parse bs = Some (m, as)" "parse bs = Some (m', cs)"
    using parse_frame [OF a(1), of as] parse_frame [OF b(1), of cs] by (simp_all add: a(3) flip: b(3))
  with Cons.IH [OF a(2)] b(2) ms' show ?case by simp
qed

end

definition wire_frame :: "u8 \<times> bytes \<Rightarrow> bytes option" where
  "wire_frame m = (case write_message (fst m) (snd m) open_sink of
     (Inl _, _) \<Rightarrow> None | (Inr _, k) \<Rightarrow> Some (sk_out k))"

definition wire_parse :: "bytes \<Rightarrow> ((u8 \<times> bytes) \<times> bytes) option" where
  "wire_parse s = (case read_message s of (Inl _, _) \<Rightarrow> None | (Inr m, s') \<Rightarrow> Some (m, s'))"

lemma frame_bytes_nonempty [simp]: "frame_bytes v t p \<noteq> []"
  by (simp add: frame_bytes_def)

lemma wire_frame_eq: "wire_frame m = (if fits (snd m) then Some (frame_bytes 1 (fst m) (snd m)) else None)"
  by (simp add: wire_frame_def write_message_frame write_all_def open_sink_def)

interpretation wire: framing wire_frame wire_parse
  by unfold_locales
    (auto simp: wire_frame_eq wire_parse_def read_message_frame split: if_splits)

section \<open>Whole streams\<close>

lemma read_all_frame: "fits p \<Longrightarrow>
    read_all (frame_bytes v t p @ rest) = ((t, p) # fst (read_all rest), snd (read_all rest))"
  by (subst read_all.simps) (simp add: read_message_frame split: prod.split)

lemma read_all_eof [simp]: "read_all [] = ([], ConnectionFailed early_eof)"
  by (subst read_all.simps) simp

lemma read_all_frames:
  "frames wire_frame ms = Some bs \<Longrightarrow>
    read_all (bs @ rest) = (ms @ fst (read_all rest), snd (read_all rest))"
  by (induction ms arbitrary: bs)
    (auto simp: wire_frame_eq read_all_frame split: option.splits if_splits)

lemma write_many_frames:
  "write_many ms k = (Inr u, k') \<Longrightarrow> \<exists>bs. frames wire_frame ms = Some bs \<and> sk_out k' = sk_out k @ bs"
proof (induction ms arbitrary: k)
  case (Cons m ms)
  obtain t p where m: "m = (t, p)" by force
  from Cons.prems m obtain v k1 where
    first: "write_message t p k = (Inr v, k1)" and rest: "write_many ms k1 = (Inr u, k')"
    by (auto elim: and_then_cases)
  from write_message_okD [OF first] Cons.IH [OF rest] m show ?case
    by (auto simp: wire_frame_eq)
qed simp

text \<open>
  C6. A sequence of messages that was written without an error is read back in the same
  order, each with its type and payload, and nothing else: the reader then meets the end of
  the stream.
\<close>

theorem stream_roundtrip:
  assumes "write_many ms open_sink = (Inr (), k)"
  shows "read_all (sk_out k) = (ms, ConnectionFailed early_eof)"
proof -
  from write_many_frames [OF assms] obtain bs where
    "frames wire_frame ms = Some bs" "sk_out k = bs" by (auto simp: open_sink_def)
  with read_all_frames [of ms bs "[]"] show ?thesis by simp
qed

theorem stream_roundtrip_witness:
  "\<exists>k. write_many [(MSG_PING, []), (MSG_REQUEST, [7, 9])] open_sink = (Inr (), k)
     \<and> read_all (sk_out k) = ([(MSG_PING, []), (MSG_REQUEST, [7, 9])], ConnectionFailed early_eof)"
proof -
  let ?ms = "[(MSG_PING, []), (MSG_REQUEST, [7, 9])]"
  have fits: "fits []" "fits [7, 9]" by (simp_all add: fits_def MAX_MESSAGE_SIZE_def)
  obtain k where k: "write_many ?ms open_sink = (Inr (), k)"
    by (simp add: and_then_def write_message_open fits open_sink_def)
  from k stream_roundtrip [OF k] show ?thesis by blast
qed

text \<open>
  On a connection that may break at any byte, what \<open>write_message\<close> has put on the wire
  is a prefix of one frame; it is the whole frame exactly when the call returns \<open>Ok\<close>, and
  an oversized payload is refused with nothing written.
\<close>

theorem write_message_delivers:
  "if fits p
   then \<exists>sent lost. frame_bytes 1 t p = sent @ lost
     \<and> sk_out (snd (write_message t p k)) = sk_out k @ sent
     \<and> (is_ok (fst (write_message t p k)) \<longleftrightarrow> lost = [])
   else write_message t p k = (Inl (InvalidMessage ''message too large''), k)"
proof (cases "fits p")
  case False
  then show ?thesis by (simp add: write_message_frame)
next
  case True
  let ?f = "frame_bytes 1 t p"
  let ?n = "case sk_room k of None \<Rightarrow> length ?f | Some r \<Rightarrow> r"
  obtain sent lost where parts: "sent = take ?n ?f" "lost = drop ?n ?f" by blast
  have "?f = sent @ lost" by (simp only: parts append_take_drop_id)
  moreover have "sk_out (snd (write_message t p k)) = sk_out k @ sent"
    and "is_ok (fst (write_message t p k)) \<longleftrightarrow> lost = []"
    using True by (auto simp: parts write_message_frame write_all_def split: option.splits)
  ultimately show ?thesis using True by auto
qed

text \<open>
  C18. \<open>read_message\<close> accepts exactly the well-formed frames (of any version byte): it
  returns a message and a rest of the stream if and only if the stream is that message's
  frame, with a length within the limit, followed by that rest.
\<close>

theorem read_message_accepts:
  "read_message s = (Inr (t, p), rest)
     \<longleftrightarrow> 2 + length p \<le> MAX_MESSAGE_SIZE
       \<and> (\<exists>ver. s = to_be_bytes (of_nat (2 + length p)) @ [t, ver] @ p @ rest)"
  using read_messageD [of s t p rest] read_message_frame [of p _ t rest]
  by (auto simp: fits_def frame_bytes_def)

text \<open>
  A frame that is cut anywhere before its end is reported as a failed connection (never
  as a message, never as \<open>ConnectionClosed\<close>), and the stream is left empty.
\<close>

theorem read_message_truncated:
  assumes "write_message t p open_sink = (Inr (), k)" and "n < length (sk_out k)"
  shows "read_message (take n (sk_out k)) = (Inl (ConnectionFailed early_eof), [])"
proof -
  from assms(1) have fit: "fits p" and out: "sk_out k = frame_bytes 1 t p"
    by (auto dest: write_message_okD simp: open_sink_def)
  have "take 4 (take n (frame_bytes 1 t p)) = to_be_bytes (of_nat (2 + length p))" if "4 \<le> n"
    using that by (simp add: frame_bytes_def min_def)
  with fit out assms(2) length_field [OF fit] show ?thesis
    by (auto simp: read_message_alt Let_def fits_def)
qed

theorem read_message_truncated_witness:
  "\<exists>k. write_message MSG_PING [] open_sink = (Inr (), k)
     \<and> read_message (take 5 (sk_out k)) = (Inl (ConnectionFailed early_eof), [])"
proof -
  have "fits []" by (simp add: fits_def MAX_MESSAGE_SIZE_def)
  then obtain k where k: "write_message MSG_PING [] open_sink = (Inr (), k)"
    "sk_out k = frame_bytes 1 MSG_PING []"
    by (simp add: write_message_open open_sink_def)
  with read_message_truncated [OF k(1), of 5] show ?thesis by auto
qed

end
