(* ===== verification/Breaker.thy ===== *)
theory Breaker
  imports Prelude "HOL-Library.Sublist"
begin

text \<open>
  The circuit breaker of \<^verbatim>\<open>src/src/circuit_breaker.rs\<close>. Its counters are 64-bit
  atomics (\<^verbatim>\<open>fetch_add\<close> wraps around), its clock is an argument of the calls that
  read it. \<open>state\<close> is not a plain getter: it moves an open breaker whose timeout has
  passed to half-open. Each method is one step; a run is a list of calls.
\<close>

datatype circuit_state = Closed | Open | HalfOpen

record breaker =
  cb_failures :: u64
  cb_successes :: u64
  cb_state :: circuit_state
  cb_threshold :: u64
  cb_timeout :: duration
  cb_last_failure :: "instant option"

definition cb_new :: "u64 \<Rightarrow> breaker" where
  "cb_new threshold =
     \<lparr>cb_failures = 0, cb_successes = 0, cb_state = Closed, cb_threshold = threshold,
      cb_timeout = from_secs 30, cb_last_failure = None\<rparr>"

definition cb_with_timeout :: "duration \<Rightarrow> breaker \<Rightarrow> breaker" where
  "cb_with_timeout timeout cb = cb\<lparr>cb_timeout := timeout\<rparr>"

definition cb_record_success :: "breaker \<Rightarrow> breaker" where
  "cb_record_success cb =
     (let cb = cb\<lparr>cb_successes := cb_successes cb + 1, cb_failures := 0\<rparr> in
      if cb_state cb = HalfOpen then cb\<lparr>cb_state := Closed\<rparr> else cb)"

definition cb_record_failure :: "instant \<Rightarrow> breaker \<Rightarrow> breaker" where
  "cb_record_failure now cb =
     (let cb = cb\<lparr>cb_failures := cb_failures cb + 1, cb_last_failure := Some now\<rparr> in
      if cb_failures cb \<ge> cb_threshold cb then cb\<lparr>cb_state := Open\<rparr> else cb)"

definition cb_get_state :: "instant \<Rightarrow> breaker \<Rightarrow> circuit_state \<times> breaker" where
  "cb_get_state now cb =
     (if cb_state cb = Open then
        (case cb_last_failure cb of
           Some failed_at \<Rightarrow>
             if now - failed_at > cb_timeout cb then (HalfOpen, cb\<lparr>cb_state := HalfOpen\<rparr>)
             else (Open, cb)
         | None \<Rightarrow> (Open, cb))
      else (cb_state cb, cb))"

definition cb_is_available :: "instant \<Rightarrow> breaker \<Rightarrow> bool \<times> breaker" where
  "cb_is_available now cb = (case cb_get_state now cb of (s, cb') \<Rightarrow> (s \<noteq> Open, cb'))"

definition cb_can_execute :: "instant \<Rightarrow> (breaker, unit) action" where
  "cb_can_execute now cb =
     (case cb_get_state now cb of
        (Closed, cb') \<Rightarrow> (Inr (), cb')
      | (HalfOpen, cb') \<Rightarrow> (Inr (), cb')
      | (Open, cb') \<Rightarrow> (Inl (ConnectionFailed ''circuit breaker open''), cb'))"

text \<open>A history of calls on one breaker.\<close>

datatype cb_event = Success | Failure instant | Query instant

fun cb_step :: "cb_event \<Rightarrow> breaker \<Rightarrow> breaker" where
  "cb_step Success cb = cb_record_success cb"
| "cb_step (Failure now) cb = cb_record_failure now cb"
| "cb_step (Query now) cb = snd (cb_can_execute now cb)"

definition cb_run :: "cb_event list \<Rightarrow> breaker \<Rightarrow> breaker" where
  "cb_run evs cb = fold cb_step evs cb"

text \<open>The outcomes of a history (queries left out), and its last failure.\<close>

fun outcomes :: "cb_event list \<Rightarrow> bool list" where
  "outcomes [] = []"
| "outcomes (Success # evs) = True # outcomes evs"
| "outcomes (Failure _ # evs) = False # outcomes evs"
| "outcomes (Query _ # evs) = outcomes evs"

fun failure_times :: "cb_event list \<Rightarrow> instant list" where
  "failure_times [] = []"
| "failure_times (Failure t # evs) = t # failure_times evs"
| "failure_times (_ # evs) = failure_times evs"

section \<open>One call\<close>

lemmas cb_defs = cb_record_success_def cb_record_failure_def cb_get_state_def cb_can_execute_def
  cb_is_available_def Let_def

lemma cb_step_frame [simp]:
  "cb_threshold (cb_step e cb) = cb_threshold cb" "cb_timeout (cb_step e cb) = cb_timeout cb"
  by (cases e; auto simp: cb_defs split: option.splits circuit_state.splits if_splits)+

lemma cb_run_frame [simp]:
  "cb_threshold (cb_run evs cb) = cb_threshold cb" "cb_timeout (cb_run evs cb) = cb_timeout cb"
  by (induction evs arbitrary: cb; simp add: cb_run_def)+

lemma cb_run_simps [simp]:
  "cb_run [] cb = cb" "cb_run (evs @ [e]) cb = cb_step e (cb_run evs cb)"
  by (simp_all add: cb_run_def)

lemma cb_run_append: "cb_run (xs @ ys) cb = cb_run ys (cb_run xs cb)"
  and cb_run_Cons: "cb_run (e # ys) cb = cb_run ys (cb_step e cb)"
  by (simp_all add: cb_run_def)

lemma outcomes_append [simp]: "outcomes (xs @ ys) = outcomes xs @ outcomes ys"
  by (induction xs rule: outcomes.induct) auto

lemma failure_times_append [simp]: "failure_times (xs @ ys) = failure_times xs @ failure_times ys"
  by (induction xs rule: failure_times.induct) auto

lemma cb_query_fields [simp]:
  "cb_failures (snd (cb_can_execute now cb)) = cb_failures cb"
  "cb_last_failure (snd (cb_can_execute now cb)) = cb_last_failure cb"
  by (auto simp: cb_defs split: option.splits circuit_state.splits)

lemma cb_denies:
  "\<not> is_ok (fst (cb_can_execute now cb)) \<longleftrightarrow> cb_state cb = Open
     \<and> (case cb_last_failure cb of None \<Rightarrow> True | Some t \<Rightarrow> now - t \<le> cb_timeout cb)"
  by (cases "cb_state cb") (auto simp: cb_defs split: option.splits)

section \<open>Runs\<close>

text \<open>The number of failures since the last success.\<close>

definition streak :: "bool list \<Rightarrow> nat" where
  "streak xs = length (takeWhile Not (rev xs))"

lemma streak_simps [simp]:
  "streak [] = 0" "streak (xs @ [True]) = 0" "streak (xs @ [False]) = Suc (streak xs)"
  by (simp_all add: streak_def)

lemma streak_le: "streak xs \<le> length xs"
  using length_takeWhile_le [of Not "rev xs"] by (simp add: streak_def)

lemma prefix_replicate: "prefix (replicate n False) ys \<longleftrightarrow> n \<le> length (takeWhile Not ys)"
proof (induction n arbitrary: ys)
  case (Suc n)
  then show ?case by (cases ys) auto
qed simp

lemma sublist_snoc_False:
  "sublist (replicate n False) (xs @ [False])
     \<longleftrightarrow> n \<le> Suc (streak xs) \<or> sublist (replicate n False) xs"
proof -
  have "sublist (replicate n False) (xs @ [False]) \<longleftrightarrow> sublist (replicate n False) (rev (xs @ [False]))"
    by (metis rev_replicate sublist_rev)
  also have "\<dots> \<longleftrightarrow> n \<le> Suc (streak xs) \<or> sublist (replicate n False) (rev xs)"
    by (simp add: sublist_Cons_right prefix_replicate streak_def)
  also have "sublist (replicate n False) (rev xs) \<longleftrightarrow> sublist (replicate n False) xs"
    by (metis rev_replicate sublist_rev)
  finally show ?thesis .
qed

lemma sublist_snoc_True:
  assumes "0 < n"
  shows "sublist (replicate n False) (xs @ [True]) \<longleftrightarrow> sublist (replicate n False) xs"
proof -
  have "sublist (replicate n False) (xs @ [True]) \<longleftrightarrow> sublist (replicate n False) (True # rev xs)"
    by (metis rev.simps(2) rev_replicate rev_rev_ident sublist_rev)
  also have "\<dots> \<longleftrightarrow> sublist (replicate n False) (rev xs)"
    using assms by (simp add: sublist_Cons_right prefix_replicate)
  also have "\<dots> \<longleftrightarrow> sublist (replicate n False) xs"
    by (metis rev_replicate sublist_rev)
  finally show ?thesis .
qed

text \<open>What a run has made of the failure counter and of the last failure.\<close>

lemma cb_run_failures:
  assumes "length evs < 2 ^ 64"
  shows "unat (cb_failures (cb_run evs (cb_with_timeout d (cb_new th)))) = streak (outcomes evs)"
  using assms
proof (induction evs rule: rev_induct)
  case Nil
  then show ?case by (simp add: cb_new_def cb_with_timeout_def)
next
  case (snoc e evs)
  let ?b = "cb_run evs (cb_with_timeout d (cb_new th))"
  have IH: "unat (cb_failures ?b) = streak (outcomes evs)" using snoc by simp
  have len: "length (outcomes evs) \<le> length evs" by (induction evs rule: outcomes.induct) auto
  show ?case
  proof (cases e)
    case (Failure t)
    have "unat (cb_failures ?b) + 1 < 2 ^ LENGTH(64)"
      using IH streak_le [of "outcomes evs"] len snoc.prems by simp
    from unat_succ_word [OF this] Failure IH show ?thesis by (simp add: cb_defs)
  qed (use IH in \<open>simp_all add: cb_record_success_def Let_def\<close>)
qed

lemma cb_run_last_failure:
  "cb_last_failure (cb_run evs (cb_with_timeout d (cb_new th))) =
    (if failure_times evs = [] then None else Some (last (failure_times evs)))"
proof (induction evs rule: rev_induct)
  case (snoc e evs)
  then show ?case by (cases e) (auto simp: cb_record_success_def cb_record_failure_def Let_def)
qed (simp add: cb_new_def cb_with_timeout_def)

lemma failure_times_replicate: "failure_times (replicate n (Failure t)) = replicate n t"
  by (induction n) simp_all

definition fresh :: "u64 \<Rightarrow> duration \<Rightarrow> breaker" where
  "fresh th d = cb_with_timeout d (cb_new th)"

lemma fresh_simps [simp]:
  "cb_state (fresh th d) = Closed" "cb_threshold (fresh th d) = th" "cb_timeout (fresh th d) = d"
  "cb_failures (fresh th d) = 0" "cb_last_failure (fresh th d) = None"
  by (simp_all add: fresh_def cb_new_def cb_with_timeout_def)

lemmas fresh_failures = cb_run_failures [folded fresh_def]
lemmas fresh_last_failure = cb_run_last_failure [folded fresh_def]

definition trip_length :: "u64 \<Rightarrow> nat" where
  "trip_length th = max 1 (unat th)"

lemma failure_reaches_threshold:
  assumes "length evs < 2 ^ 64 - 1"
  shows "th \<le> cb_failures (cb_run evs (fresh th d)) + 1
    \<longleftrightarrow> trip_length th \<le> Suc (streak (outcomes evs))"
proof -
  have f: "unat (cb_failures (cb_run evs (fresh th d))) = streak (outcomes evs)"
    using assms by (intro fresh_failures) simp
  moreover have "length (outcomes evs) \<le> length evs" by (induction evs rule: outcomes.induct) auto
  then have "streak (outcomes evs) + 1 < 2 ^ LENGTH(64)"
    using streak_le [of "outcomes evs"] assms by simp
  ultimately have "unat (cb_failures (cb_run evs (fresh th d)) + 1) = streak (outcomes evs) + 1"
    using unat_succ_word by metis
  then show ?thesis by (auto simp: word_le_nat_alt trip_length_def)
qed

lemma not_closed_tripped:
  assumes "length evs < 2 ^ 64" and "cb_state (cb_run evs (fresh th d)) \<noteq> Closed"
  shows "sublist (replicate (trip_length th) False) (outcomes evs)"
  using assms
proof (induction evs rule: rev_induct)
  case (snoc e evs)
  let ?b = "cb_run evs (fresh th d)"
  have IH: "cb_state ?b \<noteq> Closed \<Longrightarrow> sublist (replicate (trip_length th) False) (outcomes evs)"
    using snoc by simp
  show ?case
  proof (cases e)
    case Success
    with snoc.prems have "cb_state ?b \<noteq> Closed"
      by (auto simp: cb_record_success_def Let_def split: if_splits)
    with IH Success show ?thesis by (simp add: sublist_snoc_True trip_length_def)
  next
    case (Failure t)
    have "cb_state ?b \<noteq> Closed \<or> th \<le> cb_failures ?b + 1"
      using snoc.prems Failure by (auto simp: cb_record_failure_def Let_def split: if_splits)
    with IH Failure snoc.prems show ?thesis
      by (auto simp: sublist_snoc_False failure_reaches_threshold)
  next
    case (Query t)
    with snoc.prems have "cb_state ?b \<noteq> Closed"
      by (auto simp: cb_defs split: option.splits circuit_state.splits if_splits)
    with IH Query show ?thesis by simp
  qed
qed simp

lemma outcomes_no_failure: "failure_times evs = [] \<Longrightarrow> False \<notin> set (outcomes evs)"
  by (induction evs rule: outcomes.induct) auto

fun call_events :: "(bool \<times> instant) list \<Rightarrow> cb_event list" where
  "call_events [] = []"
| "call_events ((ok, t) # cs) = (if ok then Success else Failure t) # call_events cs"

lemma call_events_append [simp]: "call_events (xs @ ys) = call_events xs @ call_events ys"
  by (induction xs rule: call_events.induct) auto

lemma outcomes_call_events [simp]: "outcomes (call_events cs) = map fst cs"
  by (induction cs rule: call_events.induct) auto

lemma length_call_events [simp]: "length (call_events cs) = length cs"
  by (induction cs rule: call_events.induct) auto

lemma call_events_failures: "call_events (replicate n (False, t)) = map Failure (replicate n t)"
  by (induction n) simp_all

lemma state_after_calls:
  assumes "length calls < 2 ^ 64"
  shows "cb_state (cb_run (call_events calls) (fresh th d)) =
    (if sublist (replicate (trip_length th) False) (map fst calls) then Open else Closed)"
  using assms
proof (induction calls rule: rev_induct)
  case (snoc c calls)
  obtain ok t where c: "c = (ok, t)" by force
  let ?b = "cb_run (call_events calls) (fresh th d)"
  have IH: "cb_state ?b = (if sublist (replicate (trip_length th) False) (map fst calls) then Open else Closed)"
    using snoc by simp
  show ?case
    using IH failure_reaches_threshold [of "call_events calls" th d] snoc.prems
    by (auto simp: c cb_record_success_def cb_record_failure_def Let_def sublist_snoc_True
        sublist_snoc_False trip_length_def)
qed (simp add: trip_length_def)

section \<open>Properties\<close>



text \<open>
  C17. A call is only ever refused with good reason, whatever the history of calls and state
  queries: the threshold of consecutive failures was reached, there was a failure, and the
  timeout has not passed since the last one. So no breaker stays shut.
\<close>

theorem breaker_denial_justified:
  assumes "length evs < 2 ^ 64"
    and "\<not> is_ok (fst (cb_can_execute now (cb_run evs (cb_with_timeout d (cb_new th)))))"
  shows "sublist (replicate (max 1 (unat th)) False) (outcomes evs)
    \<and> failure_times evs \<noteq> [] \<and> now - last (failure_times evs) \<le> d"
proof -
  have "cb_state (cb_run evs (fresh th d)) = Open"
    and deny: "\<not> is_ok (fst (cb_can_execute now (cb_run evs (fresh th d))))"
    using assms(2) by (simp_all add: cb_denies flip: fresh_def)
  with not_closed_tripped [OF assms(1), of th d]
  have sub: "sublist (replicate (trip_length th) False) (outcomes evs)" by simp
  then have "False \<in> set (outcomes evs)"
    by (auto simp: trip_length_def dest!: set_mono_sublist)
  then have "failure_times evs \<noteq> []" using outcomes_no_failure by blast
  with deny sub fresh_last_failure [of evs th d] show ?thesis
    by (simp add: cb_denies trip_length_def)
qed

theorem breaker_denial_justified_witness:
  "\<not> is_ok (fst (cb_can_execute 15 (cb_run [Failure 5, Query 6, Failure 7] (cb_with_timeout 10 (cb_new 2)))))
   \<and> 15 - last (failure_times [Failure 5, Query 6, Failure 7]) \<le> (10 :: duration)"
proof -
  have d: "\<not> is_ok (fst (cb_can_execute 15 (cb_run [Failure 5, Query 6, Failure 7] (cb_with_timeout 10 (cb_new 2)))))"
    by (simp add: cb_run_def cb_defs cb_new_def cb_with_timeout_def)
  have "length [Failure 5, Query 6, Failure 7] < 2 ^ 64" by simp
  from breaker_denial_justified [OF this d] d show ?thesis by simp
qed

text \<open>
  The probe of a half-open breaker: once the timeout has passed, the next query lets a
  call through (as many as ask); a success then closes the breaker, and a failure re-opens it
  if and only if the failures counted since the last success, this one included, reach the
  threshold.
\<close>

theorem breaker_probe:
  assumes "cb_state b = Open" and "cb_last_failure b = Some t" and "now - t > cb_timeout b"
  shows "\<exists>b'. cb_can_execute now b = (Inr (), b') \<and> cb_state b' = HalfOpen
    \<and> cb_can_execute now' b' = (Inr (), b')
    \<and> cb_state (cb_record_success b') = Closed
    \<and> cb_state (cb_record_failure now' b')
        = (if cb_threshold b \<le> cb_failures b + 1 then Open else HalfOpen)"
  using assms by (simp add: cb_defs)

theorem breaker_probe_witness:
  "\<exists>b'. cb_can_execute 18 (cb_run [Failure 5, Failure 7] (cb_with_timeout 10 (cb_new 2))) = (Inr (), b')
     \<and> cb_state (cb_record_failure 19 b') = Open"
proof -
  let ?b = "cb_run [Failure 5, Failure 7] (cb_with_timeout 10 (cb_new 2))"
  have b: "cb_state ?b = Open" "cb_last_failure ?b = Some 7" "18 - 7 > cb_timeout ?b"
    "cb_threshold ?b = 2" "cb_failures ?b = 2"
    by (simp_all add: cb_run_def cb_defs cb_new_def cb_with_timeout_def)
  from breaker_probe [OF b(1-3), of 19] b(4,5) show ?thesis by auto
qed

text \<open>
  A late success defeats the probe: if a call that was already in flight succeeds while
  the breaker is open, the failure counter is reset although the breaker stays open, and after
  the timeout the failing probe leaves it half-open, admitting every call.
\<close>

theorem late_success_defeats_probe:
  assumes "2 \<le> th" and "now > t + d"
  shows "\<exists>b. cb_run (map Failure (replicate (unat th) t) @ [Success, Query now, Failure now])
      (cb_with_timeout d (cb_new th)) = b
    \<and> cb_state (cb_run (map Failure (replicate (unat th) t) @ [Success]) (cb_with_timeout d (cb_new th))) = Open
    \<and> cb_state b = HalfOpen \<and> is_ok (fst (cb_can_execute later b))"
proof -
  let ?calls = "replicate (unat th) (False, t)"
  let ?b = "cb_run (call_events ?calls) (fresh th d)"
  have n: "2 \<le> unat th" "length ?calls < 2 ^ 64"
    using assms(1) unat_bound [of th] by (simp_all add: word_le_nat_alt)
  then have ne: "failure_times (call_events ?calls) = replicate (unat th) t"
    by (simp add: call_events_failures map_replicate failure_times_replicate)
  have tripped: "cb_state ?b = Open"
    using state_after_calls [OF n(2), of th d] n(1) by (simp add: trip_length_def max_def map_replicate)
  have last_fail: "cb_last_failure ?b = Some t"
    using fresh_last_failure [of "call_events ?calls" th d] ne n(1) by simp
  define b where "b = cb_record_success ?b"
  have b: "cb_state b = Open" "cb_failures b = 0" "cb_last_failure b = Some t"
    "cb_threshold b = th" "cb_timeout b = d"
    using tripped last_fail by (simp_all add: b_def cb_record_success_def Let_def)
  have run: "cb_run (map Failure (replicate (unat th) t) @ Success # es) (fresh th d) = cb_run es b" for es
    by (simp only: b_def cb_run_append cb_run_Cons cb_step.simps call_events_failures)
  have "\<not> th \<le> 1" using n(1) by (simp add: word_le_nat_alt)
  with b assms(2) run [of "[]"] run [of "[Query now, Failure now]"] show ?thesis
    by (simp add: cb_run_Cons cb_defs less_diff_conv2 flip: fresh_def)
qed

theorem late_success_defeats_probe_witness:
  "\<exists>b. cb_run [Failure 7, Failure 7, Success, Query 20, Failure 20] (cb_with_timeout 10 (cb_new 2)) = b
     \<and> is_ok (fst (cb_can_execute 21 b))"
proof -
  have "map Failure (replicate (unat (2 :: u64)) 7) = [Failure 7, Failure 7]" by (simp add: replicate_two)
  with late_success_defeats_probe [of 2 7 10 20 21] show ?thesis by auto
qed

end
