(* ===== verification/Limiter.thy ===== *)
theory Limiter
  imports Prelude
begin

text \<open>
  The two sliding-window rate limiters: \<^verbatim>\<open>RateLimiter\<close> of \<^verbatim>\<open>src/src/utils.rs\<close> (one
  window) and \<^verbatim>\<open>RateLimiter\<close> of \<^verbatim>\<open>src/src/auth.rs\<close> (one window for each client),
  which the server consults. Both keep the instants of the admitted requests; the interface
  \<^verbatim>\<open>keyed_window\<close> states what they share, and the bound on any window is proved there
  once. The instant of a call (\<^verbatim>\<open>Instant::now()\<close>) is an argument.
\<close>

section \<open>The limiter of utils.rs\<close>

record rate_limiter =
  rl_max_requests :: nat
  rl_window :: duration
  rl_requests :: "instant list"

definition rl_new :: "nat \<Rightarrow> duration \<Rightarrow> rate_limiter" where
  "rl_new max_requests window =
     \<lparr>rl_max_requests = max_requests, rl_window = window, rl_requests = []\<rparr>"

definition rl_try_acquire :: "instant \<Rightarrow> rate_limiter \<Rightarrow> bool \<times> rate_limiter" where
  "rl_try_acquire now rl =
     (let requests = filter (\<lambda>t. now - t < rl_window rl) (rl_requests rl) in
      if length requests < rl_max_requests rl
      then (True, rl\<lparr>rl_requests := requests @ [now]\<rparr>)
      else (False, rl\<lparr>rl_requests := requests\<rparr>))"

definition rl_available :: "instant \<Rightarrow> rate_limiter \<Rightarrow> nat \<times> rate_limiter" where
  "rl_available now rl =
     (let requests = filter (\<lambda>t. now - t < rl_window rl) (rl_requests rl) in
      (rl_max_requests rl - length requests, rl\<lparr>rl_requests := requests\<rparr>))"

text \<open>
  \<^verbatim>\<open>acquire\<close> polls until it is admitted; \<open>slept i\<close> is how long the \<open>i\<close>-th
  \<^verbatim>\<open>sleep(10ms)\<close> really took. \<open>fuel\<close> bounds the number of polls; running out is
  \<open>None\<close>.
\<close>

fun rl_acquire :: "nat \<Rightarrow> (nat \<Rightarrow> duration) \<Rightarrow> nat \<Rightarrow> instant \<Rightarrow> rate_limiter
    \<Rightarrow> (instant \<times> rate_limiter) option" where
  "rl_acquire 0 slept i now rl = None"
| "rl_acquire (Suc fuel) slept i now rl =
     (case rl_try_acquire now rl of
        (True, rl') \<Rightarrow> Some (now, rl')
      | (False, rl') \<Rightarrow> rl_acquire fuel slept (Suc i) (now + slept i) rl')"

section \<open>The limiter of auth.rs\<close>

record auth_limiter =
  al_max_requests :: nat
  al_window :: duration
  al_requests :: "string \<rightharpoonup> instant list"

definition al_new :: "nat \<Rightarrow> duration \<Rightarrow> auth_limiter" where
  "al_new max_requests window =
     \<lparr>al_max_requests = max_requests, al_window = window, al_requests = (\<lambda>_. None)\<rparr>"

definition or_default :: "('k \<rightharpoonup> 'v list) \<Rightarrow> 'k \<Rightarrow> 'v list" where
  "or_default m k = (case m k of None \<Rightarrow> [] | Some v \<Rightarrow> v)"

definition al_check :: "string \<Rightarrow> instant \<Rightarrow> auth_limiter \<Rightarrow> bool \<times> auth_limiter" where
  "al_check client_id now al =
     (let client_requests = filter (\<lambda>t. now - t < al_window al) (or_default (al_requests al) client_id) in
      if length client_requests < al_max_requests al
      then (True, al\<lparr>al_requests := (al_requests al)(client_id \<mapsto> client_requests @ [now])\<rparr>)
      else (False, al\<lparr>al_requests := (al_requests al)(client_id \<mapsto> client_requests)\<rparr>))"

definition al_remaining :: "string \<Rightarrow> instant \<Rightarrow> auth_limiter \<Rightarrow> nat" where
  "al_remaining client_id now al =
     (case al_requests al client_id of
        Some client_requests \<Rightarrow>
          al_max_requests al - length (filter (\<lambda>t. now - t < al_window al) client_requests)
      | None \<Rightarrow> al_max_requests al)"

definition al_reset :: "string \<Rightarrow> auth_limiter \<Rightarrow> auth_limiter" where
  "al_reset client_id al = al\<lparr>al_requests := (al_requests al)(client_id := None)\<rparr>"

section \<open>The interface\<close>

text \<open>
  What is true of the admitted instants \<open>adm\<close> and of the instants \<open>lg\<close> the limiter
  remembers, at time \<open>now\<close>: the limiter remembers everything recent, and no window of
  length \<open>w\<close> holds more than \<open>limit\<close> admissions.
\<close>

definition window_ok :: "nat \<Rightarrow> duration \<Rightarrow> instant \<Rightarrow> instant list \<Rightarrow> instant list \<Rightarrow> bool" where
  "window_ok limit w now adm lg \<longleftrightarrow>
     filter (\<lambda>t. now - t < w) lg = filter (\<lambda>t. now - t < w) adm
     \<and> (\<forall>a. length (filter (\<lambda>t. a \<le> t \<and> t < a + w) adm) \<le> limit)"

lemma window_ok_later:
  assumes "window_ok limit w now adm lg" and "now \<le> now'"
  shows "filter (\<lambda>t. now' - t < w) lg = filter (\<lambda>t. now' - t < w) adm"
proof -
  have later: "filter (\<lambda>t. now' - t < w) (filter (\<lambda>t. now - t < w) xs) = filter (\<lambda>t. now' - t < w) xs"
    for xs using assms(2) by (intro filter_filter_imp) linarith
  from assms(1) have "filter (\<lambda>t. now - t < w) lg = filter (\<lambda>t. now - t < w) adm"
    by (simp add: window_ok_def)
  with later [of lg] later [of adm] show ?thesis by simp
qed

lemma window_ok_refuse:
  assumes "window_ok limit w now adm lg" and "now \<le> now'"
  shows "window_ok limit w now' adm (filter (\<lambda>t. now' - t < w) lg)"
  using assms window_ok_later [OF assms] by (simp add: window_ok_def)

lemma window_ok_admit:
  assumes ok: "window_ok limit w now adm lg" and "now \<le> now'"
    and room: "length (filter (\<lambda>t. now' - t < w) lg) < limit"
  shows "window_ok limit w now' (adm @ [now']) (filter (\<lambda>t. now' - t < w) lg @ [now'])"
proof -
  have "length (filter (\<lambda>t. a \<le> t \<and> t < a + w) (adm @ [now'])) \<le> limit" for a
  proof (cases "a \<le> now' \<and> now' < a + w")
    case True
    have "length (filter (\<lambda>t. a \<le> t \<and> t < a + w) adm)
        = length (filter (\<lambda>t. a \<le> t \<and> t < a + w) (filter (\<lambda>t. now' - t < w) adm))"
      using True by (subst filter_filter_imp) auto
    also have "\<dots> \<le> length (filter (\<lambda>t. now' - t < w) adm)" by (rule length_filter_le)
    also have "\<dots> < limit" using room window_ok_later [OF ok \<open>now \<le> now'\<close>] by simp
    finally show ?thesis using True by simp
  next
    case False
    with ok show ?thesis by (auto simp: window_ok_def)
  qed
  with window_ok_later [OF ok \<open>now \<le> now'\<close>] show ?thesis by (simp add: window_ok_def)
qed

text \<open>A sequence of requests, each with its key and instant; the result lists the admitted ones.\<close>

fun run_checks :: "('k \<Rightarrow> instant \<Rightarrow> 's \<Rightarrow> bool \<times> 's) \<Rightarrow> ('k \<times> instant) list \<Rightarrow> 's
    \<Rightarrow> ('k \<times> instant) list \<times> 's" where
  "run_checks check [] s = ([], s)"
| "run_checks check ((k, t) # evs) s =
     (case check k t s of (ok, s') \<Rightarrow>
        (case run_checks check evs s' of (adm, s'') \<Rightarrow> ((if ok then (k, t) # adm else adm), s'')))"

lemma fst_run_checks:
  "fst (run_checks check ((k, t) # evs) s) =
    (if fst (check k t s) then [(k, t)] else []) @ fst (run_checks check evs (snd (check k t s)))"
  by (simp split: prod.split)

locale keyed_window =
  fixes check :: "'k \<Rightarrow> instant \<Rightarrow> 's \<Rightarrow> bool \<times> 's"
    and log :: "'k \<Rightarrow> 's \<Rightarrow> instant list"
    and limit :: "'s \<Rightarrow> nat"
    and window :: "'s \<Rightarrow> duration"
  assumes check_result:
      "fst (check k now s) \<longleftrightarrow> length (filter (\<lambda>t. now - t < window s) (log k s)) < limit s"
    and check_log: "log k (snd (check k now s)) =
      filter (\<lambda>t. now - t < window s) (log k s) @ (if fst (check k now s) then [now] else [])"
    and check_other: "k' \<noteq> k \<Longrightarrow> log k' (snd (check k now s)) = log k' s"
    and check_limit [simp]: "limit (snd (check k now s)) = limit s"
    and check_window [simp]: "window (snd (check k now s)) = window s"
begin

definition of_key :: "'k \<Rightarrow> ('k \<times> instant) list \<Rightarrow> instant list" where
  "of_key k adm = map snd (filter (\<lambda>e. fst e = k) adm)"

lemma of_key_simps [simp]:
  "of_key k [] = []" "of_key k (adm @ adm') = of_key k adm @ of_key k adm'"
  "of_key k ((k', t) # adm) = (if k' = k then t # of_key k adm else of_key k adm)"
  by (simp_all add: of_key_def)

lemma check_keeps_window_ok:
  assumes "window_ok (limit s) (window s) now (of_key k adm) (log k s)" and "now \<le> t"
  shows "window_ok (limit s) (window s) t
    (of_key k (adm @ (if fst (check k' t s) then [(k', t)] else []))) (log k (snd (check k' t s)))"
proof (cases "k' = k")
  case True
  show ?thesis
  proof (cases "fst (check k t s)")
    case ok: True
    with True window_ok_admit [OF assms] show ?thesis
      by (simp add: check_log flip: check_result)
  next
    case False
    with True window_ok_refuse [OF assms] show ?thesis by (simp add: check_log)
  qed
next
  case False
  with assms window_ok_later [OF assms] show ?thesis
    by (simp add: check_other window_ok_def)
qed

lemma run_checks_window_ok:
  assumes "window_ok (limit s) (window s) now (of_key k adm) (log k s)"
    and "sorted (now # map snd evs)" and "run_checks check evs s = (adm', s')"
  shows "\<exists>now'. window_ok (limit s) (window s) now' (of_key k (adm @ adm')) (log k s')"
  using assms
proof (induction evs arbitrary: s now adm adm')
  case Nil
  then show ?case by auto
next
  case (Cons e evs)
  obtain k' t where e: "e = (k', t)" by force
  obtain ok s1 where c: "check k' t s = (ok, s1)" by force
  obtain adm1 where r: "run_checks check evs s1 = (adm1, s')"
    using Cons.prems(3) by (auto simp: e c split: prod.splits)
  let ?new = "if ok then [(k', t)] else []"
  have same: "limit s1 = limit s" "window s1 = window s"
    using check_limit [of k' t s] check_window [of k' t s] by (simp_all add: c)
  have "window_ok (limit s1) (window s1) t (of_key k (adm @ ?new)) (log k s1)"
    using check_keeps_window_ok [OF Cons.prems(1), of t k'] Cons.prems(2) by (simp add: e c same)
  moreover have "sorted (t # map snd evs)" using Cons.prems(2) by (simp add: e)
  ultimately have "\<exists>now'. window_ok (limit s1) (window s1) now' (of_key k ((adm @ ?new) @ adm1)) (log k s')"
    using r by (rule Cons.IH)
  moreover have "adm' = ?new @ adm1" using Cons.prems(3) by (auto simp: e c r)
  ultimately show ?case by (simp add: same)
qed

theorem at_most_limit_per_window:
  assumes "\<And>k. log k s = []" and "sorted (map snd evs)"
  shows "length (filter (\<lambda>e. fst e = k \<and> a \<le> snd e \<and> snd e < a + window s)
      (fst (run_checks check evs s))) \<le> limit s"
proof -
  obtain adm s' where r: "run_checks check evs s = (adm, s')" by force
  have "window_ok (limit s) (window s) 0 (of_key k []) (log k s)"
    using assms(1) by (simp add: window_ok_def)
  moreover have "sorted (0 # map snd evs)" using assms(2) by simp
  ultimately obtain now' where "window_ok (limit s) (window s) now' (of_key k ([] @ adm)) (log k s')"
    using r run_checks_window_ok by blast
  then have "length (filter (\<lambda>t. a \<le> t \<and> t < a + window s) (of_key k adm)) \<le> limit s"
    by (simp add: window_ok_def)
  then show ?thesis by (simp add: r of_key_def filter_map o_def conj_commute)
qed

lemma run_checks_of_key:
  "log k s = log k u \<Longrightarrow> limit s = limit u \<Longrightarrow> window s = window u \<Longrightarrow>
    filter (\<lambda>e. fst e = k) (fst (run_checks check evs s))
      = fst (run_checks check (filter (\<lambda>e. fst e = k) evs) u)"
proof (induction evs arbitrary: s u)
  case (Cons e evs)
  obtain k' t where e: "e = (k', t)" by force
  let ?s = "snd (check k' t s)" and ?u = "snd (check k' t u)"
  show ?case
  proof (cases "k' = k")
    case True
    with Cons.prems have same: "fst (check k' t s) = fst (check k' t u)"
      by (simp add: check_result)
    with True Cons.prems have "log k ?s = log k ?u" by (simp add: check_log)
    with Cons.prems have "filter (\<lambda>e. fst e = k) (fst (run_checks check evs ?s))
        = fst (run_checks check (filter (\<lambda>e. fst e = k) evs) ?u)"
      by (intro Cons.IH) simp_all
    with True same show ?thesis by (simp add: e fst_run_checks del: run_checks.simps)
  next
    case False
    with Cons.prems have "filter (\<lambda>e. fst e = k) (fst (run_checks check evs ?s))
        = fst (run_checks check (filter (\<lambda>e. fst e = k) evs) u)"
      by (intro Cons.IH) (simp_all add: check_other)
    with False show ?thesis by (simp add: e fst_run_checks del: run_checks.simps)
  qed
qed simp

end

definition al_log :: "string \<Rightarrow> auth_limiter \<Rightarrow> instant list" where
  "al_log k al = or_default (al_requests al) k"

interpretation rl: keyed_window "\<lambda>_ :: unit. rl_try_acquire" "\<lambda>_. rl_requests" rl_max_requests rl_window
  by unfold_locales (auto simp: rl_try_acquire_def Let_def)

interpretation al: keyed_window al_check al_log al_max_requests al_window
  by unfold_locales (auto simp: al_check_def al_log_def or_default_def Let_def)

section \<open>Properties\<close>

lemma al_new_simps [simp]:
  "al_max_requests (al_new m w) = m" "al_window (al_new m w) = w" "al_log k (al_new m w) = []"
  by (simp_all add: al_new_def al_log_def or_default_def)

text \<open>
  However the requests of all clients interleave, in no window of the configured length
  does the server's limiter admit more than \<open>max_requests\<close> requests of one client.
\<close>

theorem auth_limiter_window_bound:
  assumes "sorted (map snd evs)"
  shows "length (filter (\<lambda>e. fst e = client \<and> a \<le> snd e \<and> snd e < a + window)
      (fst (run_checks al_check evs (al_new max_requests window)))) \<le> max_requests"
  using al.at_most_limit_per_window [of "al_new max_requests window" evs client a] assms by simp

theorem auth_limiter_window_bound_witness:
  "fst (run_checks al_check [(''a'', 0), (''b'', 1), (''a'', 2), (''a'', 3), (''a'', 10)] (al_new 2 10))
     = [(''a'', 0), (''b'', 1), (''a'', 2), (''a'', 10)]
   \<and> length (filter (\<lambda>e. fst e = ''a'' \<and> 0 \<le> snd e \<and> snd e < 0 + 10)
      (fst (run_checks al_check [(''a'', 0), (''b'', 1), (''a'', 2), (''a'', 3), (''a'', 10)] (al_new 2 10)))) \<le> 2"
proof -
  have "sorted (map snd [(''a'', 0 :: instant), (''b'', 1), (''a'', 2), (''a'', 3), (''a'', 10)])" by simp
  from auth_limiter_window_bound [OF this, of "''a''" 0 10 2] show ?thesis
    by (simp add: al_check_def al_new_def or_default_def Let_def)
qed

text \<open>
  Clients do not affect each other: the decisions for one client are those the limiter
  would take if only that client's requests had arrived.
\<close>

theorem auth_limiter_isolation:
  "filter (\<lambda>e. fst e = client) (fst (run_checks al_check evs al))
     = fst (run_checks al_check (filter (\<lambda>e. fst e = client) evs) al)"
  by (rule al.run_checks_of_key) simp_all

text \<open>
  \<open>remaining\<close> tells the truth about \<open>check\<close>: the next request of the client is
  admitted exactly when something remains, and an admitted request uses up one.
\<close>

theorem remaining_predicts_check:
  "(fst (al_check client now al) \<longleftrightarrow> 0 < al_remaining client now al)
   \<and> al_remaining client now (snd (al_check client now al))
       = (if al_window al = 0 then al_remaining client now al else al_remaining client now al - 1)"
  by (auto simp: al_check_def al_remaining_def or_default_def Let_def split: option.split)

lemma rl_acquire_returns:
  assumes "0 < rl_max_requests rl" and "\<And>i. from_millis 10 \<le> slept i"
    and "\<And>t. t \<in> set (rl_requests rl) \<Longrightarrow> t \<le> now"
    and "\<And>t. t \<in> set (rl_requests rl) \<Longrightarrow> rl_window rl \<le> (now - t) + fuel * from_millis 10"
  shows "\<exists>r. rl_acquire (Suc fuel) slept i now rl = Some r"
  using assms
proof (induction fuel arbitrary: i now rl)
  case 0
  then have "filter (\<lambda>t. now - t < rl_window rl) (rl_requests rl) = []"
    by (fastforce simp: filter_empty_conv)
  with 0 show ?case by (simp add: rl_try_acquire_def Let_def)
next
  case (Suc fuel)
  obtain ok rl' where t: "rl_try_acquire now rl = (ok, rl')" by force
  show ?case
  proof (cases ok)
    case True
    with t show ?thesis by simp
  next
    case False
    with t have rl': "rl_max_requests rl' = rl_max_requests rl" "rl_window rl' = rl_window rl"
      "set (rl_requests rl') \<subseteq> set (rl_requests rl)"
      by (auto simp: rl_try_acquire_def Let_def split: if_splits)
    have "\<exists>r. rl_acquire (Suc fuel) slept (Suc i) (now + slept i) rl' = Some r"
    proof (rule Suc.IH)
      fix t' assume "t' \<in> set (rl_requests rl')"
      with rl' have t': "t' \<in> set (rl_requests rl)" by auto
      from Suc.prems(3) [OF t'] show "t' \<le> now + slept i" by simp
      show "rl_window rl' \<le> now + slept i - t' + fuel * from_millis 10"
        using Suc.prems(4) [OF t'] Suc.prems(3) [OF t'] Suc.prems(2) [of i] rl'(2) by simp
    qed (use Suc.prems(1,2) rl'(1) in simp_all)
    with t False show ?thesis by simp
  qed
qed

lemma rl_acquire_zero: "rl_max_requests rl = 0 \<Longrightarrow> rl_acquire fuel slept i now rl = None"
  by (induction fuel arbitrary: i now rl) (simp_all add: rl_try_acquire_def Let_def)

text \<open>
  \<open>acquire\<close> terminates exactly when the limiter admits anything at all: with a
  positive \<open>max_requests\<close> it returns after at most one window's worth of 10 ms polls
  (however long each sleep really takes), with \<open>max_requests = 0\<close> it polls forever.
\<close>

theorem acquire_returns_iff:
  assumes "\<And>i. from_millis 10 \<le> slept i" and "\<forall>t \<in> set (rl_requests rl). t \<le> now"
    and "rl_window rl \<le> fuel * from_millis 10"
  shows "(0 < rl_max_requests rl \<longleftrightarrow> (\<exists>r. rl_acquire (Suc fuel) slept 0 now rl = Some r))
    \<and> (rl_max_requests rl = 0 \<longleftrightarrow> (\<forall>n. rl_acquire n slept 0 now rl = None))"
proof -
  have pos: "\<exists>r. rl_acquire (Suc fuel) slept 0 now rl = Some r" if "0 < rl_max_requests rl"
    using that assms by (intro rl_acquire_returns) (auto intro: trans_le_add2)
  have zero: "\<forall>n. rl_acquire n slept 0 now rl = None" if "rl_max_requests rl = 0"
    using that by (simp add: rl_acquire_zero)
  from pos zero show ?thesis by fastforce
qed

theorem acquire_returns_iff_witness:
  "(\<exists>r. rl_acquire (Suc 2) (\<lambda>_. from_millis 10) 0 5 \<lparr>rl_max_requests = 1, rl_window = from_millis 15, rl_requests = [5]\<rparr> = Some r)"
proof -
  let ?rl = "\<lparr>rl_max_requests = 1, rl_window = from_millis 15, rl_requests = [5]\<rparr>"
  have "\<And>i :: nat. from_millis 10 \<le> (\<lambda>_. from_millis 10) i" by simp
  moreover have "\<forall>t \<in> set (rl_requests ?rl). t \<le> 5" by simp
  moreover have "rl_window ?rl \<le> 2 * from_millis 10" by (simp add: from_millis_def)
  ultimately show ?thesis using acquire_returns_iff [of "\<lambda>_. from_millis 10" ?rl 5 2] by simp
qed

end
