(* ===== verification/Auth.thy ===== *)
theory Auth
  imports Prelude
begin

text \<open>
  Authentication and authorisation of \<^verbatim>\<open>src/src/auth.rs\<close>: tokens with a lifetime, API
  keys, the composite that tries one after the other, and the middleware. The trait
  \<^verbatim>\<open>Authenticator\<close> is the interface \<^verbatim>\<open>authenticator\<close>; the values that implement it
  are the trees of type \<open>authenticator_impl\<close>. The clock (\<^verbatim>\<open>Instant::now()\<close>) is
  read once in a call to \<^verbatim>\<open>authenticate\<close> and is an argument; the middleware reads it a
  second time.
\<close>

section \<open>Data\<close>

record credentials =
  cr_client_id :: string
  cr_token :: "string option"
  cr_api_key :: "string option"

record permission =
  pm_service :: string
  pm_method :: string

definition permission_new :: "string \<Rightarrow> string \<Rightarrow> permission" where
  "permission_new service method = \<lparr>pm_service = service, pm_method = method\<rparr>"

definition permission_all :: permission where
  "permission_all = \<lparr>pm_service = ''*'', pm_method = ''*''\<rparr>"

record auth_context =
  ac_client_id :: string
  ac_permissions :: "permission list"
  ac_expires_at :: "instant option"

definition is_valid :: "instant \<Rightarrow> auth_context \<Rightarrow> bool" where
  "is_valid now ctx = (case ac_expires_at ctx of Some expires \<Rightarrow> now < expires | None \<Rightarrow> True)"

definition method_matches :: "string \<Rightarrow> string \<Rightarrow> bool" where
  "method_matches granted wanted =
     (if granted = ''*'' then True else if wanted = ''*'' then True else granted = wanted)"

definition has_permission :: "auth_context \<Rightarrow> permission \<Rightarrow> bool" where
  "has_permission ctx permission =
     (list_ex (\<lambda>p. pm_service p = ''*'' \<or> pm_service p = pm_service permission) (ac_permissions ctx)
      \<and> list_ex (\<lambda>p. method_matches (pm_method p) (pm_method permission)) (ac_permissions ctx))"

section \<open>Tokens\<close>

record token_authenticator =
  ta_tokens :: "string \<rightharpoonup> auth_context"
  ta_token_ttl :: duration

definition ta_new :: token_authenticator where
  "ta_new = \<lparr>ta_tokens = (\<lambda>_. None), ta_token_ttl = from_secs 3600\<rparr>"

definition ta_with_ttl :: "duration \<Rightarrow> token_authenticator \<Rightarrow> token_authenticator" where
  "ta_with_ttl ttl ta = ta\<lparr>ta_token_ttl := ttl\<rparr>"

definition ta_add_token :: "instant \<Rightarrow> string \<Rightarrow> string \<Rightarrow> permission list
    \<Rightarrow> token_authenticator \<Rightarrow> token_authenticator" where
  "ta_add_token now token client_id permissions ta =
     ta\<lparr>ta_tokens := (ta_tokens ta)(token \<mapsto>
        \<lparr>ac_client_id = client_id, ac_permissions = permissions,
         ac_expires_at = Some (now + ta_token_ttl ta)\<rparr>)\<rparr>"

definition ta_remove_token :: "string \<Rightarrow> token_authenticator \<Rightarrow> token_authenticator" where
  "ta_remove_token token ta = ta\<lparr>ta_tokens := (ta_tokens ta)(token := None)\<rparr>"

definition ta_authenticate :: "token_authenticator \<Rightarrow> credentials \<Rightarrow> instant \<Rightarrow> auth_context result" where
  "ta_authenticate ta credentials now =
     (case cr_token credentials of
        None \<Rightarrow> Err (Protocol ''missing authentication token'')
      | Some token \<Rightarrow>
          (case ta_tokens ta token of
             None \<Rightarrow> Err (Protocol ''invalid token'')
           | Some ctx \<Rightarrow>
               if \<not> is_valid now ctx then Err (Protocol ''token expired'') else Ok ctx))"

section \<open>API keys\<close>

type_synonym api_key_authenticator = "string \<rightharpoonup> string \<times> permission list"

definition ak_new :: api_key_authenticator where
  "ak_new = (\<lambda>_. None)"

definition ak_add_key :: "string \<Rightarrow> string \<Rightarrow> permission list
    \<Rightarrow> api_key_authenticator \<Rightarrow> api_key_authenticator" where
  "ak_add_key api_key client_id permissions ak = ak(api_key \<mapsto> (client_id, permissions))"


section \<open>The composite\<close>

fun composite_loop :: "(credentials \<Rightarrow> instant \<Rightarrow> auth_context result) list \<Rightarrow> credentials \<Rightarrow> instant
    \<Rightarrow> protocol_error option \<Rightarrow> auth_context result" where
  "composite_loop [] credentials now last_error =
     Err (case last_error of Some e \<Rightarrow> e | None \<Rightarrow> Protocol ''authentication failed'')"
| "composite_loop (authenticator # authenticators) credentials now last_error =
     (case authenticator credentials now of
        Inr ctx \<Rightarrow> Ok ctx
      | Inl e \<Rightarrow> composite_loop authenticators credentials now (Some e))"

definition composite_authenticate :: "(credentials \<Rightarrow> instant \<Rightarrow> auth_context result) list
    \<Rightarrow> credentials \<Rightarrow> instant \<Rightarrow> auth_context result" where
  "composite_authenticate authenticators credentials now =
     composite_loop authenticators credentials now None"

datatype authenticator_impl =
    TokenAuth token_authenticator
  | ApiKeyAuth api_key_authenticator
  | CompositeAuth "authenticator_impl list"

definition composite_new :: authenticator_impl where
  "composite_new = CompositeAuth []"

fun composite_add :: "authenticator_impl \<Rightarrow> authenticator_impl \<Rightarrow> authenticator_impl" where
  "composite_add a (CompositeAuth as) = CompositeAuth (as @ [a])"
| "composite_add a other = other"


section \<open>The middleware\<close>

type_synonym required_permissions = "string \<rightharpoonup> permission list"

definition require_permission :: "string \<Rightarrow> permission \<Rightarrow> required_permissions \<Rightarrow> required_permissions" where
  "require_permission service permission req =
     req(service \<mapsto> (case req service of None \<Rightarrow> [] | Some ps \<Rightarrow> ps) @ [permission])"

definition middleware_check :: "(credentials \<Rightarrow> instant \<Rightarrow> auth_context result) \<Rightarrow> required_permissions
    \<Rightarrow> credentials \<Rightarrow> string \<Rightarrow> string \<Rightarrow> instant \<Rightarrow> instant \<Rightarrow> auth_context result" where
  "middleware_check auth req credentials service method now now' =
     (case auth credentials now of
        Inl e \<Rightarrow> Err e
      | Inr ctx \<Rightarrow>
          if \<not> is_valid now' ctx then Err (Protocol ''authentication expired'')
          else
            (case req service of
               Some required \<Rightarrow>
                 let permission = permission_new service method in
                 if permission \<notin> set required \<and> permission_all \<notin> set required
                 then Err (Protocol ''permission denied'') else Ok ctx
             | None \<Rightarrow> Ok ctx))"

section \<open>The interface of an authenticator\<close>

text \<open>
  The promise of every implementation of the trait: the context it returns is valid at the
  instant of the call. The middleware's lemmas rest on it alone.
\<close>

locale authenticator =
  fixes auth :: "credentials \<Rightarrow> instant \<Rightarrow> auth_context result"
  assumes auth_valid: "auth credentials now = Ok ctx \<Longrightarrow> is_valid now ctx"
begin

lemma check_at_once:
  "middleware_check auth req credentials service method now now \<noteq> Err (Protocol ''authentication expired'')
   \<or> auth credentials now = Err (Protocol ''authentication expired'')"
  by (auto simp: middleware_check_def Let_def dest: auth_valid split: sum.splits option.splits)

lemma check_ok_iff:
  "middleware_check auth req credentials service method now now = Ok ctx \<longleftrightarrow>
    auth credentials now = Ok ctx
    \<and> (\<forall>required. req service = Some required \<longrightarrow>
         permission_new service method \<in> set required \<or> permission_all \<in> set required)"
  by (auto simp: middleware_check_def Let_def dest: auth_valid split: sum.splits option.splits)

end

lemma composite_loop_eq:
  "composite_loop as c now le =
    (case find is_ok (map (\<lambda>a. a c now) as) of
       Some r \<Rightarrow> r
     | None \<Rightarrow> (if as = [] then Err (case le of Some e \<Rightarrow> e | None \<Rightarrow> Protocol ''authentication failed'')
               else (last as) c now))"
  by (induction as arbitrary: le) (auto simp: is_ok_def split: sum.splits option.splits)




section \<open>Properties\<close>

text \<open>
  C29. The life of a token: from the moment it is added it authenticates its client with the
  permissions it was given, until exactly \<open>token_ttl\<close> later, when it is reported expired;
  once removed it is unknown; and no other token is affected by either.
\<close>

theorem token_lifetime:
  assumes "cr_token cr = Some token"
  shows "ta_authenticate (ta_add_token t0 token client ps ta) cr now =
      (if now < t0 + ta_token_ttl ta
       then Ok \<lparr>ac_client_id = client, ac_permissions = ps, ac_expires_at = Some (t0 + ta_token_ttl ta)\<rparr>
       else Err (Protocol ''token expired''))
    \<and> ta_authenticate (ta_remove_token token (ta_add_token t0 token client ps ta)) cr now
      = Err (Protocol ''invalid token'')
    \<and> (cr_token other \<noteq> Some token \<longrightarrow>
        ta_authenticate (ta_add_token t0 token client ps ta) other now = ta_authenticate ta other now
        \<and> ta_authenticate (ta_remove_token token ta) other now = ta_authenticate ta other now)"
  using assms
  by (auto simp: ta_authenticate_def ta_add_token_def ta_remove_token_def is_valid_def
      split: option.splits)

theorem token_lifetime_witness:
  "ta_authenticate (ta_add_token 5 ''t'' ''me'' [] ta_new) \<lparr>cr_client_id = ''x'', cr_token = Some ''t'', cr_api_key = None\<rparr> 6
     = Ok \<lparr>ac_client_id = ''me'', ac_permissions = [], ac_expires_at = Some (5 + from_secs 3600)\<rparr>"
proof -
  let ?cr = "\<lparr>cr_client_id = ''x'', cr_token = Some ''t'', cr_api_key = None\<rparr>"
  have "cr_token ?cr = Some ''t''" by simp
  from token_lifetime [OF this, of 5 "''me''" "[]" ta_new 6 ?cr] show ?thesis
    by (simp add: ta_new_def from_secs_def)
qed

text \<open>
  The composite authenticator returns the first success in the order its members were
  added; if all fail, the error of the last; with no members, \<open>authentication failed\<close>.
\<close>

theorem composite_first_success:
  "composite_authenticate as cr now =
    (case find is_ok (map (\<lambda>a. a cr now) as) of
       Some r \<Rightarrow> r
     | None \<Rightarrow> (if as = [] then Err (Protocol ''authentication failed'') else last as cr now))"
  by (simp add: composite_authenticate_def composite_loop_eq)


text \<open>
  The middleware never consults the permissions of the authenticated caller: whatever
  permissions the contexts carry, the same requests are admitted.
\<close>

theorem middleware_ignores_permissions:
  "is_ok (middleware_check (\<lambda>c t. map_sum id (\<lambda>ctx. ctx\<lparr>ac_permissions := ps ctx\<rparr>) (auth c t))
      req cr service method now now')
   = is_ok (middleware_check auth req cr service method now now')"
  by (auto simp: middleware_check_def is_valid_def Let_def split: sum.splits option.splits)

text \<open>
  \<open>has_permission\<close> looks for the service and for the method in different permissions:
  a caller that may use one method of one service and another method of another service is
  taken to have every combination of them.
\<close>

theorem permissions_combine:
  "has_permission \<lparr>ac_client_id = c, ac_permissions = [permission_new s1 m1, permission_new s2 m2],
      ac_expires_at = e\<rparr> (permission_new s1 m2)"
  by (simp add: has_permission_def permission_new_def method_matches_def)

end
