(* ===== verification/Session.thy ===== *)
theory Session
  imports Prelude "HOL-Library.Finite_Map"
begin

text \<open>
  The session table of \<^verbatim>\<open>src/src/session.rs\<close>: a hash map from session identifiers to
  sessions, with an idle limit. The identifier \<^verbatim>\<open>Uuid::new_v4()\<close> and the clock are
  arguments. Each operation holds the table's lock from its first to its last access, so it
  is one step.
\<close>

record session =
  ss_id :: string
  ss_client_id :: string
  ss_service_name :: string
  ss_created_at :: instant
  ss_last_active :: instant
  ss_metadata :: "(string, string) fmap"

definition session_new :: "instant \<Rightarrow> string \<Rightarrow> string \<Rightarrow> string \<Rightarrow> session" where
  "session_new now sid client_id service_name =
     \<lparr>ss_id = sid, ss_client_id = client_id, ss_service_name = service_name,
      ss_created_at = now, ss_last_active = now, ss_metadata = fmempty\<rparr>"

definition touch :: "instant \<Rightarrow> session \<Rightarrow> session" where
  "touch now s = s\<lparr>ss_last_active := now\<rparr>"

definition age :: "instant \<Rightarrow> session \<Rightarrow> duration" where
  "age now s = now - ss_created_at s"

definition idle_time :: "instant \<Rightarrow> session \<Rightarrow> duration" where
  "idle_time now s = now - ss_last_active s"

record session_manager =
  sm_sessions :: "(string, session) fmap"
  sm_max_idle_time :: duration

definition sm_new :: session_manager where
  "sm_new = \<lparr>sm_sessions = fmempty, sm_max_idle_time = from_secs 300\<rparr>"

definition sm_with_max_idle_time :: "duration \<Rightarrow> session_manager \<Rightarrow> session_manager" where
  "sm_with_max_idle_time d sm = sm\<lparr>sm_max_idle_time := d\<rparr>"

definition create_session :: "string \<Rightarrow> instant \<Rightarrow> string \<Rightarrow> string \<Rightarrow> session_manager
    \<Rightarrow> session \<times> session_manager" where
  "create_session sid now client_id service_name sm =
     (let session = session_new now sid client_id service_name in
      (session, sm\<lparr>sm_sessions := fmupd sid session (sm_sessions sm)\<rparr>))"

definition get_session :: "string \<Rightarrow> instant \<Rightarrow> session_manager \<Rightarrow> session option \<times> session_manager" where
  "get_session sid now sm =
     (case fmlookup (sm_sessions sm) sid of
        Some s \<Rightarrow>
          let session = touch now s in
          (Some session, sm\<lparr>sm_sessions := fmupd sid session (sm_sessions sm)\<rparr>)
      | None \<Rightarrow> (None, sm))"

definition remove_session :: "string \<Rightarrow> session_manager \<Rightarrow> session option \<times> session_manager" where
  "remove_session sid sm =
     (fmlookup (sm_sessions sm) sid, sm\<lparr>sm_sessions := fmdrop sid (sm_sessions sm)\<rparr>)"

text \<open>\<^verbatim>\<open>HashMap::retain\<close> and \<^verbatim>\<open>HashMap::len\<close>.\<close>

definition fm_retain :: "('v \<Rightarrow> bool) \<Rightarrow> ('k, 'v) fmap \<Rightarrow> ('k, 'v) fmap" where
  "fm_retain P m = fmfilter (\<lambda>k. case fmlookup m k of Some v \<Rightarrow> P v | None \<Rightarrow> False) m"

definition fm_len :: "('k, 'v) fmap \<Rightarrow> nat" where
  "fm_len m = fcard (fmdom m)"

definition cleanup_idle :: "instant \<Rightarrow> session_manager \<Rightarrow> nat \<times> session_manager" where
  "cleanup_idle now sm =
     (let before = fm_len (sm_sessions sm);
          sessions = fm_retain (\<lambda>s. idle_time now s < sm_max_idle_time sm) (sm_sessions sm)
      in (before - fm_len sessions, sm\<lparr>sm_sessions := sessions\<rparr>))"

definition session_count :: "session_manager \<Rightarrow> nat" where
  "session_count sm = fm_len (sm_sessions sm)"

section \<open>The table\<close>

lemma fmlookup_retain [simp]:
  "fmlookup (fm_retain P m) k = (case fmlookup m k of Some v \<Rightarrow> if P v then Some v else None | None \<Rightarrow> None)"
  by (auto simp: fm_retain_def split: option.split)

lemma fm_len_keys: "fm_len m = card (fmdom' m)"
  by (simp add: fm_len_def fcard.rep_eq fmdom'_alt_def)

section \<open>Well-formed tables\<close>

text \<open>
  A table with the clock of the process: sessions are filed under their own identifier and
  their times are in order.
\<close>

type_synonym timed_table = "session_manager \<times> instant"

definition table_ok :: "timed_table \<Rightarrow> bool" where
  "table_ok st \<longleftrightarrow>
     (\<forall>k s. fmlookup (sm_sessions (fst st)) k = Some s \<longrightarrow>
        ss_id s = k \<and> ss_created_at s \<le> ss_last_active s \<and> ss_last_active s \<le> snd st)"

inductive table_step :: "timed_table \<Rightarrow> timed_table \<Rightarrow> bool" where
  tick: "t \<le> t' \<Longrightarrow> table_step (sm, t) (sm, t')"
| create: "table_step (sm, t) (snd (create_session sid t client service sm), t)"
| get: "table_step (sm, t) (snd (get_session sid t sm), t)"
| remove: "table_step (sm, t) (snd (remove_session sid sm), t)"
| cleanup: "table_step (sm, t) (snd (cleanup_idle t sm), t)"

lemmas session_defs = create_session_def get_session_def remove_session_def cleanup_idle_def
  session_new_def touch_def Let_def

lemma table_step_ok: "table_step st st' \<Longrightarrow> table_ok st \<Longrightarrow> table_ok st'"
  by (induction rule: table_step.induct)
    (fastforce simp: table_ok_def session_defs split: option.splits if_splits)+

interpretation table: invariant_system
    "\<lambda>st. \<exists>d t. st = (sm_with_max_idle_time d sm_new, t)" table_step table_ok
proof unfold_locales
  show "table_ok st" if "\<exists>d t. st = (sm_with_max_idle_time d sm_new, t)" for st
    using that by (auto simp: table_ok_def sm_new_def sm_with_max_idle_time_def)
qed (rule table_step_ok)

section \<open>Properties\<close>

text \<open>
  In every reachable table each session is filed under its own identifier, was created no
  later than it was last active, and was last active in the past.
\<close>

theorem session_table_wellformed:
  assumes "reachable (\<lambda>st. \<exists>d t. st = (sm_with_max_idle_time d sm_new, t)) table_step (sm, now)"
    and "fmlookup (sm_sessions sm) k = Some s"
  shows "ss_id s = k \<and> ss_created_at s \<le> ss_last_active s \<and> ss_last_active s \<le> now"
  using table.reachable_inv [OF assms(1)] assms(2) by (simp add: table_ok_def)

theorem session_table_wellformed_witness:
  "ss_id (session_new 4 ''s1'' ''c'' ''svc'') = ''s1''
   \<and> ss_last_active (session_new 4 ''s1'' ''c'' ''svc'') \<le> 4"
proof -
  let ?sm = "snd (create_session ''s1'' 4 ''c'' ''svc'' (sm_with_max_idle_time 9 sm_new))"
  have "reachable (\<lambda>st. \<exists>d t. st = (sm_with_max_idle_time d sm_new, t)) table_step (?sm, 4)"
    by (rule reach_step, rule reach_init) (auto intro: table_step.create)
  moreover have "fmlookup (sm_sessions ?sm) ''s1'' = Some (session_new 4 ''s1'' ''c'' ''svc'')"
    by (simp add: create_session_def Let_def)
  ultimately show ?thesis using session_table_wellformed by blast
qed

text \<open>
  \<open>cleanup_idle\<close> removes exactly the sessions that have been idle for the limit or
  longer, leaves the others untouched, and returns the number it removed.
\<close>

theorem cleanup_exact:
  "fmlookup (sm_sessions (snd (cleanup_idle now sm))) k =
     (case fmlookup (sm_sessions sm) k of
        None \<Rightarrow> None
      | Some s \<Rightarrow> if now - ss_last_active s < sm_max_idle_time sm then Some s else None)
   \<and> fst (cleanup_idle now sm) = card {sid. \<exists>s. fmlookup (sm_sessions sm) sid = Some s
        \<and> sm_max_idle_time sm \<le> now - ss_last_active s}
   \<and> session_count (snd (cleanup_idle now sm)) + fst (cleanup_idle now sm) = session_count sm"
proof -
  let ?m = "sm_sessions sm"
  let ?gone = "{sid. \<exists>s. fmlookup ?m sid = Some s \<and> sm_max_idle_time sm \<le> now - ss_last_active s}"
  let ?kept = "fmdom' (fm_retain (\<lambda>s. idle_time now s < sm_max_idle_time sm) ?m)"
  have split: "fmdom' ?m = ?kept \<union> ?gone" "?kept \<inter> ?gone = {}"
    by (auto simp: idle_time_def fmlookup_dom'_iff split: option.splits if_splits)
  have "?gone \<subseteq> fmdom' ?m" using split by auto
  then have "finite ?gone" by (rule finite_subset) simp
  with split have "fm_len ?m = card ?kept + card ?gone"
    by (simp add: fm_len_keys card_Un_disjoint)
  then show ?thesis
    by (auto simp: cleanup_idle_def Let_def session_count_def fm_len_keys idle_time_def split: option.split)
qed

text \<open>
  A session that is looked up keeps living: after a successful \<open>get_session\<close> any
  clean-up less than the idle limit later keeps it, with its data unchanged and its last
  activity at the look-up.
\<close>

theorem get_session_keeps_alive:
  assumes "fst (get_session sid t sm) = Some s" and "now - t < sm_max_idle_time sm"
  shows "fst (get_session sid now (snd (cleanup_idle now (snd (get_session sid t sm)))))
       = Some (touch now s)
    \<and> (\<exists>s0. fmlookup (sm_sessions sm) sid = Some s0 \<and> s = s0\<lparr>ss_last_active := t\<rparr>)"
  using assms by (auto simp: session_defs idle_time_def split: option.splits)

theorem get_session_keeps_alive_witness:
  "\<exists>s sm. fst (get_session ''a'' 10 sm) = Some s
     \<and> fst (get_session ''a'' 14 (snd (cleanup_idle 14 (snd (get_session ''a'' 10 sm))))) = Some (touch 14 s)"
proof -
  let ?sm = "snd (create_session ''a'' 7 ''c'' ''svc'' (sm_with_max_idle_time 5 sm_new))"
  have "fst (get_session ''a'' 10 ?sm) = Some (touch 10 (session_new 7 ''a'' ''c'' ''svc''))"
    "14 - 10 < sm_max_idle_time ?sm"
    by (simp_all add: session_defs sm_new_def sm_with_max_idle_time_def)
  with get_session_keeps_alive [OF this] show ?thesis by blast
qed

end
