(* ===== verification/Queues.thy ===== *)
theory Queues
  imports Complex_Main Prelude
begin

text \<open>
  The small stateful helpers of \<^verbatim>\<open>src/src/utils.rs\<close>: the dead-letter queue, the message
  queue over broadcast channels, the cancellation token and the request counters
  (\<^verbatim>\<open>Metrics\<close>). Every method takes its lock once, so each is one step.
\<close>

section \<open>Dead letters\<close>

text \<open>A dead letter keeps a request; the queue never looks at it.\<close>

record 'r dead_letter =
  dl_request :: 'r
  dl_error :: string
  dl_timestamp :: nat
  dl_retry_count :: nat

record 'r dead_letter_queue =
  dq_queue :: "'r dead_letter list"
  dq_max_size :: nat

definition dq_new :: "nat \<Rightarrow> 'r dead_letter_queue" where
  "dq_new max_size = \<lparr>dq_queue = [], dq_max_size = max_size\<rparr>"

definition dq_push :: "nat \<Rightarrow> 'r \<Rightarrow> string \<Rightarrow> 'r dead_letter_queue \<Rightarrow> 'r dead_letter_queue" where
  "dq_push now request error dq =
     (let queue = (if length (dq_queue dq) \<ge> dq_max_size dq then tl (dq_queue dq) else dq_queue dq) in
      dq\<lparr>dq_queue := queue @
        [\<lparr>dl_request = request, dl_error = error, dl_timestamp = now, dl_retry_count = 0\<rparr>]\<rparr>)"

definition dq_pop :: "'r dead_letter_queue \<Rightarrow> 'r dead_letter option \<times> 'r dead_letter_queue" where
  "dq_pop dq = (case dq_queue dq of [] \<Rightarrow> (None, dq) | d # ds \<Rightarrow> (Some d, dq\<lparr>dq_queue := ds\<rparr>))"

definition dq_get_all :: "'r dead_letter_queue \<Rightarrow> 'r dead_letter list" where
  "dq_get_all dq = dq_queue dq"

definition dq_clear :: "'r dead_letter_queue \<Rightarrow> 'r dead_letter_queue" where
  "dq_clear dq = dq\<lparr>dq_queue := []\<rparr>"

definition dq_len :: "'r dead_letter_queue \<Rightarrow> nat" where
  "dq_len dq = length (dq_queue dq)"

definition dq_is_empty :: "'r dead_letter_queue \<Rightarrow> bool" where
  "dq_is_empty dq = (dq_queue dq = [])"

text \<open>A sequence of failures, each with its time, request and error text.\<close>

fun dq_push_all :: "(nat \<times> 'r \<times> string) list \<Rightarrow> 'r dead_letter_queue \<Rightarrow> 'r dead_letter_queue" where
  "dq_push_all [] dq = dq"
| "dq_push_all ((now, r, e) # ps) dq = dq_push_all ps (dq_push now r e dq)"

definition letter :: "nat \<times> 'r \<times> string \<Rightarrow> 'r dead_letter" where
  "letter p = (case p of (now, r, e) \<Rightarrow>
     \<lparr>dl_request = r, dl_error = e, dl_timestamp = now, dl_retry_count = 0\<rparr>)"

fun dq_pop_all :: "nat \<Rightarrow> 'r dead_letter_queue \<Rightarrow> 'r dead_letter list \<times> 'r dead_letter_queue" where
  "dq_pop_all 0 dq = ([], dq)"
| "dq_pop_all (Suc n) dq =
     (case dq_pop dq of
        (None, dq') \<Rightarrow> ([], dq')
      | (Some d, dq') \<Rightarrow> (case dq_pop_all n dq' of (ds, dq'') \<Rightarrow> (d # ds, dq'')))"

section \<open>Topics\<close>

text \<open>
  Broadcast channels belong to the runtime library; a channel is named by a number. The
  runtime delivers a message on a channel to \<open>receivers\<close> of it, and answers an error when
  there are none. \<^verbatim>\<open>subscribe\<close> makes a channel of its own and files its sender under
  the topic.
\<close>

record message_queue =
  mq_topics :: "string \<rightharpoonup> nat"
  mq_next_channel :: nat

definition mq_new :: message_queue where
  "mq_new = \<lparr>mq_topics = (\<lambda>_. None), mq_next_channel = 0\<rparr>"

definition channel_send :: "(nat \<Rightarrow> nat) \<Rightarrow> nat \<Rightarrow> nat option" where
  "channel_send receivers c = (if receivers c = 0 then None else Some (receivers c))"

definition mq_publish :: "(nat \<Rightarrow> nat) \<Rightarrow> string \<Rightarrow> message_queue \<Rightarrow> nat" where
  "mq_publish receivers topic mq =
     (case mq_topics mq topic of
        Some sender \<Rightarrow> (case channel_send receivers sender of Some n \<Rightarrow> n | None \<Rightarrow> 0)
      | None \<Rightarrow> 0)"

definition mq_subscribe :: "string \<Rightarrow> message_queue \<Rightarrow> nat \<times> message_queue" where
  "mq_subscribe topic mq =
     (let c = mq_next_channel mq in
      (c, mq\<lparr>mq_topics := (mq_topics mq)(topic \<mapsto> c), mq_next_channel := Suc c\<rparr>))"

definition mq_topic_names :: "message_queue \<Rightarrow> string set" where
  "mq_topic_names mq = dom (mq_topics mq)"

section \<open>Cancellation\<close>

text \<open>Tokens share one flag: the store maps a token's flag address to its value.\<close>

type_synonym flag_store = "nat \<Rightarrow> bool"

definition token_new :: "nat \<Rightarrow> flag_store \<Rightarrow> nat \<times> flag_store" where
  "token_new addr store = (addr, store(addr := False))"

definition token_is_cancelled :: "nat \<Rightarrow> flag_store \<Rightarrow> bool" where
  "token_is_cancelled token store = store token"

definition token_cancel :: "nat \<Rightarrow> flag_store \<Rightarrow> flag_store" where
  "token_cancel token store = store(token := True)"

definition token_fork :: "nat \<Rightarrow> nat" where
  "token_fork token = token"

text \<open>
  \<open>cancelled\<close> looks at the flag every 100 milliseconds until it is set: \<open>stores\<close> is the store at
  each look, the result the number of sleeps. It may never return.
\<close>

partial_function (option) token_cancelled :: "nat \<Rightarrow> (nat \<Rightarrow> flag_store) \<Rightarrow> nat \<Rightarrow> nat option" where
  "token_cancelled token stores i =
     (if token_is_cancelled token (stores i) then Some i else token_cancelled token stores (i + 1))"

section \<open>Request counters\<close>

record util_metrics =
  um_requests_total :: u64
  um_requests_success :: u64
  um_requests_failure :: u64
  um_connections_active :: u64
  um_bytes_sent :: u64
  um_bytes_received :: u64
  um_latency_sum :: u64
  um_latency_count :: u64

definition um_default :: util_metrics where
  "um_default = \<lparr>um_requests_total = 0, um_requests_success = 0, um_requests_failure = 0,
     um_connections_active = 0, um_bytes_sent = 0, um_bytes_received = 0, um_latency_sum = 0,
     um_latency_count = 0\<rparr>"

definition um_record_request :: "util_metrics \<Rightarrow> util_metrics" where
  "um_record_request m = m\<lparr>um_requests_total := um_requests_total m + 1\<rparr>"

definition um_record_success :: "util_metrics \<Rightarrow> util_metrics" where
  "um_record_success m = m\<lparr>um_requests_success := um_requests_success m + 1\<rparr>"

definition um_record_failure :: "util_metrics \<Rightarrow> util_metrics" where
  "um_record_failure m = m\<lparr>um_requests_failure := um_requests_failure m + 1\<rparr>"

definition um_record_latency :: "duration \<Rightarrow> util_metrics \<Rightarrow> util_metrics" where
  "um_record_latency d m =
     m\<lparr>um_latency_sum := um_latency_sum m + as_millis_u64 d, um_latency_count := um_latency_count m + 1\<rparr>"

definition um_inc_connections :: "util_metrics \<Rightarrow> util_metrics" where
  "um_inc_connections m = m\<lparr>um_connections_active := um_connections_active m + 1\<rparr>"

definition um_dec_connections :: "util_metrics \<Rightarrow> util_metrics" where
  "um_dec_connections m = m\<lparr>um_connections_active := um_connections_active m - 1\<rparr>"

definition um_add_bytes_sent :: "u64 \<Rightarrow> util_metrics \<Rightarrow> util_metrics" where
  "um_add_bytes_sent n m = m\<lparr>um_bytes_sent := um_bytes_sent m + n\<rparr>"

definition um_add_bytes_received :: "u64 \<Rightarrow> util_metrics \<Rightarrow> util_metrics" where
  "um_add_bytes_received n m = m\<lparr>um_bytes_received := um_bytes_received m + n\<rparr>"

text \<open>The success rate of a snapshot is a percentage, as an exact number.\<close>

record metrics_snapshot =
  ms_requests_total :: u64
  ms_requests_success :: u64
  ms_requests_failure :: u64
  ms_connections_active :: u64
  ms_bytes_sent :: u64
  ms_bytes_received :: u64
  ms_avg_latency_ms :: u64
  ms_success_rate :: rat

definition um_snapshot :: "util_metrics \<Rightarrow> metrics_snapshot" where
  "um_snapshot m =
     (let total = um_requests_total m; success = um_requests_success m;
          latency_count = um_latency_count m; latency_sum = um_latency_sum m
      in \<lparr>ms_requests_total = total, ms_requests_success = success,
          ms_requests_failure = um_requests_failure m, ms_connections_active = um_connections_active m,
          ms_bytes_sent = um_bytes_sent m, ms_bytes_received = um_bytes_received m,
          ms_avg_latency_ms = (if latency_count > 0 then latency_sum div latency_count else 0),
          ms_success_rate =
            (if total > 0 then (of_nat (unat success) / of_nat (unat total)) * 100 else 0)\<rparr>)"

section \<open>Lemmas\<close>

lemma dq_push_queue:
  "dq_queue (dq_push now r e dq) =
    (if length (dq_queue dq) \<ge> dq_max_size dq then tl (dq_queue dq) else dq_queue dq) @ [letter (now, r, e)]"
  "dq_max_size (dq_push now r e dq) = dq_max_size dq"
  by (simp_all add: dq_push_def letter_def Let_def)

lemma drop_snoc_window:
  assumes "0 < n"
  shows "drop (Suc (length xs) - n) (xs @ [x]) =
    (let ys = drop (length xs - n) xs in (if length ys \<ge> n then tl ys else ys) @ [x])"
proof (cases "length xs < n")
  case True
  then show ?thesis by (simp add: Let_def)
next
  case False
  with assms have "Suc (length xs) - n = Suc (length xs - n)" "Suc (length xs) - n \<le> length xs"
    by linarith+
  with False show ?thesis by (simp add: Let_def drop_Suc tl_drop)
qed

lemma dq_push_all_window:
  assumes "0 < dq_max_size dq" and "dq_queue dq = drop (length old - dq_max_size dq) old"
  shows "dq_queue (dq_push_all ps dq) =
    drop (length old + length ps - dq_max_size dq) (old @ map letter ps)"
  using assms
proof (induction ps arbitrary: dq old)
  case (Cons p ps)
  obtain now r e where p: "p = (now, r, e)" by (cases p)
  let ?dq = "dq_push now r e dq"
  have "dq_queue ?dq = drop (length (old @ [letter p]) - dq_max_size ?dq) (old @ [letter p])"
    using Cons.prems drop_snoc_window [of "dq_max_size dq" old "letter p"]
    by (simp add: dq_push_queue p Let_def)
  with Cons.IH [of ?dq "old @ [letter p]"] Cons.prems show ?case by (simp add: dq_push_queue p)
qed simp

lemma dq_pop_all_queue:
  "dq_pop_all (length (dq_queue dq)) dq = (dq_queue dq, dq\<lparr>dq_queue := []\<rparr>)"
proof (induction "dq_queue dq" arbitrary: dq)
  case (Cons d ds)
  have pop: "dq_pop dq = (Some d, dq\<lparr>dq_queue := ds\<rparr>)" by (simp add: dq_pop_def flip: Cons.hyps(2))
  with Cons.hyps(1) [of "dq\<lparr>dq_queue := ds\<rparr>"] show ?case by (simp flip: Cons.hyps(2))
qed (simp add: dq_pop_def)

lemma dq_zero_window:
  "dq_max_size dq = 0 \<Longrightarrow> ps \<noteq> [] \<Longrightarrow> length (dq_queue dq) \<le> 1 \<Longrightarrow>
    dq_queue (dq_push_all ps dq) = [letter (last ps)]"
proof (induction ps arbitrary: dq)
  case (Cons p ps)
  obtain now r e where p: "p = (now, r, e)" by (cases p)
  have one: "dq_queue (dq_push now r e dq) = [letter p]"
    using Cons.prems by (cases "dq_queue dq") (auto simp: dq_push_queue p)
  with Cons.IH [of "dq_push now r e dq"] Cons.prems show ?case
    by (cases "ps = []") (auto simp: p dq_push_queue)
qed simp

lemma token_cancelled_first:
  assumes "token_is_cancelled token (stores k)" and "\<forall>j \<in> {i..<k}. \<not> token_is_cancelled token (stores j)" and "i \<le> k"
  shows "token_cancelled token stores i = Some k"
  using assms
proof (induction "k - i" arbitrary: i)
  case 0
  then show ?case by (subst token_cancelled.simps) simp
next
  case (Suc n)
  then have "\<not> token_is_cancelled token (stores i)" by auto
  moreover have "token_cancelled token stores (i + 1) = Some k"
    using Suc.hyps(2) Suc.prems by (intro Suc.hyps(1)) auto
  ultimately show ?case by (subst token_cancelled.simps) simp
qed

lemma token_cancelled_set:
  assumes "token_cancelled token stores i = Some k"
  shows "i \<le> k \<and> token_is_cancelled token (stores k)"
proof (rule token_cancelled.raw_induct [where P = "\<lambda>token stores i k. i \<le> k \<and> token_is_cancelled token (stores k)", OF _ assms])
  fix f :: "nat \<Rightarrow> (nat \<Rightarrow> flag_store) \<Rightarrow> nat \<Rightarrow> nat option" and token stores i k
  assume "\<And>token stores i k. f token stores i = Some k \<Longrightarrow> i \<le> k \<and> token_is_cancelled token (stores k)"
    and "(if token_is_cancelled token (stores i) then Some i else f token stores (i + 1)) = Some k"
  then show "i \<le> k \<and> token_is_cancelled token (stores k)"
    by (cases "token_is_cancelled token (stores i)") force+
qed

text \<open>Waiting for a token returns exactly when the token is cancelled at some look.\<close>

lemma token_cancelled_returns_iff:
  "(\<exists>k. token_cancelled token stores i = Some k) \<longleftrightarrow> (\<exists>k \<ge> i. token_is_cancelled token (stores k))"
proof
  assume "\<exists>k \<ge> i. token_is_cancelled token (stores k)"
  then obtain k where k: "i \<le> k \<and> token_is_cancelled token (stores k)"
    and least: "\<forall>j < k. \<not> (i \<le> j \<and> token_is_cancelled token (stores j))"
    using exists_least_iff [of "\<lambda>k. i \<le> k \<and> token_is_cancelled token (stores k)"] by blast
  then have "\<forall>j \<in> {i..<k}. \<not> token_is_cancelled token (stores j)" by auto
  with k have "token_cancelled token stores i = Some k" by (intro token_cancelled_first) auto
  then show "\<exists>k. token_cancelled token stores i = Some k" ..
qed (use token_cancelled_set in blast)

section \<open>Properties\<close>

text \<open>
  C39. The dead-letter queue is the window of the last failures: after any sequence of pushes
  it holds, oldest first, the last \<open>max_size\<close> of them (the last one for a size of zero), and
  popping returns them in that order and leaves it empty.
\<close>

theorem dead_letters_are_last:
  "dq_get_all (dq_push_all ps (dq_new n)) = map letter (drop (length ps - max 1 n) ps)
   \<and> fst (dq_pop_all (dq_len (dq_push_all ps (dq_new n))) (dq_push_all ps (dq_new n)))
       = map letter (drop (length ps - max 1 n) ps)
   \<and> dq_is_empty (snd (dq_pop_all (dq_len (dq_push_all ps (dq_new n))) (dq_push_all ps (dq_new n))))"
proof -
  have "dq_queue (dq_push_all ps (dq_new n)) = map letter (drop (length ps - max 1 n) ps)"
  proof (cases "n = 0")
    case True
    have "drop (length ps - 1) ps = [last ps]" if "ps \<noteq> []"
      using that by (metis One_nat_def append_butlast_last_id append_eq_conv_conj length_butlast)
    with True dq_zero_window [of "dq_new n" ps] show ?thesis
      by (cases "ps = []") (auto simp: dq_new_def)
  next
    case False
    with dq_push_all_window [of "dq_new n" "[]" ps] show ?thesis
      by (simp add: dq_new_def drop_map)
  qed
  with dq_pop_all_queue [of "dq_push_all ps (dq_new n)"] show ?thesis
    by (simp add: dq_get_all_def dq_len_def dq_is_empty_def)
qed

text \<open>
  A second subscriber silences the first: after subscribing twice to a topic, a message
  published on it reaches the receivers of the second channel only, however many the first
  still has.
\<close>

theorem second_subscriber_replaces_first:
  "let (c1, mq1) = mq_subscribe topic mq; (c2, mq2) = mq_subscribe topic mq1 in
     c1 \<noteq> c2 \<and> mq_publish receivers topic mq1 = receivers c1
     \<and> mq_publish receivers topic mq2 = receivers c2"
  by (simp add: mq_subscribe_def mq_publish_def channel_send_def Let_def)

end
