(* ===== verification/Metrics.thy ===== *)
theory Metrics
  imports Complex_Main Prelude
begin

text \<open>
  Monitoring, \<^verbatim>\<open>src/src/metrics.rs\<close>: the latency histogram with its binary search and
  percentiles, the counters of a service and their snapshot, the connection tracker, the
  collector that keeps one entry for each service, and the alert rules. Counters are 64-bit
  atomics and wrap around. The \<^verbatim>\<open>f64\<close> arithmetic of percentiles and error rates is
  idealised to exact rationals (they agree while the products stay below \<open>2 ^ 53\<close>).
  Here every method is one step; the compare-and-exchange loop that two of them contain is
  modelled step by step in \<^verbatim>\<open>Max_Register\<close>.
\<close>

section \<open>Histogram\<close>

text \<open>The standard library's binary search: halve the window while it holds more than one element.\<close>

function bs_loop :: "u64 list \<Rightarrow> u64 \<Rightarrow> nat \<Rightarrow> nat \<Rightarrow> nat" where
  "bs_loop xs v sz base =
     (if sz > 1 then
        let half = sz div 2; mid = base + half in
        bs_loop xs v (sz - half) (if xs ! mid > v then base else mid)
      else base)"
  by pat_completeness auto
termination
  by (relation "measure (\<lambda>(xs, v, sz, base). sz)") auto

declare bs_loop.simps [simp del]

definition binary_search :: "u64 list \<Rightarrow> u64 \<Rightarrow> nat + nat" where
  "binary_search xs v =
     (if xs = [] then Inl 0
      else
        let base = bs_loop xs v (length xs) 0 in
        if xs ! base = v then Inr base else Inl (base + (if xs ! base < v then 1 else 0)))"

record histogram =
  hg_buckets :: "u64 list"
  hg_bounds :: "u64 list"

definition hg_new :: "u64 list \<Rightarrow> histogram" where
  "hg_new bounds = \<lparr>hg_buckets = map (\<lambda>_. 0) [0..<length bounds + 1], hg_bounds = bounds\<rparr>"

definition hg_observe :: "u64 \<Rightarrow> histogram \<Rightarrow> histogram" where
  "hg_observe v h =
     (let index = (case binary_search (hg_bounds h) v of Inr i \<Rightarrow> i | Inl i \<Rightarrow> i) in
      h\<lparr>hg_buckets := (hg_buckets h)[index := hg_buckets h ! index + 1]\<rparr>)"

definition last_bound :: "u64 list \<Rightarrow> u64" where
  "last_bound bounds = (if bounds = [] then 100 else last bounds)"

text \<open>\<^verbatim>\<open>ceil() as u64\<close>: the cast saturates at both ends.\<close>

definition ceil_u64 :: "rat \<Rightarrow> u64" where
  "ceil_u64 q = (if \<lceil>q\<rceil> < 0 then 0 else if \<lceil>q\<rceil> \<ge> 2 ^ 64 then - 1 else of_int \<lceil>q\<rceil>)"

definition percentile_target :: "rat \<Rightarrow> u64 \<Rightarrow> u64" where
  "percentile_target p tot = ceil_u64 (of_nat (unat tot) * p / 100)"

fun percentile_loop :: "u64 list \<Rightarrow> u64 list \<Rightarrow> nat \<Rightarrow> u64 \<Rightarrow> u64 \<Rightarrow> u64" where
  "percentile_loop bounds [] i cumulative target = last_bound bounds"
| "percentile_loop bounds (bucket # buckets) i cumulative target =
     (let cumulative = cumulative + bucket in
      if cumulative \<ge> target then (if i < length bounds then bounds ! i else last_bound bounds)
      else percentile_loop bounds buckets (i + 1) cumulative target)"

definition percentile :: "rat \<Rightarrow> u64 \<Rightarrow> histogram \<Rightarrow> u64" where
  "percentile p tot h =
     (if tot = 0 then 0
      else percentile_loop (hg_bounds h) (hg_buckets h) 0 0 (percentile_target p tot))"

section \<open>The counters of a service\<close>

record request_metrics =
  rm_total :: u64
  rm_success :: u64
  rm_failure :: u64
  rm_timeout :: u64
  rm_latency_avg_ms :: u64
  rm_latency_p50_ms :: u64
  rm_latency_p95_ms :: u64
  rm_latency_p99_ms :: u64
  rm_latency_max_ms :: u64

record service_metrics =
  sv_requests_total :: u64
  sv_requests_success :: u64
  sv_requests_failure :: u64
  sv_requests_timeout :: u64
  sv_latency_sum_ms :: u64
  sv_latency_count :: u64
  sv_latency_max_ms :: u64
  sv_active_requests :: u64
  sv_latency_histogram :: histogram

definition latency_bounds :: "u64 list" where
  "latency_bounds = [10, 50, 100, 250, 500, 1000, 2500, 5000, 10000, 30000, 60000]"

definition sv_new :: service_metrics where
  "sv_new = \<lparr>sv_requests_total = 0, sv_requests_success = 0, sv_requests_failure = 0,
     sv_requests_timeout = 0, sv_latency_sum_ms = 0, sv_latency_count = 0, sv_latency_max_ms = 0,
     sv_active_requests = 0, sv_latency_histogram = hg_new latency_bounds\<rparr>"

definition request_start :: "service_metrics \<Rightarrow> service_metrics" where
  "request_start m = m\<lparr>sv_requests_total := sv_requests_total m + 1,
     sv_active_requests := sv_active_requests m + 1\<rparr>"

definition request_end :: "duration \<Rightarrow> bool \<Rightarrow> bool \<Rightarrow> service_metrics \<Rightarrow> service_metrics" where
  "request_end latency success is_timeout m =
     (let latency_ms = as_millis_u64 latency;
          m = m\<lparr>sv_active_requests := sv_active_requests m - 1,
                sv_latency_count := sv_latency_count m + 1,
                sv_latency_sum_ms := sv_latency_sum_ms m + latency_ms,
                sv_latency_max_ms :=
                  (if latency_ms \<le> sv_latency_max_ms m then sv_latency_max_ms m else latency_ms),
                sv_latency_histogram := hg_observe latency_ms (sv_latency_histogram m)\<rparr>
      in if is_timeout then m\<lparr>sv_requests_timeout := sv_requests_timeout m + 1\<rparr>
         else if success then m\<lparr>sv_requests_success := sv_requests_success m + 1\<rparr>
         else m\<lparr>sv_requests_failure := sv_requests_failure m + 1\<rparr>)"

definition sv_snapshot :: "service_metrics \<Rightarrow> request_metrics" where
  "sv_snapshot m =
     (let total = sv_requests_total m; count = sv_latency_count m; sum = sv_latency_sum_ms m;
          h = sv_latency_histogram m
      in \<lparr>rm_total = total, rm_success = sv_requests_success m, rm_failure = sv_requests_failure m,
          rm_timeout = sv_requests_timeout m,
          rm_latency_avg_ms = (if count > 0 then sum div count else 0),
          rm_latency_p50_ms = percentile 50 total h,
          rm_latency_p95_ms = percentile 95 total h,
          rm_latency_p99_ms = percentile 99 total h,
          rm_latency_max_ms = sv_latency_max_ms m\<rparr>)"

definition active_count :: "service_metrics \<Rightarrow> u64" where
  "active_count m = sv_active_requests m"

section \<open>Connections\<close>

record connection_tracker =
  ct_total_connections :: u64
  ct_active_connections :: u64
  ct_peak_connections :: u64
  ct_closed_connections :: u64
  ct_connection_errors :: u64

definition ct_new :: connection_tracker where
  "ct_new = \<lparr>ct_total_connections = 0, ct_active_connections = 0, ct_peak_connections = 0,
     ct_closed_connections = 0, ct_connection_errors = 0\<rparr>"

definition connection_opened :: "connection_tracker \<Rightarrow> connection_tracker" where
  "connection_opened c =
     (let active = ct_active_connections c + 1;
          c = c\<lparr>ct_total_connections := ct_total_connections c + 1, ct_active_connections := active\<rparr>
      in if active \<le> ct_peak_connections c then c else c\<lparr>ct_peak_connections := active\<rparr>)"

definition connection_closed :: "connection_tracker \<Rightarrow> connection_tracker" where
  "connection_closed c = c\<lparr>ct_active_connections := ct_active_connections c - 1,
     ct_closed_connections := ct_closed_connections c + 1\<rparr>"

definition connection_error :: "connection_tracker \<Rightarrow> connection_tracker" where
  "connection_error c = c\<lparr>ct_connection_errors := ct_connection_errors c + 1\<rparr>"

record connection_metrics =
  cx_total_connections :: u64
  cx_active_connections :: u64
  cx_peak_connections :: u64
  cx_closed_connections :: u64
  cx_connection_errors :: u64

definition ct_snapshot :: "connection_tracker \<Rightarrow> connection_metrics" where
  "ct_snapshot c =
     \<lparr>cx_total_connections = ct_total_connections c, cx_active_connections = ct_active_connections c,
      cx_peak_connections = ct_peak_connections c, cx_closed_connections = ct_closed_connections c,
      cx_connection_errors = ct_connection_errors c\<rparr>"

section \<open>The collector\<close>

text \<open>
  The collector hands out shared references to a service's entry; a reference is the name of
  the entry, and a method on it updates the entry in place.
\<close>

record metrics_collector =
  mc_services :: "string \<rightharpoonup> service_metrics"
  mc_connections :: connection_tracker

definition mc_new :: metrics_collector where
  "mc_new = \<lparr>mc_services = (\<lambda>_. None), mc_connections = ct_new\<rparr>"

definition get_or_create_service :: "string \<Rightarrow> metrics_collector \<Rightarrow> metrics_collector" where
  "get_or_create_service name mc =
     (case mc_services mc name of
        Some _ \<Rightarrow> mc
      | None \<Rightarrow> mc\<lparr>mc_services := (mc_services mc)(name \<mapsto> sv_new)\<rparr>)"

definition on_service :: "string \<Rightarrow> (service_metrics \<Rightarrow> service_metrics) \<Rightarrow> metrics_collector
    \<Rightarrow> metrics_collector" where
  "on_service name f mc =
     (case mc_services mc name of
        Some m \<Rightarrow> mc\<lparr>mc_services := (mc_services mc)(name \<mapsto> f m)\<rparr>
      | None \<Rightarrow> mc)"

definition snapshot_all :: "metrics_collector \<Rightarrow> string \<rightharpoonup> request_metrics" where
  "snapshot_all mc name = map_option sv_snapshot (mc_services mc name)"

section \<open>Alerts\<close>

datatype alert_condition =
    LatencyP99Above u64
  | ErrorRateAbove rat
  | ActiveConnectionsAbove u64
  | CircuitBreakerOpen

record alert_rule =
  ar_name :: string
  ar_metric :: string
  ar_condition :: alert_condition
  ar_cooldown :: duration

datatype alert_severity = Warning | Critical

record alert =
  al_rule_name :: string
  al_message :: string
  al_severity :: alert_severity
  al_timestamp :: instant

fun should_alert :: "alert_condition \<Rightarrow> request_metrics \<Rightarrow> bool" where
  "should_alert (LatencyP99Above threshold) snapshot = (rm_latency_p99_ms snapshot > threshold)"
| "should_alert (ErrorRateAbove threshold) snapshot =
     (if rm_total snapshot > 0
      then (of_nat (unat (rm_failure snapshot)) :: rat) / of_nat (unat (rm_total snapshot)) > threshold
      else False)"
| "should_alert CircuitBreakerOpen snapshot = False"
| "should_alert (ActiveConnectionsAbove _) snapshot = False"

text \<open>
  \<open>check\<close> goes through the snapshots (in the order the hash map yields them) and the
  rules, and calls every callback for each alert; the result is the sequence of calls, each
  with the callback it goes to.
\<close>

fun check_rules :: "instant \<Rightarrow> 'c list \<Rightarrow> string \<Rightarrow> request_metrics \<Rightarrow> alert_rule list \<Rightarrow> ('c \<times> alert) list" where
  "check_rules now callbacks service snapshot [] = []"
| "check_rules now callbacks service snapshot (rule # rules) =
     (if ar_metric rule \<noteq> service then check_rules now callbacks service snapshot rules
      else if should_alert (ar_condition rule) snapshot then
        map (\<lambda>c. (c, \<lparr>al_rule_name = ar_name rule, al_message = service @ '': threshold exceeded'',
                      al_severity = Warning, al_timestamp = now\<rparr>)) callbacks
          @ check_rules now callbacks service snapshot rules
      else check_rules now callbacks service snapshot rules)"

fun alert_check :: "instant \<Rightarrow> alert_rule list \<Rightarrow> 'c list \<Rightarrow> (string \<times> request_metrics) list
    \<Rightarrow> ('c \<times> alert) list" where
  "alert_check now rules callbacks [] = []"
| "alert_check now rules callbacks ((service, snapshot) # snapshots) =
     check_rules now callbacks service snapshot rules @ alert_check now rules callbacks snapshots"

record 'c alert_manager =
  am_rules :: "alert_rule list"
  am_callbacks :: "'c list"

definition am_new :: "'c alert_manager" where
  "am_new = \<lparr>am_rules = [], am_callbacks = []\<rparr>"

definition add_rule :: "alert_rule \<Rightarrow> 'c alert_manager \<Rightarrow> 'c alert_manager" where
  "add_rule rule am = am\<lparr>am_rules := am_rules am @ [rule]\<rparr>"

definition add_callback :: "'c \<Rightarrow> 'c alert_manager \<Rightarrow> 'c alert_manager" where
  "add_callback callback am = am\<lparr>am_callbacks := am_callbacks am @ [callback]\<rparr>"

definition severity_text :: "alert_severity \<Rightarrow> string" where
  "severity_text s = (case s of Warning \<Rightarrow> ''WARNING'' | Critical \<Rightarrow> ''CRITICAL'')"

definition alert_text :: "alert \<Rightarrow> string" where
  "alert_text a = ''['' @ severity_text (al_severity a) @ ''] '' @ al_rule_name a @ '' - '' @ al_message a"

section \<open>The binary search\<close>

definition below :: "u64 list \<Rightarrow> u64 \<Rightarrow> nat" where
  "below xs v = length (filter (\<lambda>b. b < v) xs)"

lemma below_append [simp]: "below (xs @ ys) v = below xs v + below ys v"
  by (simp add: below_def)

lemma below_all: "(\<And>b. b \<in> set xs \<Longrightarrow> b < v) \<Longrightarrow> below xs v = length xs"
  by (simp add: below_def)

lemma below_none: "(\<And>b. b \<in> set xs \<Longrightarrow> v \<le> b) \<Longrightarrow> below xs v = 0"
  by (simp add: below_def not_less)

lemma below_split:
  assumes "sorted_wrt (<) xs" and "i \<le> length xs"
    and "\<And>j. j < i \<Longrightarrow> xs ! j < v" and "\<And>j. i \<le> j \<Longrightarrow> j < length xs \<Longrightarrow> v \<le> xs ! j"
  shows "below xs v = i"
proof -
  have "below (take i xs) v = length (take i xs)"
    using assms by (intro below_all) (auto simp: in_set_conv_nth)
  moreover have "below (drop i xs) v = 0"
    using assms(4) by (intro below_none) (force simp: in_set_conv_nth)
  ultimately show ?thesis
    using assms(2) below_append [of "take i xs" "drop i xs" v] by simp
qed

lemma bs_loop_one: "bs_loop xs v (Suc 0) base = base"
  by (subst bs_loop.simps) simp

lemma bs_loop_halve:
  "1 < sz \<Longrightarrow> bs_loop xs v sz base = bs_loop xs v (sz - sz div 2)
     (if xs ! (base + sz div 2) > v then base else base + sz div 2)"
  by (subst bs_loop.simps) (simp add: Let_def)

lemma bs_loop_spec:
  assumes "sorted_wrt (<) xs" and "0 < sz" and "base + sz \<le> length xs"
    and "base = 0 \<or> xs ! base \<le> v" and "\<And>j. base + sz \<le> j \<Longrightarrow> j < length xs \<Longrightarrow> v < xs ! j"
  shows "bs_loop xs v sz base < length xs
    \<and> (bs_loop xs v sz base = 0 \<or> xs ! bs_loop xs v sz base \<le> v)
    \<and> (\<forall>j > bs_loop xs v sz base. j < length xs \<longrightarrow> v < xs ! j)"
  using assms
proof (induction xs v sz base rule: bs_loop.induct)
  case (1 xs v sz base)
  show ?case
  proof (cases "sz > 1")
    case False
    with "1.prems" have "sz = 1" by simp
    with "1.prems" show ?thesis by (auto simp: bs_loop_one)
  next
    case True
    let ?half = "sz div 2" and ?mid = "base + sz div 2"
    have half: "0 < ?half" "?half < sz" using True by simp_all
    have mid: "?mid < length xs" using "1.prems" half by linarith
    have bound: "v < xs ! j" if j: "(if xs ! ?mid > v then base else ?mid) + (sz - ?half) \<le> j" "j < length xs" for j
    proof (cases "xs ! ?mid > v")
      case True
      have "?half \<le> sz - ?half" by simp
      with True j have "?mid \<le> j" by simp
      then have "xs ! ?mid \<le> xs ! j"
        using j(2) "1.prems"(1) by (cases "j = ?mid") (auto simp: sorted_wrt_iff_nth_less intro: less_imp_le)
      with True show ?thesis by simp
    next
      case False
      with j half "1.prems"(5) show ?thesis by simp
    qed
    let ?b = "if xs ! ?mid > v then base else ?mid"
    have "0 < sz - ?half" using half by simp
    moreover have "?b + (sz - ?half) \<le> length xs" using "1.prems"(3) half by auto
    moreover have "?b = 0 \<or> xs ! ?b \<le> v" using "1.prems"(4) by (simp add: not_less)
    ultimately show ?thesis
      unfolding bs_loop_halve [OF True] by (rule "1.IH" [OF True refl refl "1.prems"(1) _ _ _ bound])
  qed
qed

lemma binary_search_below:
  assumes "sorted_wrt (<) xs"
  shows "binary_search xs v = (if v \<in> set xs then Inr (below xs v) else Inl (below xs v))"
proof (cases "xs = []")
  case True
  then show ?thesis by (simp add: binary_search_def below_def)
next
  case False
  let ?b = "bs_loop xs v (length xs) 0"
  have b: "?b < length xs" "?b = 0 \<or> xs ! ?b \<le> v" "\<And>j. ?b < j \<Longrightarrow> j < length xs \<Longrightarrow> v < xs ! j"
    using bs_loop_spec [OF assms, of "length xs" 0 v] False by auto
  have before: "xs ! j < xs ! ?b" if "j < ?b" for j
    using that b(1) assms by (simp add: sorted_wrt_iff_nth_less)
  have after: "xs ! ?b < xs ! j" if "?b < j" "j < length xs" for j
    using that assms by (simp add: sorted_wrt_iff_nth_less)
  consider "xs ! ?b = v" | "xs ! ?b < v" | "v < xs ! ?b" "?b = 0" using b(2) by force
  then show ?thesis
  proof cases
    case 1
    have "below xs v = ?b"
      using before after b(1) 1 by (intro below_split [OF assms]) (auto simp: le_less)
    moreover have "v \<in> set xs" using 1 b(1) by (metis nth_mem)
    ultimately show ?thesis using False 1 by (simp add: binary_search_def Let_def)
  next
    case 2
    have "below xs v = Suc ?b"
    proof (intro below_split [OF assms])
      show "xs ! j < v" if "j < Suc ?b" for j
        using that before [of j] 2 by (cases "j = ?b") auto
    qed (use b in \<open>auto simp: Suc_le_eq intro: less_imp_le\<close>)
    moreover have "xs ! j \<noteq> v" if "j < length xs" for j
      using that before [of j] b(3) [of j] 2 by (cases j ?b rule: linorder_cases) auto
    then have "v \<notin> set xs" by (auto simp: in_set_conv_nth)
    ultimately show ?thesis using False 2 by (simp add: binary_search_def Let_def)
  next
    case 3
    have "v < xs ! j" if "j < length xs" for j
      using that 3 b(3) [of j] by (cases "j = 0") auto
    then have "below xs v = 0" "v \<notin> set xs"
      by (auto simp: in_set_conv_nth intro!: below_none less_imp_le)
    with 3 False show ?thesis by (auto simp: binary_search_def Let_def)
  qed
qed

section \<open>Percentiles of observed values\<close>

definition observe_all :: "u64 list \<Rightarrow> u64 list \<Rightarrow> histogram" where
  "observe_all bounds vs = fold hg_observe vs (hg_new bounds)"

lemma hg_new_simps [simp]:
  "hg_bounds (hg_new bounds) = bounds" "length (hg_buckets (hg_new bounds)) = length bounds + 1"
  "sum_list (take n (hg_buckets (hg_new bounds))) = 0"
  by (simp_all add: hg_new_def map_replicate_trivial sum_list_replicate take_Cons' del: upt_Suc)

lemma hg_observe_simps [simp]:
  "hg_bounds (hg_observe v h) = hg_bounds h" "length (hg_buckets (hg_observe v h)) = length (hg_buckets h)"
  by (simp_all add: hg_observe_def Let_def)

lemma hg_observe_bucket:
  assumes "sorted_wrt (<) (hg_bounds h)"
  shows "hg_buckets (hg_observe v h) =
    (hg_buckets h)[below (hg_bounds h) v := hg_buckets h ! below (hg_bounds h) v + 1]"
  by (simp add: hg_observe_def binary_search_below [OF assms] Let_def)

lemma below_le_index:
  assumes "sorted_wrt (<) xs" and "j < length xs"
  shows "below xs v \<le> j \<longleftrightarrow> v \<le> xs ! j"
proof
  assume le: "below xs v \<le> j"
  show "v \<le> xs ! j"
  proof (rule ccontr)
    assume "\<not> v \<le> xs ! j"
    then have "xs ! j < v" by simp
    moreover have "xs ! i \<le> xs ! j" if "i \<le> j" for i
      using that assms by (cases "i = j") (auto simp: sorted_wrt_iff_nth_less intro: less_imp_le)
    ultimately have "xs ! i < v" if "i \<le> j" for i
      using that by (meson order_le_less_trans)
    then have "below (take (Suc j) xs) v = length (take (Suc j) xs)"
      by (intro below_all) (auto simp: in_set_conv_nth less_Suc_eq_le)
    with assms(2) le below_append [of "take (Suc j) xs" "drop (Suc j) xs" v] show False by simp
  qed
next
  assume le: "v \<le> xs ! j"
  have "xs ! j \<le> xs ! i" if "j \<le> i" "i < length xs" for i
    using that assms(1) by (cases "i = j") (auto simp: sorted_wrt_iff_nth_less intro: less_imp_le)
  with le have "v \<le> xs ! i" if "j \<le> i" "i < length xs" for i
    using that by (meson order_trans)
  then have "below (drop j xs) v = 0"
    by (intro below_none) (auto simp: in_set_conv_nth)
  moreover have "below (take j xs) v \<le> j"
    by (simp add: below_def) (metis length_filter_le length_take min.boundedE)
  ultimately show "below xs v \<le> j"
    using below_append [of "take j xs" "drop j xs" v] by simp
qed

lemma below_le_length: "below xs v \<le> length xs"
  by (simp add: below_def)

lemma sum_list_take_bump:
  fixes xs :: "u64 list"
  shows "k < length xs \<Longrightarrow>
    sum_list (take n (xs[k := xs ! k + 1])) = sum_list (take n xs) + (if k < n then 1 else 0)"
proof (induction xs arbitrary: n k)
  case (Cons x xs)
  then show ?case by (cases n; cases k) (auto simp: algebra_simps)
qed simp

lemma cumulative_count:
  assumes "sorted_wrt (<) bounds" and "j < length bounds"
  shows "sum_list (take (Suc j) (hg_buckets (observe_all bounds vs)))
      = of_nat (length (filter (\<lambda>v. v \<le> bounds ! j) vs))
    \<and> hg_bounds (observe_all bounds vs) = bounds
    \<and> length (hg_buckets (observe_all bounds vs)) = length bounds + 1"
proof (induction vs rule: rev_induct)
  case (snoc v vs)
  then show ?case
    using assms below_le_length [of bounds v] below_le_index [OF assms, of v]
    by (simp add: observe_all_def hg_observe_bucket sum_list_take_bump less_Suc_eq_le)
qed (simp add: observe_all_def)

lemma observe_all_shape [simp]:
  "hg_bounds (observe_all bounds vs) = bounds"
  "length (hg_buckets (observe_all bounds vs)) = length bounds + 1"
  by (induction vs rule: rev_induct) (simp_all add: observe_all_def)

lemma percentile_loop_find:
  assumes "length B = length bounds + 1" and "i \<le> length bounds"
  shows "percentile_loop bounds (drop i B) i (sum_list (take i B)) target
    = (case find (\<lambda>j. target \<le> sum_list (take (Suc j) B)) [i..<length bounds] of
         Some j \<Rightarrow> bounds ! j | None \<Rightarrow> last_bound bounds)"
  using assms(2)
proof (induction "length bounds - i" arbitrary: i)
  case 0
  then have i: "i = length bounds" by simp
  then obtain b where "drop i B = [b]"
    using assms(1) by (cases "drop i B"; cases "tl (drop i B)") (auto dest: arg_cong [of _ _ length])
  with i show ?case by (simp add: Let_def)
next
  case (Suc n)
  then have i: "i < length bounds" by simp
  have d: "drop i B = B ! i # drop (Suc i) B" and s: "sum_list (take i B) + B ! i = sum_list (take (Suc i) B)"
    using i assms(1) by (simp_all add: Cons_nth_drop_Suc take_Suc_conv_app_nth)
  have u: "[i..<length bounds] = i # [Suc i..<length bounds]" using i by (rule upt_conv_Cons)
  show ?case
    using Suc.hyps(1) [of "Suc i"] Suc.hyps(2) i by (simp add: d s u Let_def)
qed

lemma find_map: "find P (map f xs) = map_option f (find (P \<circ> f) xs)"
  by (induction xs) auto

lemma find_cong_set: "(\<And>x. x \<in> set xs \<Longrightarrow> P x = Q x) \<Longrightarrow> find P xs = find Q xs"
  by (induction xs) auto

lemma percentile_least_bound:
  assumes "sorted_wrt (<) bounds" and "tot \<noteq> 0"
  shows "percentile p tot (observe_all bounds vs) =
    (case find (\<lambda>b. percentile_target p tot \<le> of_nat (length (filter (\<lambda>v. v \<le> b) vs))) bounds of
       Some b \<Rightarrow> b | None \<Rightarrow> last_bound bounds)"
proof -
  let ?P = "\<lambda>b. percentile_target p tot \<le> (of_nat (length (filter (\<lambda>v. v \<le> b) vs)) :: u64)"
  let ?B = "hg_buckets (observe_all bounds vs)"
  have "find ?P bounds = map_option ((!) bounds) (find (?P \<circ> (!) bounds) [0..<length bounds])"
    by (metis find_map map_nth)
  also have "find (?P \<circ> (!) bounds) [0..<length bounds]
      = find (\<lambda>j. percentile_target p tot \<le> sum_list (take (Suc j) ?B)) [0..<length bounds]"
    by (rule find_cong_set) (simp add: cumulative_count [OF assms(1)])
  finally show ?thesis
    using percentile_loop_find [of ?B bounds 0 "percentile_target p tot"] assms(2)
    by (simp add: percentile_def split: option.splits)
qed

text \<open>
  C36. Percentiles. After any sequence of observations of a histogram with increasing bounds,
  \<open>percentile\<close> returns the least bound below or at which at least the target number of the
  observed values lie (all of them counted, whatever bucket the binary search put them in),
  and the last bound when there is no such bound.
\<close>

theorem percentile_is_least_bound:
  assumes "sorted_wrt (<) bounds" and "tot \<noteq> 0"
  shows "percentile p tot (fold hg_observe vs (hg_new bounds)) =
    (case find (\<lambda>b. percentile_target p tot \<le> of_nat (length (filter (\<lambda>v. v \<le> b) vs))) bounds of
       Some b \<Rightarrow> b | None \<Rightarrow> last_bound bounds)"
  using percentile_least_bound [OF assms] by (simp add: observe_all_def)

theorem percentile_is_least_bound_witness:
  "percentile 50 4 (fold hg_observe [7, 10, 60, 900] (hg_new [10, 50, 100, 1000])) = 10
    \<and> percentile 75 4 (fold hg_observe [7, 10, 60, 900] (hg_new [10, 50, 100, 1000])) = 100"
  using percentile_is_least_bound [of "[10, 50, 100, 1000]" 4 50 "[7, 10, 60, 900]"]
    percentile_is_least_bound [of "[10, 50, 100, 1000]" 4 75 "[7, 10, 60, 900]"]
  by (simp add: percentile_target_def ceil_u64_def)

section \<open>Accounting of requests\<close>

datatype service_event = Start | Finish duration bool bool

fun service_step :: "service_event \<Rightarrow> service_metrics \<Rightarrow> service_metrics" where
  "service_step Start m = request_start m"
| "service_step (Finish latency success is_timeout) m = request_end latency success is_timeout m"

definition service_run :: "service_event list \<Rightarrow> service_metrics" where
  "service_run es = fold service_step es sv_new"

fun latencies :: "service_event list \<Rightarrow> u64 list" where
  "latencies [] = []"
| "latencies (Start # es) = latencies es"
| "latencies (Finish latency _ _ # es) = as_millis_u64 latency # latencies es"

lemma latencies_append [simp]: "latencies (es @ fs) = latencies es @ latencies fs"
  by (induction es rule: latencies.induct) auto

lemma service_run_snoc: "service_run (es @ [e]) = service_step e (service_run es)"
  by (simp add: service_run_def)

lemma service_run_values:
  "sv_requests_total (service_run es) =
     sv_requests_success (service_run es) + sv_requests_failure (service_run es)
       + sv_requests_timeout (service_run es) + sv_active_requests (service_run es)
   \<and> sv_latency_count (service_run es) = of_nat (length (latencies es))
   \<and> sv_latency_sum_ms (service_run es) = sum_list (latencies es)
   \<and> sv_latency_max_ms (service_run es) = fold max (latencies es) 0
   \<and> sv_latency_histogram (service_run es) = fold hg_observe (latencies es) (hg_new latency_bounds)"
proof (induction es rule: rev_induct)
  case Nil
  show ?case by (simp add: service_run_def sv_new_def)
next
  case (snoc e es)
  then show ?case
    by (cases e) (simp_all add: service_run_snoc request_start_def request_end_def Let_def max_def)
qed


text \<open>
  The percentiles of a snapshot are asked of the requests counted at their start, the
  histogram holds the finished ones only: while too few have finished, the answer is the last
  bound, one minute, whatever was measured.
\<close>

lemma latency_bounds_sorted: "sorted_wrt (<) latency_bounds"
  by (simp add: latency_bounds_def)

lemma latency_bounds_last: "last_bound latency_bounds = 60000"
  by (simp add: last_bound_def latency_bounds_def)

lemma count_le_word:
  assumes "length vs < unat (target :: u64)"
  shows "\<not> target \<le> of_nat (length (filter P vs))"
proof -
  have "length (filter P vs) < unat target"
    using assms length_filter_le [of P vs] by linarith
  moreover have "unat (of_nat (length (filter P vs)) :: u64) \<le> length (filter P vs)"
    by (simp add: unat_of_nat)
  ultimately show ?thesis by (simp add: word_le_nat_alt)
qed

text \<open>
  Requests in flight distort the percentiles. After any sequence of events, when fewer
  requests have finished than the 99th percentile asks for, the snapshot reports 60000 ms for it,
  the last bound, however short every measured latency is.
\<close>

theorem unfinished_requests_raise_p99:
  assumes "length (latencies es) < unat (percentile_target 99 (sv_requests_total (service_run es)))"
    and "sv_requests_total (service_run es) \<noteq> 0"
  shows "rm_latency_p99_ms (sv_snapshot (service_run es)) = 60000"
proof -
  let ?t = "percentile_target 99 (sv_requests_total (service_run es))"
  have "find (\<lambda>b. ?t \<le> of_nat (length (filter (\<lambda>v. v \<le> b) (latencies es)))) latency_bounds = None"
    using count_le_word [OF assms(1)] by (simp add: find_None_iff)
  then have "percentile 99 (sv_requests_total (service_run es)) (observe_all latency_bounds (latencies es)) = 60000"
    by (simp add: percentile_least_bound [OF latency_bounds_sorted assms(2)] latency_bounds_last)
  then show ?thesis
    using service_run_values [of es] by (simp add: sv_snapshot_def Let_def observe_all_def)
qed

theorem unfinished_requests_raise_p99_witness:
  "rm_latency_p99_ms (sv_snapshot (service_run [Start, Finish (from_millis 3) True False, Start])) = 60000"
proof -
  let ?es = "[Start, Finish (from_millis 3) True False, Start]"
  have two: "sv_requests_total (service_run ?es) = 2"
    by (simp add: service_run_def request_start_def request_end_def Let_def sv_new_def)
  have "\<lceil>99 / 50 :: rat\<rceil> = 2" by (simp add: ceiling_eq_iff)
  then have "length (latencies ?es) < unat (percentile_target 99 (sv_requests_total (service_run ?es)))"
    unfolding two by (simp add: percentile_target_def ceil_u64_def)
  then show ?thesis
    by (rule unfinished_requests_raise_p99) (simp add: two)
qed

section \<open>The peak of the connections\<close>

datatype tracker_event = Opened | Closed | Errored

fun tracker_step :: "tracker_event \<Rightarrow> connection_tracker \<Rightarrow> connection_tracker" where
  "tracker_step Opened c = connection_opened c"
| "tracker_step Closed c = connection_closed c"
| "tracker_step Errored c = connection_error c"

definition tracker_run :: "tracker_event list \<Rightarrow> connection_tracker" where
  "tracker_run es = fold tracker_step es ct_new"

text \<open>The number of connections open after a sequence of events that closes only open ones.\<close>

fun open_after :: "nat \<Rightarrow> tracker_event list \<Rightarrow> nat option" where
  "open_after n [] = Some n"
| "open_after n (Opened # es) = open_after (n + 1) es"
| "open_after n (Closed # es) = (if n = 0 then None else open_after (n - 1) es)"
| "open_after n (Errored # es) = open_after n es"

fun most_open :: "nat \<Rightarrow> tracker_event list \<Rightarrow> nat" where
  "most_open n [] = n"
| "most_open n (Opened # es) = max n (most_open (n + 1) es)"
| "most_open n (Closed # es) = max n (most_open (n - 1) es)"
| "most_open n (Errored # es) = most_open n es"

lemma most_open_ge: "n \<le> most_open n es"
  by (induction n es rule: most_open.induct) auto

lemma tracker_fold_peak:
  assumes "open_after n es = Some k" and "n + length es < 2 ^ 64"
    and "ct_active_connections c = of_nat n" and "n \<le> unat (ct_peak_connections c)"
  shows "unat (ct_active_connections (fold tracker_step es c)) = k
    \<and> unat (ct_peak_connections (fold tracker_step es c)) = max (unat (ct_peak_connections c)) (most_open n es)"
  using assms
proof (induction es arbitrary: n c)
  case Nil
  then show ?case by (simp add: unat_of_nat_small max_def)
next
  case (Cons e es)
  show ?case
  proof (cases e)
    case Opened
    let ?c = "connection_opened c"
    have a: "ct_active_connections ?c = of_nat (n + 1)"
      using Cons.prems(3) by (simp add: connection_opened_def Let_def add.commute)
    have u: "unat (of_nat (n + 1) :: u64) = n + 1"
      using Cons.prems(2) by (intro unat_of_nat_small) simp
    have p: "unat (ct_peak_connections ?c) = max (unat (ct_peak_connections c)) (n + 1)"
      using Cons.prems(3) u
      by (auto simp: connection_opened_def Let_def word_le_nat_alt add.commute max_def)
    show ?thesis
      using Cons.IH [of "n + 1" ?c] Cons.prems a p most_open_ge [of "n + 1" es] Opened
      by (auto simp: max_def)
  next
    case Closed
    let ?c = "connection_closed c"
    obtain m where m: "n = Suc m" using Cons.prems(1) Closed by (cases n) auto
    have a: "ct_active_connections ?c = of_nat m" and p: "ct_peak_connections ?c = ct_peak_connections c"
      using Cons.prems(3) m by (simp_all add: connection_closed_def)
    show ?thesis
      using Cons.IH [of m ?c] Cons.prems a p m Closed by (auto simp: max_def)
  next
    case Errored
    then show ?thesis
      using Cons.IH [of n "connection_error c"] Cons.prems by (simp add: connection_error_def)
  qed
qed

text \<open>
  Peak of the connections. After any sequence of openings, closings of open connections and
  errors (fewer than $2^{64}$ of them), the active count is the number of connections now open
  and the peak is the largest number that were ever open at once.
\<close>

theorem tracker_peak:
  assumes "open_after 0 es = Some k" and "length es < 2 ^ 64"
  shows "unat (ct_active_connections (tracker_run es)) = k
    \<and> unat (ct_peak_connections (tracker_run es)) = most_open 0 es"
  using tracker_fold_peak [of 0 es k ct_new] assms by (simp_all add: tracker_run_def ct_new_def)

theorem tracker_peak_witness:
  "unat (ct_active_connections (tracker_run [Opened, Opened, Closed, Errored, Opened, Closed])) = 1
   \<and> unat (ct_peak_connections (tracker_run [Opened, Opened, Closed, Errored, Opened, Closed])) = 2"
  using tracker_peak [of "[Opened, Opened, Closed, Errored, Opened, Closed]" 1]
  by simp

section \<open>Alerts raised\<close>

lemma check_rules_set:
  "(c, a) \<in> set (check_rules now callbacks service snapshot rules) \<longleftrightarrow>
     c \<in> set callbacks \<and> (\<exists>rule \<in> set rules. ar_metric rule = service
       \<and> should_alert (ar_condition rule) snapshot
       \<and> a = \<lparr>al_rule_name = ar_name rule, al_message = service @ '': threshold exceeded'',
              al_severity = Warning, al_timestamp = now\<rparr>)"
  by (induction rules) auto

lemma check_rules_cooldown:
  "check_rules now callbacks service snapshot (map (ar_cooldown_update f) rules)
     = check_rules now callbacks service snapshot rules"
  by (induction rules) auto

text \<open>
  Alerts. A check delivers an alert to a callback exactly when some rule names a service of
  the collector and its condition holds of that service's snapshot; the alert carries the rule's
  name and the service. Rules on open circuit breakers and on active connections never fire, and
  the cooldown of the rules has no influence.
\<close>

theorem alerts_delivered_iff:
  "((c, a) \<in> set (alert_check now rules callbacks snapshots) \<longleftrightarrow>
     c \<in> set callbacks \<and>
     (\<exists>service snapshot rule. (service, snapshot) \<in> set snapshots \<and> rule \<in> set rules
        \<and> ar_metric rule = service
        \<and> (case ar_condition rule of
             LatencyP99Above threshold \<Rightarrow> rm_latency_p99_ms snapshot > threshold
           | ErrorRateAbove threshold \<Rightarrow> rm_total snapshot > 0
               \<and> of_nat (unat (rm_failure snapshot)) / of_nat (unat (rm_total snapshot)) > threshold
           | _ \<Rightarrow> False)
        \<and> a = \<lparr>al_rule_name = ar_name rule, al_message = service @ '': threshold exceeded'',
               al_severity = Warning, al_timestamp = now\<rparr>))
   \<and> alert_check now (map (ar_cooldown_update f) rules) callbacks snapshots
       = alert_check now rules callbacks snapshots"
proof -
  have fires: "should_alert (ar_condition rule) snapshot =
      (case ar_condition rule of
         LatencyP99Above threshold \<Rightarrow> rm_latency_p99_ms snapshot > threshold
       | ErrorRateAbove threshold \<Rightarrow> rm_total snapshot > 0
           \<and> of_nat (unat (rm_failure snapshot)) / of_nat (unat (rm_total snapshot)) > threshold
       | _ \<Rightarrow> False)" for rule snapshot
    by (cases "ar_condition rule") auto
  have "(c, a) \<in> set (alert_check now rules callbacks snapshots) \<longleftrightarrow>
      (\<exists>(service, snapshot) \<in> set snapshots. (c, a) \<in> set (check_rules now callbacks service snapshot rules))"
    by (induction snapshots) auto
  moreover have "alert_check now (map (ar_cooldown_update f) rules) callbacks snapshots
      = alert_check now rules callbacks snapshots"
    by (induction snapshots) (auto simp: check_rules_cooldown)
  ultimately show ?thesis
    unfolding check_rules_set fires by blast
qed

end
