(* ===== verification/Max_Register.thy ===== *)
theory Max_Register
  imports Prelude
begin

text \<open>
  The two compare-and-exchange loops of \<^verbatim>\<open>src/src/metrics.rs\<close>, which raise the
  maximum latency and the peak of connections: any number of threads run the loop on one atomic,
  each with a value of its own, and a scheduler interleaves their loads and exchanges. In
  \<^verbatim>\<open>Metrics\<close> the loop is one step; the theorem here is what justifies that.
\<close>

section \<open>The loop\<close>

text \<open>Where a thread is: about to load, about to exchange for the value it loaded, or out of the loop.\<close>

datatype phase = Loading | Exchanging u64 | Finished

record register =
  reg_value :: u64
  reg_phases :: "phase list"

inductive max_step :: "u64 list \<Rightarrow> register \<Rightarrow> register \<Rightarrow> bool" for offers where
  load_small: "i < length (reg_phases r) \<Longrightarrow> reg_phases r ! i = Loading \<Longrightarrow> offers ! i \<le> reg_value r
    \<Longrightarrow> max_step offers r (r\<lparr>reg_phases := (reg_phases r)[i := Finished]\<rparr>)"
| load_large: "i < length (reg_phases r) \<Longrightarrow> reg_phases r ! i = Loading \<Longrightarrow> \<not> offers ! i \<le> reg_value r
    \<Longrightarrow> max_step offers r (r\<lparr>reg_phases := (reg_phases r)[i := Exchanging (reg_value r)]\<rparr>)"
| exchange_ok: "i < length (reg_phases r) \<Longrightarrow> reg_phases r ! i = Exchanging current \<Longrightarrow> reg_value r = current
    \<Longrightarrow> max_step offers r \<lparr>reg_value = offers ! i, reg_phases = (reg_phases r)[i := Finished]\<rparr>"
| exchange_failed: "i < length (reg_phases r) \<Longrightarrow> reg_phases r ! i = Exchanging current \<Longrightarrow> reg_value r \<noteq> current
    \<Longrightarrow> max_step offers r (r\<lparr>reg_phases := (reg_phases r)[i := Loading]\<rparr>)"

inductive_cases max_stepE: "max_step offers r r'"

definition max_start :: "u64 \<Rightarrow> u64 list \<Rightarrow> register" where
  "max_start v offers = \<lparr>reg_value = v, reg_phases = replicate (length offers) Loading\<rparr>"

section \<open>Safety\<close>

text \<open>
  The register holds the old value or one of the offers, never less than the old value nor than
  the offer of a thread that has finished; a thread exchanges only for a value below its offer.
\<close>

definition max_inv :: "u64 \<Rightarrow> u64 list \<Rightarrow> register \<Rightarrow> bool" where
  "max_inv v offers r \<longleftrightarrow> length (reg_phases r) = length offers \<and> v \<le> reg_value r
     \<and> reg_value r \<in> set (v # offers)
     \<and> (\<forall>i < length offers. case reg_phases r ! i of
           Finished \<Rightarrow> offers ! i \<le> reg_value r | Exchanging current \<Rightarrow> current < offers ! i | Loading \<Rightarrow> True)"

lemma max_inv_raise:
  assumes "max_inv v offers r" and "i < length offers" and "reg_value r < offers ! i"
  shows "max_inv v offers \<lparr>reg_value = offers ! i, reg_phases = (reg_phases r)[i := Finished]\<rparr>"
proof -
  have "offers ! j \<le> offers ! i" if "j < length offers" "reg_phases r ! j = Finished" for j
    using that assms by (force simp: max_inv_def)
  then show ?thesis
    using assms unfolding max_inv_def by (force simp: nth_list_update split: phase.splits)
qed

lemma max_inv_step:
  assumes "max_step offers r r'" and "max_inv v offers r"
  shows "max_inv v offers r'"
  using assms(1)
proof cases
  case (load_small i)
  then show ?thesis using assms(2) by (auto simp: max_inv_def nth_list_update split: phase.splits)
next
  case (load_large i)
  then show ?thesis using assms(2) by (auto simp: max_inv_def nth_list_update split: phase.splits)
next
  case (exchange_ok i current)
  moreover have "current < offers ! i"
    using exchange_ok assms(2) by (auto simp: max_inv_def split: phase.splits)
  ultimately show ?thesis
    using exchange_ok assms(2) max_inv_raise [of v offers r i] by (simp add: max_inv_def)
next
  case (exchange_failed i current)
  then show ?thesis using assms(2) by (auto simp: max_inv_def nth_list_update split: phase.splits)
qed

lemma max_inv_start: "max_inv v offers (max_start v offers)"
  by (simp add: max_inv_def max_start_def)

interpretation max_register: invariant_system "\<lambda>r. r = max_start v offers" "max_step offers" "max_inv v offers"
  by unfold_locales (auto intro: max_inv_start max_inv_step)

section \<open>Progress\<close>

definition stale :: "register \<Rightarrow> phase \<Rightarrow> bool" where
  "stale r p = (case p of Exchanging current \<Rightarrow> current \<noteq> reg_value r | _ \<Rightarrow> False)"

text \<open>
  A failed exchange means another thread's exchange succeeded since the load. So the number of
  threads still in the loop, then of those holding a stale value, then of those about to load,
  decreases lexicographically.
\<close>

definition work :: "register \<Rightarrow> nat \<times> nat \<times> nat" where
  "work r = (length (filter (\<lambda>p. p \<noteq> Finished) (reg_phases r)),
             length (filter (stale r) (reg_phases r)),
             length (filter (\<lambda>p. p = Loading) (reg_phases r)))"

lemma stale_same: "reg_value r' = reg_value r \<Longrightarrow> stale r' = stale r"
  by (auto simp: stale_def fun_eq_iff split: phase.split)

lemma max_step_work:
  assumes "max_step offers r r'"
  shows "(work r', work r) \<in> less_than <*lex*> less_than <*lex*> less_than"
  using assms
proof cases
  case (load_small i)
  then show ?thesis
    using length_filter_update [of i "reg_phases r" "\<lambda>p. p \<noteq> Finished" Finished] by (simp add: work_def)
next
  case (load_large i)
  have same: "stale r' = stale r" using load_large by (intro stale_same) simp
  have phases: "reg_phases r' = (reg_phases r)[i := Exchanging (reg_value r)]" using load_large by simp
  show ?thesis
    using load_large(2-) length_filter_update [of i "reg_phases r" "\<lambda>p. p \<noteq> Finished" "Exchanging (reg_value r)"]
      length_filter_update [of i "reg_phases r" "stale r" "Exchanging (reg_value r)"]
      length_filter_update [of i "reg_phases r" "\<lambda>p. p = Loading" "Exchanging (reg_value r)"]
    unfolding work_def same phases by (simp add: stale_def)
next
  case (exchange_ok i current)
  then show ?thesis
    using length_filter_update [of i "reg_phases r" "\<lambda>p. p \<noteq> Finished" Finished] by (simp add: work_def)
next
  case (exchange_failed i current)
  have same: "stale r' = stale r" using exchange_failed by (intro stale_same) simp
  have phases: "reg_phases r' = (reg_phases r)[i := Loading]" using exchange_failed by simp
  show ?thesis
    using exchange_failed(2-) length_filter_update [of i "reg_phases r" "\<lambda>p. p \<noteq> Finished" Loading]
      length_filter_update [of i "reg_phases r" "stale r" Loading]
    unfolding work_def same phases by (simp add: stale_def)
qed

lemma max_stuck_finished:
  assumes "\<nexists>r'. max_step offers r r'" and "i < length (reg_phases r)"
  shows "reg_phases r ! i = Finished"
proof (cases "reg_phases r ! i")
  case Loading
  then show ?thesis using assms max_step.load_small max_step.load_large by blast
next
  case (Exchanging current)
  then show ?thesis using assms max_step.exchange_ok max_step.exchange_failed by blast
qed simp

lemma max_no_infinite_run: "\<nexists>run. \<forall>n :: nat. max_step offers (run n) (run (Suc n))"
proof
  assume "\<exists>run. \<forall>n :: nat. max_step offers (run n) (run (Suc n))"
  then obtain run where "\<And>n :: nat. max_step offers (run n) (run (Suc n))" by blast
  then have down: "(work (run (Suc n)), work (run n)) \<in> less_than <*lex*> less_than <*lex*> less_than" for n
    by (rule max_step_work)
  have "wf (less_than <*lex*> less_than <*lex*> less_than)" by (intro wf_lex_prod wf_less_than)
  then have "\<nexists>f. \<forall>n. (f (Suc n), f n) \<in> less_than <*lex*> less_than <*lex*> less_than"
    by (simp only: wf_iff_no_infinite_down_chain not_False_eq_True)
  moreover have "\<exists>f. \<forall>n. (f (Suc n), f n) \<in> less_than <*lex*> less_than <*lex*> less_than"
    by (rule exI [of _ "\<lambda>n. work (run n)"]) (use down in blast)
  ultimately show False by (rule notE)
qed

lemma max_inv_final:
  assumes "max_inv v offers r" and "\<And>i. i < length (reg_phases r) \<Longrightarrow> reg_phases r ! i = Finished"
  shows "reg_value r = fold max offers v"
proof -
  have "offers ! i \<le> reg_value r" if "i < length offers" for i
    using assms that by (force simp: max_inv_def)
  then have "x \<le> reg_value r" if "x \<in> set (v # offers)" for x
    using that assms(1) by (auto simp: max_inv_def in_set_conv_nth)
  then have "Max (set (v # offers)) = reg_value r"
    using assms(1) by (intro Max_eqI) (auto simp: max_inv_def)
  then show ?thesis by (simp only: Max.set_eq_fold)
qed

text \<open>
  C35. The lock-free maximum. Threads that raise a register by load and compare-and-exchange, in
  any interleaving, never run forever: there is no infinite execution, not even one in which the
  scheduler is unfair. And when no thread can move, all of them have left the loop and the
  register holds the maximum of its old value and all the values offered: no update is lost.
\<close>

theorem lock_free_maximum:
  "(\<nexists>run. run 0 = max_start v offers \<and> (\<forall>n :: nat. max_step offers (run n) (run (Suc n))))
   \<and> (reachable (\<lambda>r. r = max_start v offers) (max_step offers) r \<and> (\<nexists>r'. max_step offers r r')
        \<longrightarrow> reg_value r = fold max offers v \<and> set (reg_phases r) \<subseteq> {Finished})"
proof (intro conjI impI)
  show "\<nexists>run. run 0 = max_start v offers \<and> (\<forall>n :: nat. max_step offers (run n) (run (Suc n)))"
    using max_no_infinite_run by blast
next
  assume r: "reachable (\<lambda>r. r = max_start v offers) (max_step offers) r \<and> (\<nexists>r'. max_step offers r r')"
  then have "max_inv v offers r" by (blast intro: max_register.reachable_inv)
  moreover have fin: "reg_phases r ! i = Finished" if "i < length (reg_phases r)" for i
    using r max_stuck_finished that by blast
  ultimately show "reg_value r = fold max offers v" by (rule max_inv_final)
  show "set (reg_phases r) \<subseteq> {Finished}" using fin by (auto simp: in_set_conv_nth)
qed

text \<open>Two threads race: the second loads the old value, its exchange fails, and it tries again.\<close>

theorem lock_free_maximum_witness:
  "\<exists>r. reachable (\<lambda>r. r = max_start 3 [5, 9]) (max_step [5, 9]) r \<and> reg_value r = 9"
proof -
  let ?reach = "reachable (\<lambda>r. r = max_start 3 [5, 9]) (max_step [5, 9])"
  have s0: "?reach \<lparr>reg_value = 3, reg_phases = [Loading, Loading]\<rparr>"
    by (rule reach_init) (simp add: max_start_def)
  have s1: "?reach \<lparr>reg_value = 3, reg_phases = [Exchanging 3, Loading]\<rparr>"
    by (rule reach_step [OF s0]) (use max_step.load_large [of 0 "\<lparr>reg_value = 3, reg_phases = [Loading, Loading]\<rparr>" "[5, 9]"] in simp)
  have s2: "?reach \<lparr>reg_value = 3, reg_phases = [Exchanging 3, Exchanging 3]\<rparr>"
    by (rule reach_step [OF s1]) (use max_step.load_large [of 1 "\<lparr>reg_value = 3, reg_phases = [Exchanging 3, Loading]\<rparr>" "[5, 9]"] in simp)
  have s3: "?reach \<lparr>reg_value = 5, reg_phases = [Finished, Exchanging 3]\<rparr>"
    by (rule reach_step [OF s2]) (use max_step.exchange_ok [of 0 "\<lparr>reg_value = 3, reg_phases = [Exchanging 3, Exchanging 3]\<rparr>" "3" "[5, 9]"] in simp)
  have s4: "?reach \<lparr>reg_value = 5, reg_phases = [Finished, Loading]\<rparr>"
    by (rule reach_step [OF s3]) (use max_step.exchange_failed [of 1 "\<lparr>reg_value = 5, reg_phases = [Finished, Exchanging 3]\<rparr>" "3" "[5, 9]"] in simp)
  have s5: "?reach \<lparr>reg_value = 5, reg_phases = [Finished, Exchanging 5]\<rparr>"
    by (rule reach_step [OF s4]) (use max_step.load_large [of 1 "\<lparr>reg_value = 5, reg_phases = [Finished, Loading]\<rparr>" "[5, 9]"] in simp)
  have s6: "?reach \<lparr>reg_value = 9, reg_phases = [Finished, Finished]\<rparr>"
    by (rule reach_step [OF s5]) (use max_step.exchange_ok [of 1 "\<lparr>reg_value = 5, reg_phases = [Finished, Exchanging 5]\<rparr>" "5" "[5, 9]"] in simp)
  moreover have "\<nexists>r'. max_step [5, 9] \<lparr>reg_value = 9, reg_phases = [Finished, Finished]\<rparr> r'"
    by (auto elim!: max_stepE simp: less_Suc_eq)
  ultimately have "reg_value \<lparr>reg_value = 9, reg_phases = [Finished, Finished]\<rparr> = fold max [5, 9] (3 :: u64)"
    using lock_free_maximum [of 3 "[5, 9]"] s6 by blast
  then show ?thesis using s6 by auto
qed

end
