(* ===== verification/Json.thy ===== *)
theory Json
  imports Prelude "HOL-Library.Char_ord" "HOL-Library.List_Lexorder"
begin

text \<open>
  JSON as the program sees it through serde: documents, \<^verbatim>\<open>serde_json::Value\<close>, the text
  codec as a parameter with the law the program relies on, and the rules by which a derived
  \<^verbatim>\<open>Deserialize\<close> reads a struct from a document. Strings are lists of UTF-8 bytes, so
  \<open>length\<close> is \<^verbatim>\<open>str::len\<close>. The \<^verbatim>\<open>json_struct\<close> interface is what every message
  type promises.
\<close>

section \<open>Documents and values\<close>

datatype number = PosInt u64 | NegInt u64 | Float u64

datatype json =
    JNull
  | JBool bool
  | JNumber number
  | JStr string
  | JArr "json list"
  | JObj "(string \<times> json) list"

text \<open>
  A \<^verbatim>\<open>Value\<close> holds its objects in a \<^verbatim>\<open>BTreeMap\<close>: sorted by key, the last of two
  members with one key wins. \<open>value_of\<close> is what reading or building a value makes of a document.
\<close>

fun put :: "string \<Rightarrow> 'v \<Rightarrow> (string \<times> 'v) list \<Rightarrow> (string \<times> 'v) list" where
  "put k v [] = [(k, v)]"
| "put k v ((k', v') # m) =
     (if k < k' then (k, v) # (k', v') # m
      else if k = k' then (k, v) # m
      else (k', v') # put k v m)"

definition btree_map :: "(string \<times> 'v) list \<Rightarrow> (string \<times> 'v) list" where
  "btree_map kvs = fold (\<lambda>(k, v). put k v) kvs []"

fun value_of :: "json \<Rightarrow> json" where
  "value_of (JArr xs) = JArr (map value_of xs)"
| "value_of (JObj kvs) = JObj (btree_map (map (\<lambda>(k, v). (k, value_of v)) kvs))"
| "value_of j = j"

abbreviation is_value :: "json \<Rightarrow> bool" where
  "is_value j \<equiv> value_of j = j"

definition get_member :: "string \<Rightarrow> json \<Rightarrow> json option" where
  "get_member key j = (case j of JObj kvs \<Rightarrow> map_of kvs key | _ \<Rightarrow> None)"

definition as_str :: "json \<Rightarrow> string option" where
  "as_str j = (case j of JStr s \<Rightarrow> Some s | _ \<Rightarrow> None)"

section \<open>The text codec\<close>

text \<open>
  \<^verbatim>\<open>serde_json\<close> itself is a parameter: \<open>to_vec\<close>, the document the deserializer finds in a
  byte string, and the message of a failed read of a given type.
\<close>

record json_codec =
  jc_to_vec :: "json \<Rightarrow> bytes"
  jc_parse :: "bytes \<Rightarrow> json option"
  jc_message :: "string \<Rightarrow> bytes \<Rightarrow> string"

text \<open>
  Its documented round trip: strings must be UTF-8 (every Rust string is), floating point is only
  exact with a feature the program does not enable, and reading stops at nesting depth 128.
\<close>

fun utf8_codes :: "nat list \<Rightarrow> bool" where
  "utf8_codes [] = True"
| "utf8_codes (a # as) =
     (if a < 0x80 then utf8_codes as
      else case as of
        [] \<Rightarrow> False
      | b # bs \<Rightarrow>
          if 0xC2 \<le> a \<and> a \<le> 0xDF then 0x80 \<le> b \<and> b \<le> 0xBF \<and> utf8_codes bs
          else case bs of
            [] \<Rightarrow> False
          | c # cs \<Rightarrow>
              if 0xE0 \<le> a \<and> a \<le> 0xEF then
                (if a = 0xE0 then 0xA0 else 0x80) \<le> b \<and> b \<le> (if a = 0xED then 0x9F else 0xBF)
                  \<and> 0x80 \<le> c \<and> c \<le> 0xBF \<and> utf8_codes cs
              else case cs of
                [] \<Rightarrow> False
              | d # ds \<Rightarrow>
                  0xF0 \<le> a \<and> a \<le> 0xF4
                    \<and> (if a = 0xF0 then 0x90 else 0x80) \<le> b \<and> b \<le> (if a = 0xF4 then 0x8F else 0xBF)
                    \<and> 0x80 \<le> c \<and> c \<le> 0xBF \<and> 0x80 \<le> d \<and> d \<le> 0xBF \<and> utf8_codes ds)"

definition utf8 :: "string \<Rightarrow> bool" where
  "utf8 s = utf8_codes (map of_char s)"

fun exact :: "json \<Rightarrow> bool" where
  "exact JNull = True"
| "exact (JBool _) = True"
| "exact (JNumber n) = (case n of PosInt _ \<Rightarrow> True | NegInt w \<Rightarrow> 0x8000000000000000 \<le> w | Float _ \<Rightarrow> False)"
| "exact (JStr s) = utf8 s"
| "exact (JArr xs) = list_all exact xs"
| "exact (JObj kvs) = list_all (\<lambda>(k, v). utf8 k \<and> exact v) kvs"

fun depth :: "json \<Rightarrow> nat" where
  "depth (JArr xs) = Suc (fold max (map depth xs) 0)"
| "depth (JObj kvs) = Suc (fold max (map (\<lambda>(k, v). depth v) kvs) 0)"
| "depth j = 0"

definition readable :: "json \<Rightarrow> bool" where
  "readable j = (exact j \<and> depth j < 128)"

definition codec_law :: "json_codec \<Rightarrow> bool" where
  "codec_law c \<longleftrightarrow> (\<forall>j. readable j \<longrightarrow> jc_parse c (jc_to_vec c j) = Some j)"

lemma codec_lawD: "codec_law c \<Longrightarrow> readable j \<Longrightarrow> jc_parse c (jc_to_vec c j) = Some j"
  by (simp add: codec_law_def)

text \<open>
  \<^verbatim>\<open>from_slice\<close> at a given type: the message of the error or the value. \<open>from_slice\<close> adds
  the conversion that \<^verbatim>\<open>?\<close> makes of the error.
\<close>

definition decode :: "json_codec \<Rightarrow> (json \<Rightarrow> 'a option) \<Rightarrow> string \<Rightarrow> bytes \<Rightarrow> string + 'a" where
  "decode c of_json type bs =
     (case Option.bind (jc_parse c bs) of_json of None \<Rightarrow> Inl (jc_message c type bs) | Some x \<Rightarrow> Inr x)"

definition from_slice :: "json_codec \<Rightarrow> (json \<Rightarrow> 'a option) \<Rightarrow> string \<Rightarrow> bytes \<Rightarrow> 'a result" where
  "from_slice c of_json type bs =
     (case decode c of_json type bs of Inl m \<Rightarrow> Err (from_serde_error m) | Inr x \<Rightarrow> Ok x)"

section \<open>Reading a struct\<close>

text \<open>
  A derived reader takes an object, in which a field named twice is an error and an unknown
  member is skipped, or an array with exactly one element for each field.
\<close>

definition struct_fields :: "string list \<Rightarrow> json \<Rightarrow> json option list option" where
  "struct_fields names j =
     (case j of
        JObj kvs \<Rightarrow>
          if list_all (\<lambda>n. length (filter (\<lambda>kv. fst kv = n) kvs) \<le> 1) names
          then Some (map (map_of kvs) names) else None
      | JArr xs \<Rightarrow> if length xs = length names then Some (map Some xs) else None
      | _ \<Rightarrow> None)"

definition req_str :: "json option \<Rightarrow> string option" where
  "req_str f = (case f of Some (JStr s) \<Rightarrow> Some s | _ \<Rightarrow> None)"

definition req_bool :: "json option \<Rightarrow> bool option" where
  "req_bool f = (case f of Some (JBool b) \<Rightarrow> Some b | _ \<Rightarrow> None)"

definition req_u64 :: "json option \<Rightarrow> u64 option" where
  "req_u64 f = (case f of Some (JNumber (PosInt n)) \<Rightarrow> Some n | _ \<Rightarrow> None)"

definition req_value :: "json option \<Rightarrow> json option" where
  "req_value f = map_option value_of f"

definition opt_str :: "json option \<Rightarrow> string option option" where
  "opt_str f = (case f of None \<Rightarrow> Some None | Some JNull \<Rightarrow> Some None | Some (JStr s) \<Rightarrow> Some (Some s)
     | _ \<Rightarrow> None)"

definition opt_value :: "json option \<Rightarrow> json option option" where
  "opt_value f = (case f of None \<Rightarrow> Some None | Some JNull \<Rightarrow> Some None | Some j \<Rightarrow> Some (Some (value_of j)))"

text \<open>\<^verbatim>\<open>Vec\<close> of a type: an array all of whose elements are read.\<close>

fun all_some :: "'a option list \<Rightarrow> 'a list option" where
  "all_some [] = Some []"
| "all_some (None # xs) = None"
| "all_some (Some x # xs) = map_option ((#) x) (all_some xs)"

definition req_vec :: "(json \<Rightarrow> 'a option) \<Rightarrow> json option \<Rightarrow> 'a list option" where
  "req_vec f j = (case j of Some (JArr xs) \<Rightarrow> all_some (map f xs) | _ \<Rightarrow> None)"

definition some_or_null :: "('a \<Rightarrow> json) \<Rightarrow> 'a option \<Rightarrow> json" where
  "some_or_null f x = (case x of None \<Rightarrow> JNull | Some y \<Rightarrow> f y)"

lemmas field_defs = req_str_def req_bool_def req_u64_def req_value_def opt_str_def opt_value_def
  req_vec_def some_or_null_def

lemma all_some_map [simp]: "(\<And>x. x \<in> set xs \<Longrightarrow> f (g x) = Some x) \<Longrightarrow> all_some (map f (map g xs)) = Some xs"
  by (induction xs) auto

lemma opt_str_some_or_null [simp]: "opt_str (Some (some_or_null JStr x)) = Some x"
  by (cases x) (simp_all add: field_defs)

lemma opt_value_some_or_null:
  "x \<noteq> Some JNull \<Longrightarrow> (\<And>j. x = Some j \<Longrightarrow> is_value j) \<Longrightarrow> opt_value (Some (some_or_null (\<lambda>j. j) x)) = Some x"
  by (cases x; cases "the x") (simp_all add: field_defs)

lemma req_vec_strings [simp]: "req_vec as_str (Some (JArr (map JStr xs))) = Some xs"
  by (simp add: req_vec_def as_str_def o_def) (induction xs; simp)

lemma single_member: "distinct (map fst kvs) \<Longrightarrow> length (filter (\<lambda>kv. fst kv = k) kvs) \<le> 1"
  by (induction kvs) (auto simp: filter_empty_conv image_iff)

section \<open>The interface of a message type\<close>

locale json_struct =
  fixes to_json :: "'a \<Rightarrow> json"
    and of_json :: "json \<Rightarrow> 'a option"
    and sound :: "'a \<Rightarrow> bool"
  assumes of_to_json: "sound x \<Longrightarrow> of_json (to_json x) = Some x"
begin

lemma to_json_inj: "sound x \<Longrightarrow> sound y \<Longrightarrow> to_json x = to_json y \<Longrightarrow> x = y"
  by (metis of_to_json option.inject)

lemma decode_to_vec:
  "codec_law c \<Longrightarrow> sound x \<Longrightarrow> readable (to_json x)
    \<Longrightarrow> decode c of_json type (jc_to_vec c (to_json x)) = Inr x"
  by (simp add: decode_def codec_lawD of_to_json)

lemma from_slice_to_vec:
  "codec_law c \<Longrightarrow> sound x \<Longrightarrow> readable (to_json x)
    \<Longrightarrow> from_slice c of_json type (jc_to_vec c (to_json x)) = Ok x"
  by (simp add: from_slice_def decode_to_vec)

end

section \<open>Values are normal forms\<close>

lemma fst_put: "fst ` set (put k v m) = insert k (fst ` set m)"
  by (induction k v m rule: put.induct) (simp_all add: insert_commute)

lemma sorted_put: "sorted_wrt (<) (map fst m) \<Longrightarrow> sorted_wrt (<) (map fst (put k v m))"
proof (induction m)
  case (Cons kv m)
  obtain k' v' where kv: "kv = (k', v')" by (cases kv)
  have "k' < x" if "\<not> k < k'" "k \<noteq> k'" "x \<in> fst ` set (put k v m)" for x
  proof -
    from that(1,2) have "k' < k" by simp
    moreover have "x = k \<or> x \<in> fst ` set m" using that(3) by (simp add: fst_put)
    ultimately show ?thesis using Cons.prems kv by auto
  qed
  moreover have "k < x" if "k < k'" "x \<in> fst ` set m" for x
    using that Cons.prems kv by (auto intro: less_trans)
  ultimately show ?case using Cons kv by simp
qed simp

lemma snd_put: "snd ` set (put k v m) \<subseteq> insert v (snd ` set m)"
  by (induction k v m rule: put.induct) (simp_all add: subset_insertI2 insert_mono le_supI1, blast+)

lemma put_end: "(\<And>x. x \<in> fst ` set m \<Longrightarrow> x < k) \<Longrightarrow> put k v m = m @ [(k, v)]"
proof (induction m)
  case (Cons kv m)
  then have "fst kv < k" "put k v m = m @ [(k, v)]" by simp_all
  then show ?case by (cases kv) auto
qed simp

lemma fold_put_sorted:
  "sorted_wrt (<) (map fst (acc @ m)) \<Longrightarrow> fold (\<lambda>(k, v). put k v) m acc = acc @ m"
proof (induction m arbitrary: acc)
  case (Cons kv m)
  obtain k v where kv: "kv = (k, v)" by (cases kv)
  have "put k v acc = acc @ [(k, v)]"
    using Cons.prems kv by (intro put_end) (auto simp: sorted_wrt_append)
  with Cons kv show ?case by simp
qed simp

lemma btree_map_sorted: "sorted_wrt (<) (map fst m) \<Longrightarrow> btree_map m = m"
  using fold_put_sorted [of "[]" m] by (simp add: btree_map_def)

lemma sorted_btree_map: "sorted_wrt (<) (map fst (btree_map m))"
proof -
  have "sorted_wrt (<) (map fst acc) \<Longrightarrow> sorted_wrt (<) (map fst (fold (\<lambda>(k, v). put k v) m acc))" for acc
    by (induction m arbitrary: acc) (auto intro: sorted_put)
  then show ?thesis by (simp add: btree_map_def)
qed

lemma snd_btree_map: "snd ` set (btree_map m) \<subseteq> snd ` set m"
proof -
  have "snd ` set (fold (\<lambda>(k, v). put k v) m acc) \<subseteq> snd ` set m \<union> snd ` set acc" for acc
  proof (induction m arbitrary: acc)
    case (Cons kv m)
    then show ?case using snd_put [of "fst kv" "snd kv" acc] by (force split: prod.splits)
  qed simp
  then show ?thesis by (force simp: btree_map_def)
qed

lemma value_of_idem [simp]: "value_of (value_of j) = value_of j"
proof (induction j rule: value_of.induct)
  case (2 kvs)
  let ?m = "btree_map (map (\<lambda>(k, v). (k, value_of v)) kvs)"
  have "value_of v = v" if "(k, v) \<in> set ?m" for k v
  proof -
    have "v \<in> snd ` set (map (\<lambda>(k, v). (k, value_of v)) kvs)"
      using that snd_btree_map by (metis image_eqI snd_conv subsetD)
    then show ?thesis using 2 by auto
  qed
  then have "map (\<lambda>(k, v). (k, value_of v)) ?m = ?m" by (auto intro: map_idI)
  then show ?case by (simp add: btree_map_sorted sorted_btree_map)
qed auto

end
