(* ===== verification/Protocol.thy ===== *)
theory Protocol
  imports Json
begin

text \<open>
  The message types of \<^verbatim>\<open>src/src/protocol.rs\<close>, \<^verbatim>\<open>src/src/streaming.rs\<close> and
  \<^verbatim>\<open>src/src/schema.rs\<close> with their constructors and their derived JSON form, each an
  instance of the \<^verbatim>\<open>json_struct\<close> interface; the service handler trait of
  \<^verbatim>\<open>src/src/handler.rs\<close> and the two streaming handlers. A fresh UUID is an argument.
\<close>

section \<open>Requests and responses\<close>

record handshake_request =
  hq_client_id :: string
  hq_service_name :: string
  hq_capabilities :: "string list"

record handshake_response =
  hr_server_id :: string
  hr_session_id :: string
  hr_success :: bool
  hr_encoding :: string

record service_request =
  rq_request_id :: string
  rq_correlation_id :: string
  rq_service_name :: string
  rq_method :: string
  rq_payload :: json
  rq_topic :: "string option"

definition request_new :: "string \<Rightarrow> string \<Rightarrow> string \<Rightarrow> string \<Rightarrow> json \<Rightarrow> service_request" where
  "request_new uuid1 uuid2 service meth payload =
     \<lparr>rq_request_id = uuid1, rq_correlation_id = uuid2, rq_service_name = service,
      rq_method = meth, rq_payload = payload, rq_topic = None\<rparr>"

definition with_topic :: "string \<Rightarrow> service_request \<Rightarrow> service_request" where
  "with_topic topic r = r\<lparr>rq_topic := Some topic\<rparr>"

record service_response =
  rs_request_id :: string
  rs_correlation_id :: string
  rs_status :: string
  rs_payload :: json
  rs_error :: "string option"

definition response_success :: "service_request \<Rightarrow> json \<Rightarrow> service_response" where
  "response_success request payload =
     \<lparr>rs_request_id = rq_request_id request, rs_correlation_id = rq_correlation_id request,
      rs_status = ''success'', rs_payload = payload, rs_error = None\<rparr>"

definition response_error :: "service_request \<Rightarrow> string \<Rightarrow> service_response" where
  "response_error request err =
     \<lparr>rs_request_id = rq_request_id request, rs_correlation_id = rq_correlation_id request,
      rs_status = ''error'', rs_payload = JNull, rs_error = Some err\<rparr>"

section \<open>Streaming messages\<close>

datatype stream_mode = Messages | Values | Updates | Result

definition mode_as_str :: "stream_mode \<Rightarrow> string" where
  "mode_as_str m = (case m of Messages \<Rightarrow> ''messages'' | Values \<Rightarrow> ''values''
     | Updates \<Rightarrow> ''updates'' | Result \<Rightarrow> ''result'')"

definition mode_from_str :: "string \<Rightarrow> stream_mode option" where
  "mode_from_str s =
     (if s = ''messages'' then Some Messages else if s = ''values'' then Some Values
      else if s = ''updates'' then Some Updates else if s = ''result'' then Some Result else None)"

record stream_message =
  sm_request_id :: string
  sm_chunk_index :: u64
  sm_content :: json
  sm_metadata :: "json option"

definition stream_message_new :: "string \<Rightarrow> u64 \<Rightarrow> json \<Rightarrow> stream_message" where
  "stream_message_new request_id chunk_index content =
     \<lparr>sm_request_id = request_id, sm_chunk_index = chunk_index, sm_content = content,
      sm_metadata = None\<rparr>"

definition with_stream_metadata :: "json \<Rightarrow> stream_message \<Rightarrow> stream_message" where
  "with_stream_metadata metadata m = m\<lparr>sm_metadata := Some metadata\<rparr>"

record stream_response =
  sr_request_id :: string
  sr_mode :: string
  sr_status :: string
  sr_final_payload :: "json option"

definition stream_started :: "string \<Rightarrow> string \<Rightarrow> stream_response" where
  "stream_started request_id mode =
     \<lparr>sr_request_id = request_id, sr_mode = mode, sr_status = ''streaming'', sr_final_payload = None\<rparr>"

definition stream_completed :: "string \<Rightarrow> json \<Rightarrow> stream_response" where
  "stream_completed request_id payload =
     \<lparr>sr_request_id = request_id, sr_mode = ''result'', sr_status = ''completed'',
      sr_final_payload = Some payload\<rparr>"

definition stream_failed :: "string \<Rightarrow> string \<Rightarrow> stream_response" where
  "stream_failed request_id err =
     \<lparr>sr_request_id = request_id, sr_mode = ''result'', sr_status = ''error: '' @ err,
      sr_final_payload = None\<rparr>"

section \<open>Schemas\<close>

record service_capability =
  cp_name :: string
  cp_description :: string
  cp_version :: "string option"

record service_schema =
  sc_service_name :: string
  sc_version :: string
  sc_input_schema :: json
  sc_output_schema :: json
  sc_state_schema :: "json option"
  sc_capabilities :: "service_capability list"
  sc_streaming_modes :: "string list"
  sc_metadata :: json

text \<open>\<^verbatim>\<open>json!\<close> builds a value.\<close>

definition schema_new :: "string \<Rightarrow> string \<Rightarrow> service_schema" where
  "schema_new service_name version =
     \<lparr>sc_service_name = service_name, sc_version = version,
      sc_input_schema = value_of (JObj
        [(''type'', JStr ''object''),
         (''properties'', JObj
            [(''method'', JObj [(''type'', JStr ''string'')]),
             (''payload'', JObj [(''type'', JStr ''object'')])])]),
      sc_output_schema = value_of (JObj
        [(''type'', JStr ''object''),
         (''properties'', JObj [(''status'', JObj [(''type'', JStr ''string'')]), (''payload'', JObj [])])]),
      sc_state_schema = None, sc_capabilities = [], sc_streaming_modes = [''result''],
      sc_metadata = JObj []\<rparr>"

definition with_input_schema :: "json \<Rightarrow> service_schema \<Rightarrow> service_schema" where
  "with_input_schema schema s = s\<lparr>sc_input_schema := schema\<rparr>"

definition with_output_schema :: "json \<Rightarrow> service_schema \<Rightarrow> service_schema" where
  "with_output_schema schema s = s\<lparr>sc_output_schema := schema\<rparr>"

definition with_state_schema :: "json \<Rightarrow> service_schema \<Rightarrow> service_schema" where
  "with_state_schema schema s = s\<lparr>sc_state_schema := Some schema\<rparr>"

definition with_capabilities :: "service_capability list \<Rightarrow> service_schema \<Rightarrow> service_schema" where
  "with_capabilities caps s = s\<lparr>sc_capabilities := caps\<rparr>"

definition with_streaming_modes :: "stream_mode list \<Rightarrow> service_schema \<Rightarrow> service_schema" where
  "with_streaming_modes modes s = s\<lparr>sc_streaming_modes := map mode_as_str modes\<rparr>"

definition with_schema_metadata :: "json \<Rightarrow> service_schema \<Rightarrow> service_schema" where
  "with_schema_metadata metadata s = s\<lparr>sc_metadata := metadata\<rparr>"

section \<open>Derived JSON forms\<close>

definition hq_to_json :: "handshake_request \<Rightarrow> json" where
  "hq_to_json x = JObj [(''client_id'', JStr (hq_client_id x)), (''service_name'', JStr (hq_service_name x)),
     (''capabilities'', JArr (map JStr (hq_capabilities x)))]"

definition hq_of_json :: "json \<Rightarrow> handshake_request option" where
  "hq_of_json j =
     (case struct_fields [''client_id'', ''service_name'', ''capabilities''] j of
        Some [f1, f2, f3] \<Rightarrow>
          (case (req_str f1, req_str f2, req_vec as_str f3) of
             (Some x1, Some x2, Some x3) \<Rightarrow>
               Some \<lparr>hq_client_id = x1, hq_service_name = x2, hq_capabilities = x3\<rparr>
           | _ \<Rightarrow> None)
      | _ \<Rightarrow> None)"

definition hr_to_json :: "handshake_response \<Rightarrow> json" where
  "hr_to_json x = JObj [(''server_id'', JStr (hr_server_id x)), (''session_id'', JStr (hr_session_id x)),
     (''success'', JBool (hr_success x)), (''encoding'', JStr (hr_encoding x))]"

definition hr_of_json :: "json \<Rightarrow> handshake_response option" where
  "hr_of_json j =
     (case struct_fields [''server_id'', ''session_id'', ''success'', ''encoding''] j of
        Some [f1, f2, f3, f4] \<Rightarrow>
          (case (req_str f1, req_str f2, req_bool f3, req_str f4) of
             (Some x1, Some x2, Some x3, Some x4) \<Rightarrow>
               Some \<lparr>hr_server_id = x1, hr_session_id = x2, hr_success = x3, hr_encoding = x4\<rparr>
           | _ \<Rightarrow> None)
      | _ \<Rightarrow> None)"

definition rq_to_json :: "service_request \<Rightarrow> json" where
  "rq_to_json x = JObj [(''request_id'', JStr (rq_request_id x)),
     (''correlation_id'', JStr (rq_correlation_id x)), (''service_name'', JStr (rq_service_name x)),
     (''method'', JStr (rq_method x)), (''payload'', rq_payload x),
     (''topic'', some_or_null JStr (rq_topic x))]"

definition rq_of_json :: "json \<Rightarrow> service_request option" where
  "rq_of_json j =
     (case struct_fields [''request_id'', ''correlation_id'', ''service_name'', ''method'', ''payload'',
         ''topic''] j of
        Some [f1, f2, f3, f4, f5, f6] \<Rightarrow>
          (case (req_str f1, req_str f2, req_str f3, req_str f4, req_value f5, opt_str f6) of
             (Some x1, Some x2, Some x3, Some x4, Some x5, Some x6) \<Rightarrow>
               Some \<lparr>rq_request_id = x1, rq_correlation_id = x2, rq_service_name = x3,
                     rq_method = x4, rq_payload = x5, rq_topic = x6\<rparr>
           | _ \<Rightarrow> None)
      | _ \<Rightarrow> None)"

definition rs_to_json :: "service_response \<Rightarrow> json" where
  "rs_to_json x = JObj [(''request_id'', JStr (rs_request_id x)),
     (''correlation_id'', JStr (rs_correlation_id x)), (''status'', JStr (rs_status x)),
     (''payload'', rs_payload x), (''error'', some_or_null JStr (rs_error x))]"

definition rs_of_json :: "json \<Rightarrow> service_response option" where
  "rs_of_json j =
     (case struct_fields [''request_id'', ''correlation_id'', ''status'', ''payload'', ''error''] j of
        Some [f1, f2, f3, f4, f5] \<Rightarrow>
          (case (req_str f1, req_str f2, req_str f3, req_value f4, opt_str f5) of
             (Some x1, Some x2, Some x3, Some x4, Some x5) \<Rightarrow>
               Some \<lparr>rs_request_id = x1, rs_correlation_id = x2, rs_status = x3, rs_payload = x4,
                     rs_error = x5\<rparr>
           | _ \<Rightarrow> None)
      | _ \<Rightarrow> None)"

definition sm_to_json :: "stream_message \<Rightarrow> json" where
  "sm_to_json x = JObj [(''request_id'', JStr (sm_request_id x)),
     (''chunk_index'', JNumber (PosInt (sm_chunk_index x))), (''content'', sm_content x),
     (''metadata'', some_or_null (\<lambda>j. j) (sm_metadata x))]"

definition sm_of_json :: "json \<Rightarrow> stream_message option" where
  "sm_of_json j =
     (case struct_fields [''request_id'', ''chunk_index'', ''content'', ''metadata''] j of
        Some [f1, f2, f3, f4] \<Rightarrow>
          (case (req_str f1, req_u64 f2, req_value f3, opt_value f4) of
             (Some x1, Some x2, Some x3, Some x4) \<Rightarrow>
               Some \<lparr>sm_request_id = x1, sm_chunk_index = x2, sm_content = x3, sm_metadata = x4\<rparr>
           | _ \<Rightarrow> None)
      | _ \<Rightarrow> None)"

definition sr_to_json :: "stream_response \<Rightarrow> json" where
  "sr_to_json x = JObj [(''request_id'', JStr (sr_request_id x)), (''mode'', JStr (sr_mode x)),
     (''status'', JStr (sr_status x)), (''final_payload'', some_or_null (\<lambda>j. j) (sr_final_payload x))]"

definition sr_of_json :: "json \<Rightarrow> stream_response option" where
  "sr_of_json j =
     (case struct_fields [''request_id'', ''mode'', ''status'', ''final_payload''] j of
        Some [f1, f2, f3, f4] \<Rightarrow>
          (case (req_str f1, req_str f2, req_str f3, opt_value f4) of
             (Some x1, Some x2, Some x3, Some x4) \<Rightarrow>
               Some \<lparr>sr_request_id = x1, sr_mode = x2, sr_status = x3, sr_final_payload = x4\<rparr>
           | _ \<Rightarrow> None)
      | _ \<Rightarrow> None)"

definition cp_to_json :: "service_capability \<Rightarrow> json" where
  "cp_to_json x = JObj [(''name'', JStr (cp_name x)), (''description'', JStr (cp_description x)),
     (''version'', some_or_null JStr (cp_version x))]"

definition cp_of_json :: "json \<Rightarrow> service_capability option" where
  "cp_of_json j =
     (case struct_fields [''name'', ''description'', ''version''] j of
        Some [f1, f2, f3] \<Rightarrow>
          (case (req_str f1, req_str f2, opt_str f3) of
             (Some x1, Some x2, Some x3) \<Rightarrow>
               Some \<lparr>cp_name = x1, cp_description = x2, cp_version = x3\<rparr>
           | _ \<Rightarrow> None)
      | _ \<Rightarrow> None)"

definition sc_to_json :: "service_schema \<Rightarrow> json" where
  "sc_to_json x = JObj [(''service_name'', JStr (sc_service_name x)), (''version'', JStr (sc_version x)),
     (''input_schema'', sc_input_schema x), (''output_schema'', sc_output_schema x),
     (''state_schema'', some_or_null (\<lambda>j. j) (sc_state_schema x)),
     (''capabilities'', JArr (map cp_to_json (sc_capabilities x))),
     (''streaming_modes'', JArr (map JStr (sc_streaming_modes x))), (''metadata'', sc_metadata x)]"

definition sc_of_json :: "json \<Rightarrow> service_schema option" where
  "sc_of_json j =
     (case struct_fields [''service_name'', ''version'', ''input_schema'', ''output_schema'',
         ''state_schema'', ''capabilities'', ''streaming_modes'', ''metadata''] j of
        Some [f1, f2, f3, f4, f5, f6, f7, f8] \<Rightarrow>
          (case (req_str f1, req_str f2, req_value f3, req_value f4, opt_value f5, req_vec cp_of_json f6,
              req_vec as_str f7, req_value f8) of
             (Some x1, Some x2, Some x3, Some x4, Some x5, Some x6, Some x7, Some x8) \<Rightarrow>
               Some \<lparr>sc_service_name = x1, sc_version = x2, sc_input_schema = x3, sc_output_schema = x4,
                     sc_state_schema = x5, sc_capabilities = x6, sc_streaming_modes = x7, sc_metadata = x8\<rparr>
           | _ \<Rightarrow> None)
      | _ \<Rightarrow> None)"

section \<open>Handlers\<close>

text \<open>
  The trait \<^verbatim>\<open>ServiceHandler\<close>: an implementation is its operations over a state of its own.
\<close>

record 's service_handler =
  sh_service_name :: string
  sh_on_handshake :: "handshake_request \<Rightarrow> 's \<Rightarrow> handshake_response \<times> 's"
  sh_handle :: "service_request \<Rightarrow> 's \<Rightarrow> service_response \<times> 's"

definition default_capabilities :: "string list" where
  "default_capabilities = [''json'']"

definition default_on_handshake :: "string \<Rightarrow> string \<Rightarrow> handshake_request \<Rightarrow> handshake_response" where
  "default_on_handshake service_name uuid request =
     \<lparr>hr_server_id = service_name, hr_session_id = uuid, hr_success = True, hr_encoding = ''json''\<rparr>"

datatype health_status = Healthy string | Unhealthy string string

definition health_healthy :: "string \<Rightarrow> health_status" where
  "health_healthy service = Healthy service"

definition health_unhealthy :: "string \<Rightarrow> string \<Rightarrow> health_status" where
  "health_unhealthy service reason = Unhealthy service reason"

definition default_health_status :: "string \<Rightarrow> health_status" where
  "default_health_status service_name = health_healthy service_name"

text \<open>
  \<^verbatim>\<open>FnServiceHandler\<close>: a function as a handler; its state counts the UUIDs drawn so far.
\<close>

definition fn_handler :: "(nat \<Rightarrow> string) \<Rightarrow> string \<Rightarrow> (service_request \<Rightarrow> service_response) \<Rightarrow> nat service_handler" where
  "fn_handler uuid name f =
     \<lparr>sh_service_name = name,
      sh_on_handshake = (\<lambda>r n. (default_on_handshake name (uuid n) r, n + 1)),
      sh_handle = (\<lambda>r n. (f r, n))\<rparr>"

text \<open>
  \<^verbatim>\<open>FnAsyncServiceHandler\<close>: the function may itself have a state, and its future is awaited.
\<close>

definition fn_async_handler :: "(nat \<Rightarrow> string) \<Rightarrow> string
    \<Rightarrow> (service_request \<Rightarrow> 's \<Rightarrow> service_response \<times> 's) \<Rightarrow> (nat \<times> 's) service_handler" where
  "fn_async_handler uuid name f =
     \<lparr>sh_service_name = name,
      sh_on_handshake = (\<lambda>r (n, s). (default_on_handshake name (uuid n) r, (n + 1, s))),
      sh_handle = (\<lambda>r (n, s). case f r s of (response, s) \<Rightarrow> (response, (n, s)))\<rparr>"

text \<open>A handler's schema by default: that of a service without a name, but for a shared handler.\<close>

definition default_schema :: service_schema where
  "default_schema = schema_new ''unknown'' ''1.0''"

definition shared_schema :: "'s service_handler \<Rightarrow> service_schema" where
  "shared_schema h = schema_new (sh_service_name h) ''1.0''"

definition supported_stream_modes :: "stream_mode list" where
  "supported_stream_modes = [Result]"

text \<open>The provided body of \<^verbatim>\<open>StreamingHandler::handle_streaming\<close>, from the response of \<open>handle\<close>.\<close>

definition handle_streaming :: "service_response \<Rightarrow> stream_mode \<Rightarrow> stream_message list" where
  "handle_streaming response mode =
     (let msg = stream_message_new (rs_request_id response) in
      case mode of
        Messages \<Rightarrow> [msg 0 (rs_payload response)]
      | Values \<Rightarrow> [msg 0 (value_of (JObj [(''status'', JStr ''processing'')])), msg 1 (rs_payload response)]
      | Updates \<Rightarrow> [msg 0 (value_of (JObj [(''type'', JStr ''update''), (''data'', rs_payload response)]))]
      | Result \<Rightarrow>
          [msg 0 (value_of (JObj [(''status'', JStr ''started'')])),
           msg 1 (value_of (JObj [(''status'', JStr ''processing'')])),
           msg 2 (value_of (JObj [(''status'', JStr ''completed''), (''payload'', rs_payload response)]))])"

text \<open>\<^verbatim>\<open>DefaultStreamingHandler\<close> overrides it.\<close>

definition default_streaming_handler :: "service_response \<Rightarrow> stream_mode \<Rightarrow> stream_message list" where
  "default_streaming_handler response mode =
     (let msg = stream_message_new (rs_request_id response) in
      case mode of
        Messages \<Rightarrow> [msg 0 (rs_payload response)]
      | Values \<Rightarrow> [msg 0 (rs_payload response)]
      | Updates \<Rightarrow> [msg 0 (rs_payload response)]
      | Result \<Rightarrow> [msg 0 (value_of (JObj [(''status'', JStr ''completed''), (''payload'', rs_payload response)]))])"

section \<open>Names of modes, indices of chunks\<close>

lemma mode_from_str_iff: "mode_from_str s = Some m \<longleftrightarrow> s = mode_as_str m"
  by (cases m) (auto simp: mode_from_str_def mode_as_str_def)

lemma chunk_indices:
  "map sm_chunk_index (handle_streaming r m) = map of_nat [0..<length (handle_streaming r m)]"
  "map sm_chunk_index (default_streaming_handler r m) = map of_nat [0..<length (default_streaming_handler r m)]"
  by (cases m; simp add: handle_streaming_def default_streaming_handler_def stream_message_new_def Let_def)+

section \<open>Round trips\<close>

lemma struct_fields_obj:
  "distinct (map fst kvs) \<Longrightarrow> names = map fst kvs \<Longrightarrow> struct_fields names (JObj kvs) = Some (map (\<lambda>kv. Some (snd kv)) kvs)"
proof -
  assume d: "distinct (map fst kvs)" and n: "names = map fst kvs"
  have "length (filter (\<lambda>kv. fst kv = k) kvs) \<le> 1" for k
    by (rule single_member [OF d])
  moreover have "map (map_of kvs) (map fst kvs) = map (\<lambda>kv. Some (snd kv)) kvs"
    using d by (auto intro: map_of_is_SomeI)
  ultimately show ?thesis by (simp add: struct_fields_def n list_all_iff)
qed

definition value_or_none :: "json option \<Rightarrow> bool" where
  "value_or_none x = (case x of None \<Rightarrow> True | Some j \<Rightarrow> is_value j \<and> j \<noteq> JNull)"

lemma opt_value_sound: "value_or_none x \<Longrightarrow> opt_value (Some (some_or_null (\<lambda>j. j) x)) = Some x"
  by (rule opt_value_some_or_null) (auto simp: value_or_none_def split: option.splits)

lemmas struct_simps = struct_fields_obj req_str_def req_bool_def req_u64_def req_value_def opt_value_sound

lemma hq_roundtrip: "hq_of_json (hq_to_json x) = Some x"
  by (simp add: hq_of_json_def hq_to_json_def struct_simps)

lemma hr_roundtrip: "hr_of_json (hr_to_json x) = Some x"
  by (simp add: hr_of_json_def hr_to_json_def struct_simps)

lemma rq_roundtrip: "is_value (rq_payload x) \<Longrightarrow> rq_of_json (rq_to_json x) = Some x"
  by (simp add: rq_of_json_def rq_to_json_def struct_simps)

lemma rs_roundtrip: "is_value (rs_payload x) \<Longrightarrow> rs_of_json (rs_to_json x) = Some x"
  by (simp add: rs_of_json_def rs_to_json_def struct_simps)

lemma sm_roundtrip: "is_value (sm_content x) \<Longrightarrow> value_or_none (sm_metadata x) \<Longrightarrow> sm_of_json (sm_to_json x) = Some x"
  by (simp add: sm_of_json_def sm_to_json_def struct_simps)

lemma sr_roundtrip: "value_or_none (sr_final_payload x) \<Longrightarrow> sr_of_json (sr_to_json x) = Some x"
  by (simp add: sr_of_json_def sr_to_json_def struct_simps)

lemma cp_roundtrip: "cp_of_json (cp_to_json x) = Some x"
  by (simp add: cp_of_json_def cp_to_json_def struct_simps)

definition sound_schema :: "service_schema \<Rightarrow> bool" where
  "sound_schema x \<longleftrightarrow> is_value (sc_input_schema x) \<and> is_value (sc_output_schema x)
     \<and> value_or_none (sc_state_schema x) \<and> is_value (sc_metadata x)"

lemma sc_roundtrip: "sound_schema x \<Longrightarrow> sc_of_json (sc_to_json x) = Some x"
proof -
  have caps: "req_vec cp_of_json (Some (JArr (map cp_to_json cs))) = Some cs" for cs
    by (simp add: req_vec_def cp_roundtrip del: map_map)
  show "sound_schema x \<Longrightarrow> ?thesis"
    by (simp add: sc_of_json_def sc_to_json_def struct_simps caps sound_schema_def)
qed

interpretation handshake_request: json_struct hq_to_json hq_of_json "\<lambda>_. True"
  by unfold_locales (rule hq_roundtrip)

interpretation handshake_response: json_struct hr_to_json hr_of_json "\<lambda>_. True"
  by unfold_locales (rule hr_roundtrip)

interpretation service_request: json_struct rq_to_json rq_of_json "\<lambda>x. is_value (rq_payload x)"
  by unfold_locales (rule rq_roundtrip)

interpretation service_response: json_struct rs_to_json rs_of_json "\<lambda>x. is_value (rs_payload x)"
  by unfold_locales (rule rs_roundtrip)

interpretation stream_message: json_struct sm_to_json sm_of_json
    "\<lambda>x. is_value (sm_content x) \<and> value_or_none (sm_metadata x)"
  by unfold_locales (blast intro: sm_roundtrip)

interpretation stream_response: json_struct sr_to_json sr_of_json "\<lambda>x. value_or_none (sr_final_payload x)"
  by unfold_locales (rule sr_roundtrip)

interpretation service_schema: json_struct sc_to_json sc_of_json sound_schema
  by unfold_locales (rule sc_roundtrip)

end
