(* ===== verification/Tagged_Codec.thy ===== *)
theory Tagged_Codec
  imports Json
begin

text \<open>
  A codec that satisfies \<^verbatim>\<open>codec_law\<close>: a tag byte, then the contents. The program uses
  \<^verbatim>\<open>serde_json\<close>; this one instance shows that the law can hold, and with it the theorems
  that assume the law are evaluated on concrete inputs.
\<close>

section \<open>Writing\<close>

fun put_text :: "string \<Rightarrow> bytes" where
  "put_text [] = [0]"
| "put_text (c # cs) = 1 # of_nat (of_char c) # put_text cs"

definition put_word :: "u64 \<Rightarrow> bytes" where
  "put_word w = map (\<lambda>i. of_bool (bit w i)) [0..<64]"

fun put_number :: "number \<Rightarrow> bytes" where
  "put_number (PosInt w) = 0 # put_word w"
| "put_number (NegInt w) = 1 # put_word w"
| "put_number (Float w) = 2 # put_word w"

fun put_json :: "json \<Rightarrow> bytes" where
  "put_json JNull = [0]"
| "put_json (JBool b) = [1, of_bool b]"
| "put_json (JNumber n) = 2 # put_number n"
| "put_json (JStr s) = 3 # put_text s"
| "put_json (JArr xs) = 4 # concat (map (\<lambda>x. 1 # put_json x) xs) @ [0]"
| "put_json (JObj kvs) = 5 # concat (map (\<lambda>(k, v). 1 # put_text k @ put_json v) kvs) @ [0]"

section \<open>Reading\<close>

fun take_text :: "bytes \<Rightarrow> (string \<times> bytes) option" where
  "take_text (b # c # bs) =
     (if b = 0 then Some ([], c # bs) else map_option (\<lambda>(s, r). (char_of (unat c) # s, r)) (take_text bs))"
| "take_text [b] = (if b = 0 then Some ([], []) else None)"
| "take_text [] = None"

definition take_word :: "bytes \<Rightarrow> (u64 \<times> bytes) option" where
  "take_word bs =
     (if length bs < 64 then None
      else Some (horner_sum of_bool 2 (map (\<lambda>b. b \<noteq> 0) (take 64 bs)), drop 64 bs))"

fun take_number :: "bytes \<Rightarrow> (number \<times> bytes) option" where
  "take_number [] = None"
| "take_number (t # bs) =
     map_option (\<lambda>(w, r). ((if t = 0 then PosInt else if t = 1 then NegInt else Float) w, r)) (take_word bs)"

fun take_json :: "nat \<Rightarrow> bytes \<Rightarrow> (json \<times> bytes) option"
  and take_items :: "nat \<Rightarrow> bytes \<Rightarrow> (json list \<times> bytes) option"
  and take_members :: "nat \<Rightarrow> bytes \<Rightarrow> ((string \<times> json) list \<times> bytes) option" where
  "take_json 0 bs = None"
| "take_json (Suc n) [] = None"
| "take_json (Suc n) (t # bs) =
     (if t = 0 then Some (JNull, bs)
      else if t = 1 then (case bs of [] \<Rightarrow> None | b # r \<Rightarrow> Some (JBool (b \<noteq> 0), r))
      else if t = 2 then map_option (\<lambda>(x, r). (JNumber x, r)) (take_number bs)
      else if t = 3 then map_option (\<lambda>(s, r). (JStr s, r)) (take_text bs)
      else if t = 4 then map_option (\<lambda>(xs, r). (JArr xs, r)) (take_items n bs)
      else map_option (\<lambda>(kvs, r). (JObj kvs, r)) (take_members n bs))"
| "take_items 0 bs = None"
| "take_items (Suc n) [] = None"
| "take_items (Suc n) (t # bs) =
     (if t = 0 then Some ([], bs)
      else case take_json n bs of
        None \<Rightarrow> None
      | Some (x, r) \<Rightarrow> map_option (\<lambda>(xs, r'). (x # xs, r')) (take_items n r))"
| "take_members 0 bs = None"
| "take_members (Suc n) [] = None"
| "take_members (Suc n) (t # bs) =
     (if t = 0 then Some ([], bs)
      else case take_text bs of
        None \<Rightarrow> None
      | Some (k, r) \<Rightarrow>
          (case take_json n r of
             None \<Rightarrow> None
           | Some (v, r') \<Rightarrow> map_option (\<lambda>(kvs, r''). ((k, v) # kvs, r'')) (take_members n r')))"

definition tagged_parse :: "bytes \<Rightarrow> json option" where
  "tagged_parse bs = (case take_json (length bs) bs of Some (j, []) \<Rightarrow> Some j | _ \<Rightarrow> None)"

definition tagged :: json_codec where
  "tagged = \<lparr>jc_to_vec = put_json, jc_parse = tagged_parse, jc_message = (\<lambda>type bs. ''unreadable '' @ type)\<rparr>"

section \<open>The law\<close>

lemma take_text_put [simp]: "take_text (put_text s @ r) = Some (s, r)"
proof (induction s)
  case Nil
  show ?case by (cases r) simp_all
next
  case (Cons c s)
  have "unat (of_nat (of_char c) :: u8) = of_char c"
    by (rule unat_of_nat_small) simp
  with Cons show ?case by simp
qed

lemma take_word_put [simp]: "take_word (put_word w @ r) = Some (w, r)"
proof -
  have "horner_sum of_bool 2 (map (bit w) [0..<64]) = w"
    by (simp add: horner_sum_bit_eq_take_bit del: upt_Suc) (rule take_bit_word_eq_self, simp)
  then show ?thesis by (simp add: take_word_def put_word_def o_def del: upt_Suc upt_rec_numeral)
qed

lemma take_number_put [simp]: "take_number (put_number n @ r) = Some (n, r)"
  by (cases n) simp_all

definition put_items :: "json list \<Rightarrow> bytes" where
  "put_items xs = concat (map (\<lambda>x. 1 # put_json x) xs) @ [0]"

definition put_members :: "(string \<times> json) list \<Rightarrow> bytes" where
  "put_members kvs = concat (map (\<lambda>(k, v). 1 # put_text k @ put_json v) kvs) @ [0]"

lemma put_items_simps [simp]:
  "put_items [] = [0]" "put_items (x # xs) = 1 # put_json x @ put_items xs"
  by (simp_all add: put_items_def)

lemma put_members_simps [simp]:
  "put_members [] = [0]" "put_members ((k, v) # kvs) = 1 # put_text k @ put_json v @ put_members kvs"
  by (simp_all add: put_members_def)

lemma put_container: "put_json (JArr xs) = 4 # put_items xs" "put_json (JObj kvs) = 5 # put_members kvs"
  by (simp_all add: put_items_def put_members_def)

lemma take_items_put:
  assumes "\<And>x n r. x \<in> set xs \<Longrightarrow> length (put_json x) \<le> n \<Longrightarrow> take_json n (put_json x @ r) = Some (x, r)"
  shows "length (put_items xs) \<le> n \<Longrightarrow> take_items n (put_items xs @ r) = Some (xs, r)"
  using assms
proof (induction xs arbitrary: n)
  case Nil
  then show ?case by (cases n) simp_all
next
  case (Cons x xs)
  then obtain m where "n = Suc m" "length (put_json x) + length (put_items xs) \<le> m"
    by (cases n) auto
  with Cons show ?case by simp
qed

lemma take_members_put:
  assumes "\<And>k v n r. (k, v) \<in> set kvs \<Longrightarrow> length (put_json v) \<le> n \<Longrightarrow> take_json n (put_json v @ r) = Some (v, r)"
    and "length (put_members kvs) \<le> n"
  shows "take_members n (put_members kvs @ r) = Some (kvs, r)"
  using assms
proof (induction kvs arbitrary: n)
  case Nil
  then show ?case by (cases n) simp_all
next
  case (Cons kv kvs)
  obtain k v where kv: "kv = (k, v)" by (cases kv)
  with Cons.prems(2) obtain m where m: "n = Suc m" "length (put_json v) + length (put_members kvs) \<le> m"
    by (cases n) auto
  have "take_json m (put_json v @ put_members kvs @ r) = Some (v, put_members kvs @ r)"
    using Cons.prems(1) [of k v] m kv by simp
  moreover have "take_members m (put_members kvs @ r) = Some (kvs, r)"
    using Cons.prems(1) m by (intro Cons.IH) auto
  ultimately show ?case using kv m by simp
qed

lemma take_json_put: "length (put_json j) \<le> n \<Longrightarrow> take_json n (put_json j @ r) = Some (j, r)"
proof (induction j arbitrary: n r)
  case (JArr xs)
  then obtain m where "n = Suc m" "length (put_items xs) \<le> m"
    unfolding put_container by (cases n) auto
  with JArr.IH show ?case by (simp only: put_container append_Cons) (simp add: take_items_put)
next
  case (JObj kvs)
  then obtain m where m: "n = Suc m" "length (put_members kvs) \<le> m"
    unfolding put_container by (cases n) auto
  have "take_members m (put_members kvs @ r) = Some (kvs, r)"
    by (rule take_members_put [OF _ m(2)], rule JObj.IH) auto
  with m show ?case by (simp only: put_container append_Cons) simp
next
  case JNull
  then show ?case by (cases n) simp_all
next
  case (JBool b)
  then show ?case by (cases n) simp_all
next
  case (JNumber x)
  then show ?case by (cases n) simp_all
next
  case (JStr s)
  then show ?case by (cases n) simp_all
qed

lemma tagged_law: "codec_law tagged"
  using take_json_put [of j "length (put_json j)" "[]" for j]
  by (simp add: codec_law_def tagged_def tagged_parse_def)

end
