(* ===== verification/Config.thy ===== *)
theory Config
  imports Protocol Tagged_Codec
begin

text \<open>
  The configuration file (\<^verbatim>\<open>src/src/config.rs\<close>): its sections with their defaults, the builder,
  and how a configuration is written to and read from TOML and YAML. The two text formats are
  crates (\<^verbatim>\<open>toml\<close>, \<^verbatim>\<open>serde_yaml\<close>) and so a parameter; what serde derives for the
  sections is written out.
\<close>

section \<open>The sections\<close>

type_synonym u16 = "16 word"

text \<open>A threshold, an \<^verbatim>\<open>f64\<close>, is given by its bits.\<close>

record server_config =
  fsv_path :: "string option"
  fsv_addr :: "string option"
  fsv_request_timeout_secs :: u64
  fsv_idle_timeout_secs :: u64
  fsv_max_request_size :: u64
  fsv_max_connections :: u64
  fsv_enable_streaming :: bool
  fsv_enable_schema_introspection :: bool
  fsv_webhook_url :: "string option"

record client_config =
  fcl_connect_timeout_secs :: u64
  fcl_request_timeout_secs :: u64
  fcl_idle_timeout_secs :: u64
  fcl_heartbeat_interval_secs :: u64
  fcl_max_reconnect_attempts :: u32
  fcl_reconnect_delay_secs :: u64

record pool_config =
  fpl_max_concurrent :: u64
  fpl_max_pool_size :: u64
  fpl_connection_timeout_secs :: u64
  fpl_request_timeout_secs :: u64
  fpl_circuit_breaker_threshold :: u64
  fpl_circuit_breaker_timeout_secs :: u64

record api_key_entry =
  ake_key :: string
  ake_client_id :: string
  ake_permissions :: "string list"

record token_entry =
  tke_token :: string
  tke_client_id :: string
  tke_permissions :: "string list"
  tke_ttl_secs :: "u64 option"

record rate_limit_config =
  frl_enabled :: bool
  frl_max_requests :: u64
  frl_window_secs :: u64

record security_config =
  fsc_auth_type :: "string option"
  fsc_api_keys :: "api_key_entry list"
  fsc_tokens :: "token_entry list"
  fsc_rate_limit :: rate_limit_config

record logging_config =
  flg_level :: string
  flg_format :: string
  flg_output :: string

record alert_rule_config =
  far_name :: string
  far_metric :: string
  far_condition :: string
  far_threshold :: u64

record monitoring_config =
  fmo_enabled :: bool
  fmo_metrics_port :: "u16 option"
  fmo_alert_rules :: "alert_rule_config list"

record config =
  cg_server :: server_config
  cg_client :: client_config
  cg_pool :: pool_config
  cg_security :: security_config
  cg_logging :: logging_config
  cg_monitoring :: monitoring_config


section \<open>Defaults\<close>

definition fsv_default :: server_config where
  "fsv_default = \<lparr>fsv_path = None, fsv_addr = None, fsv_request_timeout_secs = 30,
     fsv_idle_timeout_secs = 300, fsv_max_request_size = 16 * 1024 * 1024, fsv_max_connections = 10000,
     fsv_enable_streaming = True, fsv_enable_schema_introspection = True, fsv_webhook_url = None\<rparr>"

definition fcl_default :: client_config where
  "fcl_default = \<lparr>fcl_connect_timeout_secs = 5, fcl_request_timeout_secs = 30,
     fcl_idle_timeout_secs = 300, fcl_heartbeat_interval_secs = 30, fcl_max_reconnect_attempts = 5,
     fcl_reconnect_delay_secs = 1\<rparr>"

definition fpl_default :: pool_config where
  "fpl_default = \<lparr>fpl_max_concurrent = 100, fpl_max_pool_size = 100, fpl_connection_timeout_secs = 5,
     fpl_request_timeout_secs = 30, fpl_circuit_breaker_threshold = 5,
     fpl_circuit_breaker_timeout_secs = 30\<rparr>"

definition frl_default :: rate_limit_config where
  "frl_default = \<lparr>frl_enabled = True, frl_max_requests = 1000, frl_window_secs = 60\<rparr>"

definition fsc_default :: security_config where
  "fsc_default = \<lparr>fsc_auth_type = None, fsc_api_keys = [], fsc_tokens = [], fsc_rate_limit = frl_default\<rparr>"

definition flg_default :: logging_config where
  "flg_default = \<lparr>flg_level = ''info'', flg_format = ''json'', flg_output = ''stdout''\<rparr>"

definition fmo_default :: monitoring_config where
  "fmo_default = \<lparr>fmo_enabled = True, fmo_metrics_port = Some 9090, fmo_alert_rules = []\<rparr>"

definition cg_default :: config where
  "cg_default = \<lparr>cg_server = fsv_default, cg_client = fcl_default, cg_pool = fpl_default,
     cg_security = fsc_default, cg_logging = flg_default, cg_monitoring = fmo_default\<rparr>"

section \<open>The builder\<close>

record config_builder =
  bd_config :: config

definition builder_new :: config_builder where
  "builder_new = \<lparr>bd_config = cg_default\<rparr>"

definition with_server_config :: "server_config \<Rightarrow> config_builder \<Rightarrow> config_builder" where
  "with_server_config server b = b\<lparr>bd_config := (bd_config b)\<lparr>cg_server := server\<rparr>\<rparr>"

definition with_client_config :: "client_config \<Rightarrow> config_builder \<Rightarrow> config_builder" where
  "with_client_config client b = b\<lparr>bd_config := (bd_config b)\<lparr>cg_client := client\<rparr>\<rparr>"

definition with_pool_config :: "pool_config \<Rightarrow> config_builder \<Rightarrow> config_builder" where
  "with_pool_config pool b = b\<lparr>bd_config := (bd_config b)\<lparr>cg_pool := pool\<rparr>\<rparr>"

definition with_security_config :: "security_config \<Rightarrow> config_builder \<Rightarrow> config_builder" where
  "with_security_config security b = b\<lparr>bd_config := (bd_config b)\<lparr>cg_security := security\<rparr>\<rparr>"

definition with_logging_config :: "logging_config \<Rightarrow> config_builder \<Rightarrow> config_builder" where
  "with_logging_config logging b = b\<lparr>bd_config := (bd_config b)\<lparr>cg_logging := logging\<rparr>\<rparr>"

definition with_monitoring_config :: "monitoring_config \<Rightarrow> config_builder \<Rightarrow> config_builder" where
  "with_monitoring_config monitoring b = b\<lparr>bd_config := (bd_config b)\<lparr>cg_monitoring := monitoring\<rparr>\<rparr>"

definition build :: "config_builder \<Rightarrow> config" where
  "build b = bd_config b"

section \<open>Writing the sections\<close>

definition fsv_to_json :: "server_config \<Rightarrow> json" where
  "fsv_to_json x = JObj [
     (''path'', some_or_null JStr (fsv_path x)), (''addr'', some_or_null JStr (fsv_addr x)),
     (''request_timeout_secs'', JNumber (PosInt (fsv_request_timeout_secs x))),
     (''idle_timeout_secs'', JNumber (PosInt (fsv_idle_timeout_secs x))),
     (''max_request_size'', JNumber (PosInt (fsv_max_request_size x))),
     (''max_connections'', JNumber (PosInt (fsv_max_connections x))),
     (''enable_streaming'', JBool (fsv_enable_streaming x)),
     (''enable_schema_introspection'', JBool (fsv_enable_schema_introspection x)),
     (''webhook_url'', some_or_null JStr (fsv_webhook_url x))]"

definition fcl_to_json :: "client_config \<Rightarrow> json" where
  "fcl_to_json x = JObj [
     (''connect_timeout_secs'', JNumber (PosInt (fcl_connect_timeout_secs x))),
     (''request_timeout_secs'', JNumber (PosInt (fcl_request_timeout_secs x))),
     (''idle_timeout_secs'', JNumber (PosInt (fcl_idle_timeout_secs x))),
     (''heartbeat_interval_secs'', JNumber (PosInt (fcl_heartbeat_interval_secs x))),
     (''max_reconnect_attempts'', JNumber (PosInt (ucast (fcl_max_reconnect_attempts x)))),
     (''reconnect_delay_secs'', JNumber (PosInt (fcl_reconnect_delay_secs x)))]"

definition fpl_to_json :: "pool_config \<Rightarrow> json" where
  "fpl_to_json x = JObj [
     (''max_concurrent'', JNumber (PosInt (fpl_max_concurrent x))),
     (''max_pool_size'', JNumber (PosInt (fpl_max_pool_size x))),
     (''connection_timeout_secs'', JNumber (PosInt (fpl_connection_timeout_secs x))),
     (''request_timeout_secs'', JNumber (PosInt (fpl_request_timeout_secs x))),
     (''circuit_breaker_threshold'', JNumber (PosInt (fpl_circuit_breaker_threshold x))),
     (''circuit_breaker_timeout_secs'', JNumber (PosInt (fpl_circuit_breaker_timeout_secs x)))]"

definition ake_to_json :: "api_key_entry \<Rightarrow> json" where
  "ake_to_json x = JObj [
     (''key'', JStr (ake_key x)), (''client_id'', JStr (ake_client_id x)),
     (''permissions'', JArr (map JStr (ake_permissions x)))]"

definition tke_to_json :: "token_entry \<Rightarrow> json" where
  "tke_to_json x = JObj [
     (''token'', JStr (tke_token x)), (''client_id'', JStr (tke_client_id x)),
     (''permissions'', JArr (map JStr (tke_permissions x))),
     (''ttl_secs'', some_or_null (\<lambda>n. JNumber (PosInt n)) (tke_ttl_secs x))]"

definition frl_to_json :: "rate_limit_config \<Rightarrow> json" where
  "frl_to_json x = JObj [
     (''enabled'', JBool (frl_enabled x)),
     (''max_requests'', JNumber (PosInt (frl_max_requests x))),
     (''window_secs'', JNumber (PosInt (frl_window_secs x)))]"

definition fsc_to_json :: "security_config \<Rightarrow> json" where
  "fsc_to_json x = JObj [
     (''auth_type'', some_or_null JStr (fsc_auth_type x)),
     (''api_keys'', JArr (map ake_to_json (fsc_api_keys x))),
     (''tokens'', JArr (map tke_to_json (fsc_tokens x))),
     (''rate_limit'', frl_to_json (fsc_rate_limit x))]"

definition flg_to_json :: "logging_config \<Rightarrow> json" where
  "flg_to_json x = JObj [
     (''level'', JStr (flg_level x)), (''format'', JStr (flg_format x)),
     (''output'', JStr (flg_output x))]"

definition far_to_json :: "alert_rule_config \<Rightarrow> json" where
  "far_to_json x = JObj [
     (''name'', JStr (far_name x)), (''metric'', JStr (far_metric x)),
     (''condition'', JStr (far_condition x)), (''threshold'', JNumber (Float (far_threshold x)))]"

definition fmo_to_json :: "monitoring_config \<Rightarrow> json" where
  "fmo_to_json x = JObj [
     (''enabled'', JBool (fmo_enabled x)),
     (''metrics_port'', some_or_null (\<lambda>n. JNumber (PosInt (ucast n))) (fmo_metrics_port x)),
     (''alert_rules'', JArr (map far_to_json (fmo_alert_rules x)))]"

definition cg_to_json :: "config \<Rightarrow> json" where
  "cg_to_json x = JObj [
     (''server'', fsv_to_json (cg_server x)), (''client'', fcl_to_json (cg_client x)),
     (''pool'', fpl_to_json (cg_pool x)), (''security'', fsc_to_json (cg_security x)),
     (''logging'', flg_to_json (cg_logging x)), (''monitoring'', fmo_to_json (cg_monitoring x))]"

section \<open>Reading the sections\<close>

text \<open>
  A section given as an array must have its exact length, as in the readers of \<open>Protocol\<close>; that the TOML
  reader takes longer ones is left out. Numbers that do not fit their field are refused. An integer is taken where a \<^verbatim>\<open>f64\<close> is
  wanted and rounded to the nearest one, ties to even.
\<close>

fun bit_length :: "nat \<Rightarrow> nat" where
  "bit_length n = (if n = 0 then 0 else Suc (bit_length (n div 2)))"

declare bit_length.simps [simp del]

definition round_half_even :: "nat \<Rightarrow> nat \<Rightarrow> nat" where
  "round_half_even n k =
     (let q = n div 2 ^ k; r = 2 * (n mod 2 ^ k) in
      if r > 2 ^ k \<or> r = 2 ^ k \<and> odd q then q + 1 else q)"

definition f64_of_nat :: "nat \<Rightarrow> u64" where
  "f64_of_nat n =
     (if n = 0 then 0
      else let e = bit_length n - 1;
               significand = (if e \<le> 52 then n * 2 ^ (52 - e) else round_half_even n (e - 52))
           in of_nat ((1023 + e) * 2 ^ 52 + (significand - 2 ^ 52)))"

definition req_f64 :: "json option \<Rightarrow> u64 option" where
  "req_f64 f = (case f of
       Some (JNumber (Float w)) \<Rightarrow> Some w
     | Some (JNumber (PosInt n)) \<Rightarrow> Some (f64_of_nat (unat n))
     | Some (JNumber (NegInt n)) \<Rightarrow> Some (0x8000000000000000 + f64_of_nat (unat (- n)))
     | _ \<Rightarrow> None)"

definition req_u32 :: "json option \<Rightarrow> u32 option" where
  "req_u32 f = (case req_u64 f of Some n \<Rightarrow> if n < 0x100000000 then Some (ucast n) else None | None \<Rightarrow> None)"

definition opt_u64 :: "json option \<Rightarrow> u64 option option" where
  "opt_u64 f = (case f of None \<Rightarrow> Some None | Some JNull \<Rightarrow> Some None | _ \<Rightarrow> map_option Some (req_u64 f))"

definition opt_u16 :: "json option \<Rightarrow> u16 option option" where
  "opt_u16 f = (case opt_u64 f of
       None \<Rightarrow> None
     | Some None \<Rightarrow> Some None
     | Some (Some n) \<Rightarrow> if n < 0x10000 then Some (Some (ucast n)) else None)"

definition fsv_of_json :: "json \<Rightarrow> server_config option" where
  "fsv_of_json j =
     (case struct_fields [''path'', ''addr'', ''request_timeout_secs'', ''idle_timeout_secs'', ''max_request_size'',
        ''max_connections'', ''enable_streaming'', ''enable_schema_introspection'', ''webhook_url''] j of
        Some [f1, f2, f3, f4, f5, f6, f7, f8, f9] \<Rightarrow>
          (case (opt_str f1, opt_str f2, req_u64 f3, req_u64 f4, req_u64 f5, req_u64 f6, req_bool f7,
            req_bool f8, opt_str f9) of
             (Some x1, Some x2, Some x3, Some x4, Some x5, Some x6, Some x7, Some x8, Some x9) \<Rightarrow>
               Some \<lparr>fsv_path = x1, fsv_addr = x2, fsv_request_timeout_secs = x3,
                 fsv_idle_timeout_secs = x4, fsv_max_request_size = x5, fsv_max_connections = x6,
                 fsv_enable_streaming = x7, fsv_enable_schema_introspection = x8,
                 fsv_webhook_url = x9\<rparr>
           | _ \<Rightarrow> None)
      | _ \<Rightarrow> None)"

definition fcl_of_json :: "json \<Rightarrow> client_config option" where
  "fcl_of_json j =
     (case struct_fields [''connect_timeout_secs'', ''request_timeout_secs'', ''idle_timeout_secs'',
        ''heartbeat_interval_secs'', ''max_reconnect_attempts'', ''reconnect_delay_secs''] j of
        Some [f1, f2, f3, f4, f5, f6] \<Rightarrow>
          (case (req_u64 f1, req_u64 f2, req_u64 f3, req_u64 f4, req_u32 f5, req_u64 f6) of
             (Some x1, Some x2, Some x3, Some x4, Some x5, Some x6) \<Rightarrow>
               Some \<lparr>fcl_connect_timeout_secs = x1, fcl_request_timeout_secs = x2,
                 fcl_idle_timeout_secs = x3, fcl_heartbeat_interval_secs = x4,
                 fcl_max_reconnect_attempts = x5, fcl_reconnect_delay_secs = x6\<rparr>
           | _ \<Rightarrow> None)
      | _ \<Rightarrow> None)"

definition fpl_of_json :: "json \<Rightarrow> pool_config option" where
  "fpl_of_json j =
     (case struct_fields [''max_concurrent'', ''max_pool_size'', ''connection_timeout_secs'',
        ''request_timeout_secs'', ''circuit_breaker_threshold'', ''circuit_breaker_timeout_secs''] j of
        Some [f1, f2, f3, f4, f5, f6] \<Rightarrow>
          (case (req_u64 f1, req_u64 f2, req_u64 f3, req_u64 f4, req_u64 f5, req_u64 f6) of
             (Some x1, Some x2, Some x3, Some x4, Some x5, Some x6) \<Rightarrow>
               Some \<lparr>fpl_max_concurrent = x1, fpl_max_pool_size = x2, fpl_connection_timeout_secs = x3,
                 fpl_request_timeout_secs = x4, fpl_circuit_breaker_threshold = x5,
                 fpl_circuit_breaker_timeout_secs = x6\<rparr>
           | _ \<Rightarrow> None)
      | _ \<Rightarrow> None)"

definition ake_of_json :: "json \<Rightarrow> api_key_entry option" where
  "ake_of_json j =
     (case struct_fields [''key'', ''client_id'', ''permissions''] j of
        Some [f1, f2, f3] \<Rightarrow>
          (case (req_str f1, req_str f2, req_vec as_str f3) of
             (Some x1, Some x2, Some x3) \<Rightarrow>
               Some \<lparr>ake_key = x1, ake_client_id = x2, ake_permissions = x3\<rparr>
           | _ \<Rightarrow> None)
      | _ \<Rightarrow> None)"

definition tke_of_json :: "json \<Rightarrow> token_entry option" where
  "tke_of_json j =
     (case struct_fields [''token'', ''client_id'', ''permissions'', ''ttl_secs''] j of
        Some [f1, f2, f3, f4] \<Rightarrow>
          (case (req_str f1, req_str f2, req_vec as_str f3, opt_u64 f4) of
             (Some x1, Some x2, Some x3, Some x4) \<Rightarrow>
               Some \<lparr>tke_token = x1, tke_client_id = x2, tke_permissions = x3, tke_ttl_secs = x4\<rparr>
           | _ \<Rightarrow> None)
      | _ \<Rightarrow> None)"

definition frl_of_json :: "json \<Rightarrow> rate_limit_config option" where
  "frl_of_json j =
     (case struct_fields [''enabled'', ''max_requests'', ''window_secs''] j of
        Some [f1, f2, f3] \<Rightarrow>
          (case (req_bool f1, req_u64 f2, req_u64 f3) of
             (Some x1, Some x2, Some x3) \<Rightarrow>
               Some \<lparr>frl_enabled = x1, frl_max_requests = x2, frl_window_secs = x3\<rparr>
           | _ \<Rightarrow> None)
      | _ \<Rightarrow> None)"

definition fsc_of_json :: "json \<Rightarrow> security_config option" where
  "fsc_of_json j =
     (case struct_fields [''auth_type'', ''api_keys'', ''tokens'', ''rate_limit''] j of
        Some [f1, f2, f3, f4] \<Rightarrow>
          (case (opt_str f1, req_vec ake_of_json f2, req_vec tke_of_json f3, Option.bind f4 frl_of_json) of
             (Some x1, Some x2, Some x3, Some x4) \<Rightarrow>
               Some \<lparr>fsc_auth_type = x1, fsc_api_keys = x2, fsc_tokens = x3, fsc_rate_limit = x4\<rparr>
           | _ \<Rightarrow> None)
      | _ \<Rightarrow> None)"

definition flg_of_json :: "json \<Rightarrow> logging_config option" where
  "flg_of_json j =
     (case struct_fields [''level'', ''format'', ''output''] j of
        Some [f1, f2, f3] \<Rightarrow>
          (case (req_str f1, req_str f2, req_str f3) of
             (Some x1, Some x2, Some x3) \<Rightarrow>
               Some \<lparr>flg_level = x1, flg_format = x2, flg_output = x3\<rparr>
           | _ \<Rightarrow> None)
      | _ \<Rightarrow> None)"

definition far_of_json :: "json \<Rightarrow> alert_rule_config option" where
  "far_of_json j =
     (case struct_fields [''name'', ''metric'', ''condition'', ''threshold''] j of
        Some [f1, f2, f3, f4] \<Rightarrow>
          (case (req_str f1, req_str f2, req_str f3, req_f64 f4) of
             (Some x1, Some x2, Some x3, Some x4) \<Rightarrow>
               Some \<lparr>far_name = x1, far_metric = x2, far_condition = x3, far_threshold = x4\<rparr>
           | _ \<Rightarrow> None)
      | _ \<Rightarrow> None)"

definition fmo_of_json :: "json \<Rightarrow> monitoring_config option" where
  "fmo_of_json j =
     (case struct_fields [''enabled'', ''metrics_port'', ''alert_rules''] j of
        Some [f1, f2, f3] \<Rightarrow>
          (case (req_bool f1, opt_u16 f2, req_vec far_of_json f3) of
             (Some x1, Some x2, Some x3) \<Rightarrow>
               Some \<lparr>fmo_enabled = x1, fmo_metrics_port = x2, fmo_alert_rules = x3\<rparr>
           | _ \<Rightarrow> None)
      | _ \<Rightarrow> None)"

definition cg_of_json :: "json \<Rightarrow> config option" where
  "cg_of_json j =
     (case struct_fields [''server'', ''client'', ''pool'', ''security'', ''logging'', ''monitoring''] j of
        Some [f1, f2, f3, f4, f5, f6] \<Rightarrow>
          (case (Option.bind f1 fsv_of_json, Option.bind f2 fcl_of_json, Option.bind f3 fpl_of_json,
            Option.bind f4 fsc_of_json, Option.bind f5 flg_of_json, Option.bind f6 fmo_of_json) of
             (Some x1, Some x2, Some x3, Some x4, Some x5, Some x6) \<Rightarrow>
               Some \<lparr>cg_server = x1, cg_client = x2, cg_pool = x3, cg_security = x4, cg_logging = x5,
                 cg_monitoring = x6\<rparr>
           | _ \<Rightarrow> None)
      | _ \<Rightarrow> None)"

section \<open>The text formats\<close>

text \<open>
  What a crate offers: printing a document or the text of an error; the document it finds in a
  text when a configuration is read, or the text of an error; and the text of the error when
  the document is not a configuration.
\<close>

record text_format =
  tx_print :: "json \<Rightarrow> string + string"
  tx_parse :: "string \<Rightarrow> string + json"
  tx_mismatch :: "string \<Rightarrow> string"

datatype config_error = IoError string | ParseError string | SerializeError string

definition config_error_text :: "config_error \<Rightarrow> string" where
  "config_error_text e = (case e of
       IoError m \<Rightarrow> ''IO error: '' @ m
     | ParseError m \<Rightarrow> ''Parse error: '' @ m
     | SerializeError m \<Rightarrow> ''Serialize error: '' @ m)"

definition from_text :: "text_format \<Rightarrow> string \<Rightarrow> config_error + config" where
  "from_text f content = (case tx_parse f content of
       Inl m \<Rightarrow> Inl (ParseError m)
     | Inr j \<Rightarrow> (case cg_of_json j of None \<Rightarrow> Inl (ParseError (tx_mismatch f content)) | Some c \<Rightarrow> Inr c))"

definition to_text :: "text_format \<Rightarrow> config \<Rightarrow> config_error + string" where
  "to_text f c = (case tx_print f (cg_to_json c) of Inl m \<Rightarrow> Inl (SerializeError m) | Inr s \<Rightarrow> Inr s)"

text \<open>Both formats are read and written the same way, each by its own crate.\<close>

definition from_toml :: "text_format \<Rightarrow> string \<Rightarrow> config_error + config" where
  "from_toml toml content = from_text toml content"

definition to_toml :: "text_format \<Rightarrow> config \<Rightarrow> config_error + string" where
  "to_toml toml c = to_text toml c"

definition from_yaml :: "text_format \<Rightarrow> string \<Rightarrow> config_error + config" where
  "from_yaml yaml content = from_text yaml content"

definition to_yaml :: "text_format \<Rightarrow> config \<Rightarrow> config_error + string" where
  "to_yaml yaml c = to_text yaml c"

text \<open>The file is given by what reading it returns.\<close>

definition from_file :: "text_format \<Rightarrow> string + string \<Rightarrow> config_error + config" where
  "from_file toml file = (case file of Inl e \<Rightarrow> Inl (IoError e) | Inr content \<Rightarrow> from_toml toml content)"

section \<open>What the formats promise\<close>

text \<open>
  TOML has no null: a field that is \<^verbatim>\<open>None\<close> is left out. A table is a map, whose members are
  listed here by key. An integer above the largest \<^verbatim>\<open>i64\<close> cannot be written.
\<close>

fun drop_nulls :: "json \<Rightarrow> json" where
  "drop_nulls (JArr xs) = JArr (map drop_nulls xs)"
| "drop_nulls (JObj kvs) = JObj (map (\<lambda>(k, v). (k, drop_nulls v)) (filter (\<lambda>(k, v). v \<noteq> JNull) kvs))"
| "drop_nulls j = j"

definition toml_form :: "json \<Rightarrow> json" where
  "toml_form j = value_of (drop_nulls j)"

text \<open>Not a number: the bits without the sign exceed those of infinity.\<close>

definition is_nan :: "u64 \<Rightarrow> bool" where
  "is_nan w \<longleftrightarrow> 2 * w > 0xFFE0000000000000"

fun text_doc :: "json \<Rightarrow> bool" where
  "text_doc JNull = True"
| "text_doc (JBool _) = True"
| "text_doc (JNumber n) = (case n of PosInt _ \<Rightarrow> True | NegInt w \<Rightarrow> 0x8000000000000000 \<le> w | Float w \<Rightarrow> \<not> is_nan w)"
| "text_doc (JStr s) = utf8 s"
| "text_doc (JArr xs) = list_all (\<lambda>x. x \<noteq> JNull \<and> text_doc x) xs"
| "text_doc (JObj kvs) = (distinct (map fst kvs) \<and> list_all (\<lambda>(k, v). utf8 k \<and> text_doc v) kvs)"

fun toml_ints :: "json \<Rightarrow> bool" where
  "toml_ints (JNumber (PosInt n)) = (n < 0x8000000000000000)"
| "toml_ints (JArr xs) = list_all toml_ints xs"
| "toml_ints (JObj kvs) = list_all (\<lambda>(k, v). toml_ints v) kvs"
| "toml_ints j = True"

definition toml_law :: "text_format \<Rightarrow> bool" where
  "toml_law f \<longleftrightarrow> (\<forall>kvs. let j = JObj kvs in
     text_doc j \<and> depth j < 64 \<longrightarrow>
       (if toml_ints j then \<exists>s. tx_print f j = Inr s \<and> tx_parse f s = Inr (toml_form j)
        else \<exists>m. tx_print f j = Inl m))"

definition yaml_law :: "text_format \<Rightarrow> bool" where
  "yaml_law f \<longleftrightarrow> (\<forall>kvs. let j = JObj kvs in
     text_doc j \<and> depth j < 64 \<longrightarrow> (\<exists>s. tx_print f j = Inr s \<and> tx_parse f s = Inr j))"

text \<open>
  The strings, integers and floating-point numbers of a configuration. Every string of the
  program is UTF-8.
\<close>

definition listed :: "'a option \<Rightarrow> 'a list" where
  "listed x = (case x of None \<Rightarrow> [] | Some y \<Rightarrow> [y])"

definition config_strings :: "config \<Rightarrow> string list" where
  "config_strings c =
     listed (fsv_path (cg_server c)) @ listed (fsv_addr (cg_server c)) @ listed (fsv_webhook_url (cg_server c))
     @ listed (fsc_auth_type (cg_security c))
     @ concat (map (\<lambda>k. [ake_key k, ake_client_id k] @ ake_permissions k) (fsc_api_keys (cg_security c)))
     @ concat (map (\<lambda>t. [tke_token t, tke_client_id t] @ tke_permissions t) (fsc_tokens (cg_security c)))
     @ [flg_level (cg_logging c), flg_format (cg_logging c), flg_output (cg_logging c)]
     @ concat (map (\<lambda>r. [far_name r, far_metric r, far_condition r]) (fmo_alert_rules (cg_monitoring c)))"

definition config_ints :: "config \<Rightarrow> u64 list" where
  "config_ints c =
     (let sv = cg_server c; cl = cg_client c; pl = cg_pool c; sc = cg_security c in
     [fsv_request_timeout_secs sv, fsv_idle_timeout_secs sv, fsv_max_request_size sv, fsv_max_connections sv,
      fcl_connect_timeout_secs cl, fcl_request_timeout_secs cl, fcl_idle_timeout_secs cl,
      fcl_heartbeat_interval_secs cl, fcl_reconnect_delay_secs cl,
      fpl_max_concurrent pl, fpl_max_pool_size pl, fpl_connection_timeout_secs pl, fpl_request_timeout_secs pl,
      fpl_circuit_breaker_threshold pl, fpl_circuit_breaker_timeout_secs pl,
      frl_max_requests (fsc_rate_limit sc), frl_window_secs (fsc_rate_limit sc)]
     @ concat (map (\<lambda>t. listed (tke_ttl_secs t)) (fsc_tokens sc)))"

definition rust_config :: "config \<Rightarrow> bool" where
  "rust_config c \<longleftrightarrow> list_all utf8 (config_strings c)
     \<and> list_all (\<lambda>r. \<not> is_nan (far_threshold r)) (fmo_alert_rules (cg_monitoring c))"

section \<open>A configuration as a document\<close>

lemma map_of_put: "map_of (put k v m) = (map_of m)(k \<mapsto> v)"
  by (induction k v m rule: put.induct) (auto simp: fun_eq_iff)

lemma map_of_btree_map: "distinct (map fst m) \<Longrightarrow> map_of (btree_map m) = map_of m"
proof -
  have "distinct (map fst m) \<Longrightarrow> fst ` set m \<inter> fst ` set acc = {}
      \<Longrightarrow> map_of (fold (\<lambda>(k, v). put k v) m acc) = map_of (m @ acc)" for acc
  proof (induction m arbitrary: acc)
    case (Cons kv m)
    obtain k v where kv: "kv = (k, v)" by force
    with Cons have "map_of (fold (\<lambda>(k, v). put k v) m (put k v acc)) = map_of (m @ put k v acc)"
      by (intro Cons.IH) (auto simp: fst_put)
    moreover have "map_of m k = None" using Cons.prems kv by (simp add: map_of_eq_None_iff)
    ultimately show ?case by (auto simp: kv map_of_put fun_eq_iff map_add_def split: option.splits)
  qed simp
  then show "distinct (map fst m) \<Longrightarrow> ?thesis" by (simp add: btree_map_def)
qed

lemma distinct_btree_map: "distinct (map fst (btree_map m))"
  using sorted_btree_map [of m] strict_sorted_iff by blast

lemma toml_form_leaf [simp]:
  "toml_form JNull = JNull" "toml_form (JBool b) = JBool b" "toml_form (JNumber n) = JNumber n"
  "toml_form (JStr s) = JStr s" "toml_form (JArr xs) = JArr (map toml_form xs)"
  by (simp_all add: toml_form_def o_def)

text \<open>A derived reader finds every field of a struct in its TOML form, but those that are null.\<close>

definition toml_field :: "json \<Rightarrow> json option" where
  "toml_field v = (if v = JNull then None else Some (toml_form v))"

lemma struct_fields_toml:
  assumes "distinct (map fst kvs)" and "names = map fst kvs"
  shows "struct_fields names (toml_form (JObj kvs))
    = Some (map (\<lambda>kv. toml_field (snd kv)) kvs)"
proof -
  let ?m = "map (\<lambda>(k, v). (k, toml_form v)) (filter (\<lambda>(k, v). v \<noteq> JNull) kvs)"
  have form: "toml_form (JObj kvs) = JObj (btree_map ?m)"
    by (simp add: toml_form_def o_def case_prod_unfold)
  have "length (filter (\<lambda>kv. fst kv = k) (btree_map ?m)) \<le> 1" for k
    by (rule single_member [OF distinct_btree_map])
  moreover have d: "distinct (map fst ?m)"
    using assms(1) by (induction kvs) (auto simp: image_iff)
  have "map_of ?m (fst kv) = toml_field (snd kv)" if "kv \<in> set kvs" for kv
  proof -
    obtain k v where kv: "kv = (k, v)" by force
    have "map_of ?m k = map_option toml_form (map_of (filter (\<lambda>(k, v). v \<noteq> JNull) kvs) k)"
      by (simp add: map_of_map)
    also have "map_of (filter (\<lambda>(k, v). v \<noteq> JNull) kvs) k = (if v = JNull then None else Some v)"
      using assms(1) that kv by (induction kvs) (auto simp: map_of_eq_None_iff image_iff)
    finally show ?thesis by (simp add: kv toml_field_def)
  qed
  ultimately show ?thesis
    by (simp add: form struct_fields_def list_all_iff assms(2) map_of_btree_map [OF d])
qed

lemma toml_field_simps [simp]:
  "toml_field (JBool b) = Some (JBool b)" "toml_field (JNumber n) = Some (JNumber n)"
  "toml_field (JStr s) = Some (JStr s)" "toml_field (JArr xs) = Some (JArr (map toml_form xs))"
  "toml_field (JObj kvs) = Some (toml_form (JObj kvs))"
  by (simp_all add: toml_field_def)

lemma ucast_small [simp]: "(ucast (n :: u16) :: u64) < 0x10000" "(ucast (m :: u32) :: u64) < 0x100000000"
  using unat_bound [of n] unat_bound [of m] by (simp_all add: word_less_nat_alt unsigned_ucast_eq take_bit_eq_mod)

lemma ucast_back [simp]: "ucast (ucast (n :: u16) :: u64) = n" "ucast (ucast (m :: u32) :: u64) = m"
  by (rule bit_word_eqI, simp add: bit_ucast_iff)+

lemma optional_fields [simp]:
  "opt_u64 (Some (some_or_null (\<lambda>n. JNumber (PosInt n)) y)) = Some y"
  "opt_u16 (Some (some_or_null (\<lambda>n. JNumber (PosInt (ucast n))) z)) = Some z"
  "opt_str (toml_field (some_or_null JStr x)) = Some x"
  "opt_u64 (toml_field (some_or_null (\<lambda>n. JNumber (PosInt n)) y)) = Some y"
  "opt_u16 (toml_field (some_or_null (\<lambda>n. JNumber (PosInt (ucast n))) z)) = Some z"
  by (cases x; cases y; cases z;
      simp add: opt_str_def opt_u16_def opt_u64_def req_u64_def some_or_null_def toml_field_def)+

lemma req_u32_ucast [simp]: "req_u32 (Some (JNumber (PosInt (ucast (n :: u32))))) = Some n"
  by (simp add: req_u32_def req_u64_def)

lemma req_f64_float [simp]: "req_f64 (Some (JNumber (Float w))) = Some w"
  by (simp add: req_f64_def)

lemma req_vec_toml:
  "(\<And>x. of_json (toml_form (to_json x)) = Some x) \<Longrightarrow>
    req_vec of_json (Some (JArr (map (\<lambda>x. toml_form (to_json x)) xs))) = Some xs"
  by (simp add: req_vec_def o_def) (induction xs; simp)

lemma toml_field_sections [simp]:
  "toml_field (fsv_to_json a) = Some (toml_form (fsv_to_json a))"
  "toml_field (fcl_to_json b) = Some (toml_form (fcl_to_json b))"
  "toml_field (fpl_to_json c) = Some (toml_form (fpl_to_json c))"
  "toml_field (fsc_to_json d) = Some (toml_form (fsc_to_json d))"
  "toml_field (flg_to_json e) = Some (toml_form (flg_to_json e))"
  "toml_field (fmo_to_json g) = Some (toml_form (fmo_to_json g))"
  "toml_field (frl_to_json r) = Some (toml_form (frl_to_json r))"
  by (simp_all add: fsv_to_json_def fcl_to_json_def fpl_to_json_def fsc_to_json_def flg_to_json_def
      fmo_to_json_def frl_to_json_def)

lemma req_vec_doc: "(\<And>x. of_json (to_json x) = Some x) \<Longrightarrow> req_vec of_json (Some (JArr (map to_json xs))) = Some xs"
  by (simp add: req_vec_def del: map_map)

lemmas section_simps = struct_fields_obj struct_fields_toml req_str_def req_bool_def req_u64_def o_def
  req_vec_doc req_vec_toml

lemma fsv_roundtrip [simp]: "fsv_of_json (fsv_to_json x) = Some x" "fsv_of_json (toml_form (fsv_to_json x)) = Some x"
  by (simp_all add: fsv_of_json_def fsv_to_json_def section_simps)

lemma fcl_roundtrip [simp]: "fcl_of_json (fcl_to_json x) = Some x" "fcl_of_json (toml_form (fcl_to_json x)) = Some x"
  by (simp_all add: fcl_of_json_def fcl_to_json_def section_simps)

lemma fpl_roundtrip [simp]: "fpl_of_json (fpl_to_json x) = Some x" "fpl_of_json (toml_form (fpl_to_json x)) = Some x"
  by (simp_all add: fpl_of_json_def fpl_to_json_def section_simps)

lemma ake_roundtrip [simp]: "ake_of_json (ake_to_json x) = Some x" "ake_of_json (toml_form (ake_to_json x)) = Some x"
  by (simp_all add: ake_of_json_def ake_to_json_def section_simps)

lemma tke_roundtrip [simp]: "tke_of_json (tke_to_json x) = Some x" "tke_of_json (toml_form (tke_to_json x)) = Some x"
  by (simp_all add: tke_of_json_def tke_to_json_def section_simps)

lemma frl_roundtrip [simp]: "frl_of_json (frl_to_json x) = Some x" "frl_of_json (toml_form (frl_to_json x)) = Some x"
  by (simp_all add: frl_of_json_def frl_to_json_def section_simps)

lemma fsc_roundtrip [simp]: "fsc_of_json (fsc_to_json x) = Some x" "fsc_of_json (toml_form (fsc_to_json x)) = Some x"
  by (simp_all add: fsc_of_json_def fsc_to_json_def section_simps)

lemma flg_roundtrip [simp]: "flg_of_json (flg_to_json x) = Some x" "flg_of_json (toml_form (flg_to_json x)) = Some x"
  by (simp_all add: flg_of_json_def flg_to_json_def section_simps)

lemma far_roundtrip [simp]: "far_of_json (far_to_json x) = Some x" "far_of_json (toml_form (far_to_json x)) = Some x"
  by (simp_all add: far_of_json_def far_to_json_def section_simps)

lemma fmo_roundtrip [simp]: "fmo_of_json (fmo_to_json x) = Some x" "fmo_of_json (toml_form (fmo_to_json x)) = Some x"
  by (simp_all add: fmo_of_json_def fmo_to_json_def section_simps)

lemma cg_roundtrip: "cg_of_json (cg_to_json x) = Some x" "cg_of_json (toml_form (cg_to_json x)) = Some x"
  by (simp_all add: cg_of_json_def cg_to_json_def section_simps)

interpretation config_doc: json_struct cg_to_json cg_of_json "\<lambda>_. True"
  by unfold_locales (rule cg_roundtrip)

interpretation toml_config: json_struct "\<lambda>c. toml_form (cg_to_json c)" cg_of_json "\<lambda>_. True"
  by unfold_locales (rule cg_roundtrip)

lemmas section_docs = cg_to_json_def fsv_to_json_def fcl_to_json_def fpl_to_json_def fsc_to_json_def
  flg_to_json_def fmo_to_json_def frl_to_json_def ake_to_json_def tke_to_json_def far_to_json_def

lemma optional_doc:
  "text_doc (some_or_null JStr x) = list_all utf8 (listed x)"
  "text_doc (some_or_null (\<lambda>n. JNumber (PosInt n)) y)"
  "text_doc (some_or_null (\<lambda>n. JNumber (PosInt (ucast n))) z)"
  "toml_ints (some_or_null JStr x)"
  "toml_ints (some_or_null (\<lambda>n. JNumber (PosInt n)) y) = list_all (\<lambda>n. n < 0x8000000000000000) (listed y)"
  "toml_ints (some_or_null (\<lambda>n. JNumber (PosInt (ucast (n :: u16)))) z)"
  "depth (some_or_null JStr x) = 0"
  "depth (some_or_null (\<lambda>n. JNumber (PosInt n)) y) = 0"
  "depth (some_or_null (\<lambda>n. JNumber (PosInt (ucast n))) z) = 0"
  by (cases x; cases y; cases z; simp add: some_or_null_def listed_def order_less_trans [OF ucast_small(1)])+

lemma text_doc_config:
  assumes "rust_config c"
  shows "text_doc (cg_to_json c)"
  using assms
  by (simp add: section_docs optional_doc rust_config_def config_strings_def list_all_iff utf8_def) blast

lemma toml_ints_config: "toml_ints (cg_to_json c) = list_all (\<lambda>n. n < 0x8000000000000000) (config_ints c)"
  by (auto simp: section_docs optional_doc config_ints_def Let_def list_all_iff
      order_less_trans [OF ucast_small(2)])

lemma fold_max_le: "fold max ns m \<le> (n :: nat) \<longleftrightarrow> m \<le> n \<and> list_all (\<lambda>k. k \<le> n) ns"
  by (induction ns arbitrary: m) auto

lemma depth_le:
  "depth (JArr xs) \<le> n \<longleftrightarrow> 0 < n \<and> list_all (\<lambda>x. depth x \<le> n - 1) xs"
  "depth (JObj kvs) \<le> n \<longleftrightarrow> 0 < n \<and> list_all (\<lambda>(k, v). depth v \<le> n - 1) kvs"
  by (cases n; simp add: fold_max_le list_all_iff case_prod_unfold)+

lemma depth_config: "depth (cg_to_json c) \<le> 5"
  by (simp add: section_docs depth_le optional_doc list_all_iff del: depth.simps(1,2))

section \<open>Settings that must be there\<close>

definition required_settings :: "string list list" where
  "required_settings = concat (map (\<lambda>(s, ks). map (\<lambda>k. [s, k]) ks)
     [(''server'', [''request_timeout_secs'', ''idle_timeout_secs'', ''max_request_size'', ''max_connections'',
        ''enable_streaming'', ''enable_schema_introspection'']),
      (''client'', [''connect_timeout_secs'', ''request_timeout_secs'', ''idle_timeout_secs'',
        ''heartbeat_interval_secs'', ''max_reconnect_attempts'', ''reconnect_delay_secs'']),
      (''pool'', [''max_concurrent'', ''max_pool_size'', ''connection_timeout_secs'', ''request_timeout_secs'',
        ''circuit_breaker_threshold'', ''circuit_breaker_timeout_secs'']),
      (''security'', [''api_keys'', ''tokens'', ''rate_limit'']),
      (''logging'', [''level'', ''format'', ''output'']),
      (''monitoring'', [''enabled'', ''alert_rules''])])
     @ [[''security'', ''rate_limit'', ''enabled''], [''security'', ''rate_limit'', ''max_requests''],
        [''security'', ''rate_limit'', ''window_secs'']]"

fun missing :: "string list \<Rightarrow> json \<Rightarrow> bool" where
  "missing [] j = False"
| "missing (k # ks) (JObj kvs) = (case map_of kvs k of None \<Rightarrow> True | Some v \<Rightarrow> missing ks v)"
| "missing (k # ks) _ = False"

lemma missing_obj: "missing p j \<Longrightarrow> \<exists>kvs k ks. j = JObj kvs \<and> p = k # ks"
  by (cases "(p, j)" rule: missing.cases) auto

lemma struct_fields_missing:
  "struct_fields names (JObj kvs) = (if list_all (\<lambda>n. length (filter (\<lambda>kv. fst kv = n) kvs) \<le> 1) names
     then Some (map (map_of kvs) names) else None)"
  by (simp add: struct_fields_def)

lemma req_absent:
  "req_str None = None" "req_bool None = None" "req_u64 None = None" "req_u32 None = None" "req_vec f None = None"
  by (simp_all add: req_str_def req_bool_def req_u64_def req_u32_def req_vec_def)

lemmas absent_simps = struct_fields_missing req_absent required_settings_def

lemma fsv_missing: "map_of kvs k = None \<Longrightarrow> [''server'', k] \<in> set required_settings \<Longrightarrow> fsv_of_json (JObj kvs) = None"
  unfolding absent_simps fsv_of_json_def by (auto simp: absent_simps split: option.split)

lemma fcl_missing: "map_of kvs k = None \<Longrightarrow> [''client'', k] \<in> set required_settings \<Longrightarrow> fcl_of_json (JObj kvs) = None"
  unfolding absent_simps fcl_of_json_def by (auto simp: absent_simps split: option.split)

lemma fpl_missing: "map_of kvs k = None \<Longrightarrow> [''pool'', k] \<in> set required_settings \<Longrightarrow> fpl_of_json (JObj kvs) = None"
  unfolding absent_simps fpl_of_json_def by (auto simp: absent_simps split: option.split)

lemma fsc_missing: "map_of kvs k = None \<Longrightarrow> [''security'', k] \<in> set required_settings \<Longrightarrow> fsc_of_json (JObj kvs) = None"
  unfolding absent_simps fsc_of_json_def by (auto simp: absent_simps split: option.split)

lemma flg_missing: "map_of kvs k = None \<Longrightarrow> [''logging'', k] \<in> set required_settings \<Longrightarrow> flg_of_json (JObj kvs) = None"
  unfolding absent_simps flg_of_json_def by (auto simp: absent_simps split: option.split)

lemma fmo_missing: "map_of kvs k = None \<Longrightarrow> [''monitoring'', k] \<in> set required_settings \<Longrightarrow> fmo_of_json (JObj kvs) = None"
  unfolding absent_simps fmo_of_json_def by (auto simp: absent_simps split: option.split)

lemma frl_missing: "map_of kvs k = None \<Longrightarrow> [''security'', ''rate_limit'', k] \<in> set required_settings \<Longrightarrow> frl_of_json (JObj kvs) = None"
  unfolding absent_simps frl_of_json_def by (auto simp: absent_simps split: option.split)

lemma fsc_rate_limit_bad:
  "map_of kvs ''rate_limit'' = Some v \<Longrightarrow> frl_of_json v = None \<Longrightarrow> fsc_of_json (JObj kvs) = None"
  unfolding fsc_of_json_def by (simp add: struct_fields_missing split: option.split)

lemma cg_sections:
  "cg_of_json (JObj kvs) = Some c \<Longrightarrow>
    Option.bind (map_of kvs ''server'') fsv_of_json \<noteq> None
    \<and> Option.bind (map_of kvs ''client'') fcl_of_json \<noteq> None
    \<and> Option.bind (map_of kvs ''pool'') fpl_of_json \<noteq> None
    \<and> Option.bind (map_of kvs ''security'') fsc_of_json \<noteq> None
    \<and> Option.bind (map_of kvs ''logging'') flg_of_json \<noteq> None
    \<and> Option.bind (map_of kvs ''monitoring'') fmo_of_json \<noteq> None"
  unfolding cg_of_json_def struct_fields_missing by (simp split: if_splits) (simp split: option.splits)

lemma section_missing:
  assumes "s # ks \<in> set required_settings" and "missing ks v"
  shows "(s = ''server'' \<longrightarrow> fsv_of_json v = None)
    \<and> (s = ''client'' \<longrightarrow> fcl_of_json v = None)
    \<and> (s = ''pool'' \<longrightarrow> fpl_of_json v = None)
    \<and> (s = ''security'' \<longrightarrow> fsc_of_json v = None)
    \<and> (s = ''logging'' \<longrightarrow> flg_of_json v = None)
    \<and> (s = ''monitoring'' \<longrightarrow> fmo_of_json v = None)"
proof -
  obtain kvs k r where v: "v = JObj kvs" and ks: "ks = k # r" using missing_obj [OF assms(2)] by blast
  consider (absent) "r = []" "map_of kvs k = None"
    | (rate) w where "s = ''security''" "k = ''rate_limit''" "map_of kvs k = Some w" "missing r w"
    | (rate_absent) "s = ''security''" "k = ''rate_limit''" "map_of kvs k = None"
    using assms ks v by (auto simp: required_settings_def split: option.splits)
  then show ?thesis
  proof cases
    case absent
    with assms(1) show ?thesis
      by (auto simp: v ks intro: fsv_missing fcl_missing fpl_missing fsc_missing flg_missing fmo_missing)
  next
    case rate
    obtain ws n q where "w = JObj ws" "r = n # q" using missing_obj [OF rate(4)] by blast
    with assms(1) rate have "frl_of_json w = None"
      by (auto simp: ks required_settings_def split: option.splits intro: frl_missing)
    with rate show ?thesis by (simp add: v fsc_rate_limit_bad)
  next
    case rate_absent
    then show ?thesis by (simp add: v fsc_missing required_settings_def)
  qed
qed

lemma missing_rejected:
  assumes "p \<in> set required_settings" and "missing p j"
  shows "cg_of_json j = None"
proof (rule ccontr)
  obtain kvs s ks where j: "j = JObj kvs" and p: "p = s # ks" using missing_obj [OF assms(2)] by blast
  assume "cg_of_json j \<noteq> None"
  then obtain c where c: "cg_of_json (JObj kvs) = Some c" using j by auto
  have s: "s \<in> {''server'', ''client'', ''pool'', ''security'', ''logging'', ''monitoring''}"
    using assms(1) by (auto simp: p required_settings_def)
  obtain v where v: "map_of kvs s = Some v"
    using cg_sections [OF c] s by (cases "map_of kvs s") auto
  then have "missing ks v" using assms(2) by (simp add: j p)
  from s section_missing [OF assms(1) [unfolded p] this] cg_sections [OF c] v show False
    by (elim insertE emptyE) simp_all
qed

section \<open>Properties\<close>

text \<open>
  C33. What is written is what is read. Under what the two crates promise, a configuration is
  written to YAML and read back unchanged; it is written to TOML, and read back unchanged from a
  file of that text, exactly when none of its integers is above the largest \<^verbatim>\<open>i64\<close>; otherwise
  writing it is an error.
\<close>

theorem config_roundtrip:
  assumes "toml_law toml" and "yaml_law yaml" and "rust_config c"
  shows "(if list_all (\<lambda>n. n < 0x8000000000000000) (config_ints c)
      then \<exists>s. to_toml toml c = Inr s \<and> from_file toml (Inr s) = Inr c
      else \<exists>m. to_toml toml c = Inl (SerializeError m))
    \<and> (\<exists>s. to_yaml yaml c = Inr s \<and> from_yaml yaml s = Inr c)"
proof -
  obtain kvs where doc: "cg_to_json c = JObj kvs" by (simp add: cg_to_json_def)
  have ok: "text_doc (JObj kvs)" "depth (JObj kvs) < 64"
    using text_doc_config [OF assms(3)] depth_config [of c] by (simp_all only: doc [symmetric])
  have again: "cg_of_json (JObj kvs) = Some c" "cg_of_json (toml_form (JObj kvs)) = Some c"
    using cg_roundtrip [of c] by (simp_all only: doc)
  have "\<exists>s. tx_print yaml (JObj kvs) = Inr s \<and> tx_parse yaml s = Inr (JObj kvs)"
    using assms(2) ok unfolding yaml_law_def by meson
  moreover have "if toml_ints (JObj kvs)
      then \<exists>s. tx_print toml (JObj kvs) = Inr s \<and> tx_parse toml s = Inr (toml_form (JObj kvs))
      else \<exists>m. tx_print toml (JObj kvs) = Inl m"
    using assms(1) ok unfolding toml_law_def by meson
  ultimately show ?thesis
    using toml_ints_config [of c] again
    by (fastforce simp: doc to_toml_def from_file_def from_toml_def to_yaml_def from_yaml_def to_text_def from_text_def
        split: if_splits)
qed

text \<open>
  A configuration file must name every setting: although each section has defaults, a file in
  which any of the required settings is missing is refused, whatever else it says.
\<close>

theorem partial_config_refused:
  assumes "tx_parse toml content = Inr j" and "p \<in> set required_settings" and "missing p j"
  shows "from_file toml (Inr content) = Inl (ParseError (tx_mismatch toml content))"
  using assms missing_rejected by (simp add: from_file_def from_toml_def from_text_def)

section \<open>Formats that keep the promises\<close>

definition text_of :: "bytes \<Rightarrow> string" where
  "text_of bs = map (\<lambda>b. char_of (unat b)) bs"

definition bytes_of :: "string \<Rightarrow> bytes" where
  "bytes_of s = map (\<lambda>c. of_nat (of_char c)) s"

definition plain_format :: "(json \<Rightarrow> bool) \<Rightarrow> (json \<Rightarrow> json) \<Rightarrow> text_format" where
  "plain_format ok form = \<lparr>
     tx_print = (\<lambda>j. if ok j then Inr (text_of (put_json (form j))) else Inl ''number out of range''),
     tx_parse = (\<lambda>s. case tagged_parse (bytes_of s) of None \<Rightarrow> Inl ''syntax'' | Some j \<Rightarrow> Inr j),
     tx_mismatch = (\<lambda>s. ''not a configuration'')\<rparr>"

lemma bytes_of_text_of [simp]: "bytes_of (text_of bs) = bs"
proof -
  have "of_nat (of_char (char_of (unat b) :: char)) = b" for b :: u8
    using unat_bound [of b] by (simp add: take_bit_nat_eq_self)
  then show ?thesis by (simp add: bytes_of_def text_of_def o_def map_idI)
qed

lemma tagged_parse_put [simp]: "tagged_parse (put_json j) = Some j"
  using take_json_put [of j "length (put_json j)" "[]"] by (simp add: tagged_parse_def)

lemma plain_toml_law: "toml_law (plain_format toml_ints toml_form)"
  by (simp add: toml_law_def plain_format_def Let_def)

lemma plain_yaml_law: "yaml_law (plain_format (\<lambda>_. True) (\<lambda>j. j))"
  by (simp add: yaml_law_def plain_format_def Let_def)

definition sample_config :: config where
  "sample_config = cg_default\<lparr>
     cg_server := fsv_default\<lparr>fsv_path := Some ''/tmp/a.sock''\<rparr>,
     cg_security := fsc_default\<lparr>fsc_tokens := [\<lparr>tke_token = ''t'', tke_client_id = ''c'', tke_permissions = [''read''],
       tke_ttl_secs = Some 60\<rparr>]\<rparr>,
     cg_monitoring := fmo_default\<lparr>fmo_alert_rules := [\<lparr>far_name = ''slow'', far_metric = ''p99'', far_condition = ''>'',
       far_threshold = f64_of_nat 500\<rparr>]\<rparr>\<rparr>"

lemmas defaults = cg_default_def fsv_default_def fcl_default_def fpl_default_def fsc_default_def frl_default_def
  flg_default_def fmo_default_def

lemma sample_threshold: "f64_of_nat 500 = 0x407F400000000000"
  by (simp add: f64_of_nat_def bit_length.simps)

lemma config_roundtrip_witness:
  "\<exists>s. to_toml (plain_format toml_ints toml_form) sample_config = Inr s
    \<and> from_file (plain_format toml_ints toml_form) (Inr s) = Inr sample_config"
proof -
  have "rust_config sample_config"
    by (simp add: rust_config_def config_strings_def listed_def sample_config_def defaults utf8_def sample_threshold
        is_nan_def)
  from config_roundtrip [OF plain_toml_law plain_yaml_law this]
  have *: "if list_all (\<lambda>n. n < 0x8000000000000000) (config_ints sample_config)
    then \<exists>s. to_toml (plain_format toml_ints toml_form) sample_config = Inr s
      \<and> from_file (plain_format toml_ints toml_form) (Inr s) = Inr sample_config
    else \<exists>m. to_toml (plain_format toml_ints toml_form) sample_config = Inl (SerializeError m)" by (rule conjunct1)
  have "list_all (\<lambda>n. n < 0x8000000000000000) (config_ints sample_config)"
    by (simp add: config_ints_def listed_def sample_config_def defaults Let_def)
  with * show ?thesis by simp
qed

text \<open>A file that sets one number only.\<close>

definition partial_document :: json where
  "partial_document = JObj [(''server'', JObj [(''max_connections'', JNumber (PosInt 100))])]"

lemma partial_config_refused_witness:
  "from_file (plain_format toml_ints toml_form) (Inr (text_of (put_json partial_document)))
    = Inl (ParseError ''not a configuration'')"
proof -
  have "tx_parse (plain_format toml_ints toml_form) (text_of (put_json partial_document)) = Inr partial_document"
    by (simp add: plain_format_def)
  from partial_config_refused [OF this, of "[''server'', ''idle_timeout_secs'']"] show ?thesis
    by (simp add: required_settings_def partial_document_def) (simp add: plain_format_def)
qed

end
