(* ===== verification/Shutdown.thy ===== *)
theory Shutdown
  imports Prelude
begin

text \<open>
  Graceful shutdown (\<^verbatim>\<open>src/src/shutdown.rs\<close>): a broadcast channel of capacity one whose only
  receiver is shared behind a mutex by all who wait. A message carries nothing, so the channel is
  the number of messages sent and the number the receiver has seen or skipped; a receiver that is
  more than one message behind is told so, and goes on with the last one.
\<close>

section \<open>The channel and its waiters\<close>

record 'w graceful_shutdown =
  gs_sent :: nat
  gs_seen :: nat
  gs_waiters :: "'w list"
  gs_released :: "'w list"

definition gs_new :: "'w graceful_shutdown" where
  "gs_new = \<lparr>gs_sent = 0, gs_seen = 0, gs_waiters = [], gs_released = []\<rparr>"

text \<open>The sender, also through a clone of it. The receiver lives as long as the sender, so sending succeeds.\<close>

definition trigger :: "'w graceful_shutdown \<Rightarrow> 'w graceful_shutdown" where
  "trigger g = g\<lparr>gs_sent := gs_sent g + 1\<rparr>"

text \<open>\<open>None\<close>: the call waits on. A lagging receiver returns as well, with an error that is ignored.\<close>

definition recv :: "'w graceful_shutdown \<Rightarrow> 'w graceful_shutdown option" where
  "recv g =
     (if gs_seen g = gs_sent g then None
      else if gs_sent g - gs_seen g > 1 then Some (g\<lparr>gs_seen := gs_sent g - 1\<rparr>)
      else Some (g\<lparr>gs_seen := gs_seen g + 1\<rparr>))"

text \<open>
  \<open>wait_begin\<close> queues for the mutex, which is fair; the one at the front holds it and receives.
  A waiter that is dropped, as \<^verbatim>\<open>select!\<close> does, leaves the queue from where it is.
\<close>

definition wait_begin :: "'w \<Rightarrow> 'w graceful_shutdown \<Rightarrow> 'w graceful_shutdown" where
  "wait_begin w g = g\<lparr>gs_waiters := gs_waiters g @ [w]\<rparr>"

definition wait_poll :: "'w graceful_shutdown \<Rightarrow> 'w graceful_shutdown option" where
  "wait_poll g = (case gs_waiters g of
       [] \<Rightarrow> None
     | w # ws \<Rightarrow> map_option (\<lambda>g. g\<lparr>gs_waiters := ws, gs_released := w # gs_released g\<rparr>) (recv g))"

definition wait_drop :: "'w \<Rightarrow> 'w graceful_shutdown \<Rightarrow> 'w graceful_shutdown" where
  "wait_drop w g = g\<lparr>gs_waiters := remove1 w (gs_waiters g)\<rparr>"

inductive gs_step :: "'w graceful_shutdown \<Rightarrow> 'w graceful_shutdown \<Rightarrow> bool" where
  gs_trigger: "gs_step g (trigger g)"
| gs_wait: "gs_step g (wait_begin w g)"
| gs_poll: "wait_poll g = Some g' \<Longrightarrow> gs_step g g'"
| gs_drop: "gs_step g (wait_drop w g)"

definition gs_ok :: "'w graceful_shutdown \<Rightarrow> bool" where
  "gs_ok g \<longleftrightarrow> length (gs_released g) \<le> gs_seen g \<and> gs_seen g \<le> gs_sent g"

lemma wait_pollE:
  assumes "wait_poll g = Some g'"
  obtains w ws where "gs_waiters g = w # ws" "gs_seen g \<noteq> gs_sent g" "gs_waiters g' = ws"
    "gs_released g' = w # gs_released g" "gs_sent g' = gs_sent g"
    "gs_seen g' = (if gs_sent g - gs_seen g > 1 then gs_sent g - 1 else gs_seen g + 1)"
  using assms by (auto simp: wait_poll_def recv_def split: list.splits if_splits)

interpretation shutdown: invariant_system "\<lambda>g. g = gs_new" gs_step gs_ok
proof
  fix g g' :: "'w graceful_shutdown"
  assume "gs_step g g'" and "gs_ok g"
  then show "gs_ok g'"
    by cases (auto simp: gs_ok_def trigger_def wait_begin_def wait_drop_def elim!: wait_pollE)
qed (simp add: gs_ok_def gs_new_def)

section \<open>Who is released\<close>

lemma wait_poll_iff: "(\<exists>g'. wait_poll g = Some g') \<longleftrightarrow> gs_waiters g \<noteq> [] \<and> gs_seen g \<noteq> gs_sent g"
  by (auto simp: wait_poll_def recv_def split: list.splits)

text \<open>
  C34. A trigger releases one waiter, not all of them. In every interleaving of calls that wait,
  triggers and dropped calls, no more waiters have been released than there were triggers; whoever
  waits at the front is released by the next poll exactly when a trigger is unused; and a burst of
  triggers while nobody waits releases at most two.
\<close>

theorem trigger_releases_one:
  assumes "reachable (\<lambda>g. g = gs_new) gs_step g"
  shows "length (gs_released g) \<le> gs_sent g
    \<and> ((\<exists>g'. wait_poll g = Some g') = (gs_waiters g \<noteq> [] \<and> gs_seen g < gs_sent g))
    \<and> (case Option.bind (wait_poll g) wait_poll of None \<Rightarrow> True | Some g2 \<Rightarrow> wait_poll g2 = None)"
proof -
  have ok: "gs_ok g" by (rule shutdown.reachable_inv [OF assms])
  have "wait_poll g2 = None" if two: "wait_poll g = Some g1" "wait_poll g1 = Some g2" for g1 g2
  proof -
    from two(1) obtain "gs_seen g \<noteq> gs_sent g" "gs_sent g1 = gs_sent g"
      "gs_seen g1 = (if gs_sent g - gs_seen g > 1 then gs_sent g - 1 else gs_seen g + 1)"
      by (elim wait_pollE)
    moreover from two(2) obtain "gs_seen g1 \<noteq> gs_sent g1" "gs_sent g2 = gs_sent g1"
      "gs_seen g2 = (if gs_sent g1 - gs_seen g1 > 1 then gs_sent g1 - 1 else gs_seen g1 + 1)" by (elim wait_pollE)
    ultimately have "gs_seen g2 = gs_sent g2" using ok by (auto simp: gs_ok_def split: if_splits)
    then show ?thesis using wait_poll_iff [of g2] by (cases "wait_poll g2") auto
  qed
  moreover have "length (gs_released g) \<le> gs_sent g" "gs_seen g \<noteq> gs_sent g \<longleftrightarrow> gs_seen g < gs_sent g"
    using ok by (auto simp: gs_ok_def)
  ultimately show ?thesis
    unfolding wait_poll_iff by (cases "wait_poll g"; cases "Option.bind (wait_poll g) wait_poll") auto
qed

text \<open>Two wait, one trigger: one is released and the other waits on.\<close>

lemma trigger_releases_one_witness:
  "let g = the (wait_poll (trigger (wait_begin 2 (wait_begin (1 :: nat) gs_new))))
   in gs_released g = [1] \<and> gs_waiters g = [2] \<and> length (gs_released g) \<le> gs_sent g \<and> wait_poll g = None"
proof -
  let ?g = "the (wait_poll (trigger (wait_begin 2 (wait_begin (1 :: nat) gs_new))))"
  let ?R = "reachable (\<lambda>g. g = gs_new) gs_step"
  have "?R gs_new" by (rule reach_init) simp
  then have "?R (wait_begin (1 :: nat) gs_new)" by (rule reach_step) (rule gs_wait)
  then have "?R (wait_begin 2 (wait_begin (1 :: nat) gs_new))" by (rule reach_step) (rule gs_wait)
  then have "?R (trigger (wait_begin 2 (wait_begin (1 :: nat) gs_new)))" by (rule reach_step) (rule gs_trigger)
  then have "?R ?g"
    by (rule reach_step)
      (rule gs_poll, simp add: wait_poll_def recv_def trigger_def wait_begin_def gs_new_def)
  from trigger_releases_one [OF this]
  show ?thesis by (simp add: Let_def wait_poll_def recv_def trigger_def wait_begin_def gs_new_def)
qed

section \<open>Running a server\<close>

text \<open>
  \<^verbatim>\<open>select!\<close> goes on with the first of its futures that is ready and drops the others, the
  server among them. Nobody else has the sender of the channel made here.
\<close>

datatype first_ready = ServerEnded "unit result" | ShutdownReceived | CtrlC

text \<open>\<open>None\<close> would be a wait without end after the key.\<close>

definition run_with_graceful_shutdown :: "first_ready \<Rightarrow> unit result option" where
  "run_with_graceful_shutdown first =
     (case first of
        ServerEnded _ \<Rightarrow> Some (Ok ())
      | ShutdownReceived \<Rightarrow> Some (Ok ())
      | CtrlC \<Rightarrow> (case recv (trigger (gs_new :: unit graceful_shutdown)) of None \<Rightarrow> None | Some _ \<Rightarrow> Some (Ok ())))"

text \<open>It always returns, and always \<open>Ok\<close>, also when the server failed.\<close>

lemma run_always_ok: "run_with_graceful_shutdown first = Some (Ok ())"
  by (simp add: run_with_graceful_shutdown_def recv_def trigger_def gs_new_def split: first_ready.split)

end
