(* ===== verification/Tls.thy ===== *)
theory Tls
  imports Prelude
begin

text \<open>
  TLS (\<^verbatim>\<open>src/src/tls.rs\<close>): the configuration, and the client that connects with it. The library
  \<^verbatim>\<open>native_tls\<close> is a parameter: it builds a connector from the settings, and makes the TLS
  handshake with a connector and a domain on a connected stream.
\<close>

section \<open>Configuration and client\<close>

record ('id, 'conn, 'tcp, 'st) tls_library =
  tl_build :: "bool \<Rightarrow> 'id option \<Rightarrow> string + 'conn" \<comment> \<open>accept invalid certificates, identity\<close>
  tl_connect :: "'conn \<Rightarrow> string \<Rightarrow> 'tcp \<Rightarrow> string + 'st"

record 'id tls_config =
  tc_identity :: "'id option"
  tc_accept_invalid_certs :: bool

definition tls_config_new :: "'id tls_config" where
  "tls_config_new = \<lparr>tc_identity = None, tc_accept_invalid_certs = False\<rparr>"

definition with_identity :: "'id \<Rightarrow> 'id tls_config \<Rightarrow> 'id tls_config" where
  "with_identity ident c = c\<lparr>tc_identity := Some ident\<rparr>"

definition accept_invalid_certs :: "'id tls_config \<Rightarrow> 'id tls_config" where
  "accept_invalid_certs c = c\<lparr>tc_accept_invalid_certs := True\<rparr>"

definition tls_build :: "('id, 'conn, 'tcp, 'st) tls_library \<Rightarrow> 'id tls_config \<Rightarrow> 'conn result" where
  "tls_build lib c =
     (case tl_build lib (tc_accept_invalid_certs c) (tc_identity c) of
        Inl e \<Rightarrow> Err (ConnectionFailed e) | Inr conn \<Rightarrow> Ok conn)"

text \<open>The text of an error, by which an error is wrapped in another.\<close>

definition error_text :: "protocol_error \<Rightarrow> string" where
  "error_text e = (case e of
       ConnectionFailed m \<Rightarrow> ''Connection failed: '' @ m
     | ConnectionClosed \<Rightarrow> ''Connection closed''
     | Timeout \<Rightarrow> ''Request timeout''
     | InvalidMessage m \<Rightarrow> ''Invalid message: '' @ m
     | NotFound m \<Rightarrow> ''Service not found: '' @ m
     | Protocol m \<Rightarrow> ''Protocol error: '' @ m
     | Encoding m \<Rightarrow> ''Encoding error: '' @ m
     | ResourceExhausted m \<Rightarrow> ''Resource exhausted: '' @ m
     | Server m \<Rightarrow> ''Server error: '' @ m)"

record 'conn tls_client =
  tk_connector :: 'conn
  tk_addr :: string

definition tls_client_new :: "('id, 'conn, 'tcp, 'st) tls_library \<Rightarrow> 'id tls_config \<Rightarrow> string \<Rightarrow> 'conn tls_client result" where
  "tls_client_new lib c addr =
     (case tls_build lib c of
        Inl e \<Rightarrow> Err (ConnectionFailed (error_text e))
      | Inr conn \<Rightarrow> Ok \<lparr>tk_connector = conn, tk_addr = addr\<rparr>)"

text \<open>\<open>dial\<close> is what connecting to an address, with its port, comes to.\<close>

definition tls_connect :: "('id, 'conn, 'tcp, 'st) tls_library \<Rightarrow> (string \<Rightarrow> string + 'tcp) \<Rightarrow> 'conn tls_client \<Rightarrow> 'st result" where
  "tls_connect lib dial cl =
     (case dial (tk_addr cl) of
        Inl e \<Rightarrow> Err (ConnectionFailed e)
      | Inr stream \<Rightarrow>
          (case tl_connect lib (tk_connector cl) (tk_addr cl) stream of
             Inl e \<Rightarrow> Err (ConnectionFailed e)
           | Inr st \<Rightarrow> Ok st))"

section \<open>The name that is verified\<close>

text \<open>
  The promise of the library: unless invalid certificates are accepted, the handshake succeeds
  only with a server whose certificate is for the domain. \<open>names\<close> are those of the certificate a
  server presents.
\<close>

definition tls_law :: "('id, 'conn, 'tcp, 'st) tls_library \<Rightarrow> ('tcp \<Rightarrow> string set) \<Rightarrow> bool" where
  "tls_law lib names \<longleftrightarrow>
     (\<forall>ident conn domain stream. tl_build lib False ident = Inr conn \<and> domain \<notin> names stream
        \<longrightarrow> (\<exists>e. tl_connect lib conn domain stream = Inl e))"

text \<open>An address that can be connected to has a port.\<close>

definition host_of :: "string \<Rightarrow> string" where
  "host_of addr = takeWhile (\<lambda>c. c \<noteq> CHR '':'') addr"

text \<open>
  A \<open>TlsClient\<close> that verifies certificates connects to nobody. It asks for a certificate of its
  whole address, with the port: when certificates name hosts, without a colon, every connection
  fails, with the right host as well, whatever identity is set.
\<close>

theorem tls_client_never_connects:
  assumes "tls_law lib names" and "\<not> tc_accept_invalid_certs c" and "CHR '':'' \<in> set addr"
    and "\<forall>stream. \<forall>n \<in> names stream. CHR '':'' \<notin> set n"
  shows "case tls_client_new lib c addr of
      Inl e \<Rightarrow> \<exists>m. e = ConnectionFailed m
    | Inr cl \<Rightarrow> \<exists>m. tls_connect lib dial cl = Err (ConnectionFailed m)"
proof (cases "tl_build lib False (tc_identity c)")
  case (Inr conn)
  have "addr \<notin> names stream" for stream using assms(3,4) by blast
  with assms(1) Inr have "\<exists>e. tl_connect lib conn addr stream = Inl e" for stream
    unfolding tls_law_def by blast
  then show ?thesis
    using assms(2) Inr by (auto simp: tls_client_new_def tls_build_def tls_connect_def split: sum.split) (metis Inr_not_Inl)
qed (use assms(2) in \<open>simp add: tls_client_new_def tls_build_def\<close>)

text \<open>A library that checks the name, and a server whose certificate is for the host of the address.\<close>

definition name_checker :: "(unit, bool, string, string) tls_library" where
  "name_checker = \<lparr>tl_build = (\<lambda>accept _. Inr accept),
     tl_connect = (\<lambda>accept domain host. if accept \<or> domain = host_of host then Inr domain else Inl ''hostname mismatch'')\<rparr>"

lemma tls_client_never_connects_witness:
  "case tls_client_new name_checker tls_config_new ''example.org:443'' of
      Inl _ \<Rightarrow> False
    | Inr cl \<Rightarrow> \<exists>m. tls_connect name_checker (\<lambda>addr. Inr (host_of addr)) cl = Err (ConnectionFailed m)"
proof -
  have "CHR '':'' \<notin> set (host_of host)" for host
    by (auto simp: host_of_def dest: set_takeWhileD)
  then have names: "\<forall>host. \<forall>n \<in> {host_of host}. CHR '':'' \<notin> set n" by blast
  have "tls_law name_checker (\<lambda>host. {host_of host})"
    by (simp add: tls_law_def name_checker_def)
  from tls_client_never_connects [OF this _ _ names, of tls_config_new "''example.org:443''" "\<lambda>addr. Inr (host_of addr)"]
  show ?thesis by (simp add: tls_config_new_def tls_client_new_def tls_build_def name_checker_def)
qed

end
