(* ===== verification/Runtime.thy ===== *)
theory Runtime
  imports Prelude
begin

text \<open>
  The runtimes of \<^verbatim>\<open>src/src/runtime.rs\<close>: which runtime of tokio is built for which type. A runtime
  is given by its kind and the number of its workers; tokio builds as many workers as there are
  processors when none are asked for, and panics when asked for none at all.
\<close>

datatype runtime_type = SingleThread | MultiThreadWorkStealing | MultiThreadNoWorkStealing

definition runtime_type_default :: runtime_type where
  "runtime_type_default = SingleThread"

definition runtime_recommended :: runtime_type where
  "runtime_recommended = MultiThreadNoWorkStealing"

record protocol_runtime =
  rt_runtime_type :: runtime_type
  rt_threads :: "nat option"

definition runtime_new :: protocol_runtime where
  "runtime_new = \<lparr>rt_runtime_type = runtime_type_default, rt_threads = None\<rparr>"

definition with_type :: "runtime_type \<Rightarrow> protocol_runtime \<Rightarrow> protocol_runtime" where
  "with_type typ r = r\<lparr>rt_runtime_type := typ\<rparr>"

definition with_threads :: "nat \<Rightarrow> protocol_runtime \<Rightarrow> protocol_runtime" where
  "with_threads n r = r\<lparr>rt_threads := Some n\<rparr>"

definition get_thread_count :: "nat \<Rightarrow> protocol_runtime \<Rightarrow> nat" where
  "get_thread_count cpus r = (case rt_threads r of None \<Rightarrow> cpus | Some n \<Rightarrow> n)"

datatype tokio_runtime = CurrentThread | MultiThread nat \<comment> \<open>workers, which steal work from one another\<close>

definition worker_threads :: "nat \<Rightarrow> tokio_runtime option" where
  "worker_threads n = (if n = 0 then None else Some (MultiThread n))"

text \<open>\<open>None\<close> is the panic.\<close>

definition runtime_run :: "nat \<Rightarrow> protocol_runtime \<Rightarrow> tokio_runtime option" where
  "runtime_run cpus r =
     (case rt_runtime_type r of
        SingleThread \<Rightarrow> Some CurrentThread
      | MultiThreadWorkStealing \<Rightarrow> Some (MultiThread cpus)
      | MultiThreadNoWorkStealing \<Rightarrow> worker_threads (get_thread_count cpus r))"

text \<open>
  \<^verbatim>\<open>run_async\<close> calls \<^verbatim>\<open>run\<close> from a future; \<open>inside\<close> says whether a runtime of tokio
  runs that future, in which case blocking on another panics.
\<close>

definition run_async :: "bool \<Rightarrow> nat \<Rightarrow> protocol_runtime \<Rightarrow> tokio_runtime option" where
  "run_async inside cpus r = (if inside then None else runtime_run cpus r)"

definition create_runtime :: "nat \<Rightarrow> runtime_type \<Rightarrow> nat option \<Rightarrow> tokio_runtime option" where
  "create_runtime cpus typ threads =
     (case typ of
        SingleThread \<Rightarrow> Some CurrentThread
      | MultiThreadWorkStealing \<Rightarrow> Some (MultiThread cpus)
      | MultiThreadNoWorkStealing \<Rightarrow> worker_threads (case threads of None \<Rightarrow> cpus | Some n \<Rightarrow> n))"

text \<open>
  The two ways to build a runtime agree; without a number of threads the two multi-threaded types
  are the same work-stealing runtime, and a number of threads counts for one type only.
\<close>

lemma runtimes_agree: "runtime_run cpus r = create_runtime cpus (rt_runtime_type r) (rt_threads r)"
  by (cases "rt_runtime_type r") (simp_all add: runtime_run_def create_runtime_def get_thread_count_def)

lemma no_work_stealing_steals:
  "0 < cpus \<Longrightarrow> create_runtime cpus MultiThreadNoWorkStealing None = create_runtime cpus MultiThreadWorkStealing threads"
  by (simp add: create_runtime_def worker_threads_def)

lemma threads_ignored:
  "rt_runtime_type r \<noteq> MultiThreadNoWorkStealing \<Longrightarrow> runtime_run cpus (with_threads n r) = runtime_run cpus r"
  by (cases "rt_runtime_type r") (simp_all add: runtime_run_def with_threads_def)

end
