(* ===== verification/Webhook.thy ===== *)
theory Webhook
  imports Complex_Main Prelude
begin

text \<open>
  Outgoing notifications, \<^verbatim>\<open>src/src/webhook.rs\<close>, and the other timing helpers of the
  program: the backoff of \<^verbatim>\<open>RetryConfig\<close> and the connection test of
  \<^verbatim>\<open>HealthChecker\<close> (\<^verbatim>\<open>src/src/utils.rs\<close>). The HTTP client is a parameter: the
  outcome of each request, in order. \<^verbatim>\<open>f64\<close> delays are idealised to rationals.
\<close>

section \<open>Events and configuration\<close>

datatype webhook_event =
    RequestReceived string string string string
  | ResponseSent string string string u64 string
  | ErrorEvent string string string string
  | HealthCheck string string string

definition event_type :: "webhook_event \<Rightarrow> string" where
  "event_type e = (case e of
       RequestReceived _ _ _ _ \<Rightarrow> ''request_received''
     | ResponseSent _ _ _ _ _ \<Rightarrow> ''response_sent''
     | ErrorEvent _ _ _ _ \<Rightarrow> ''error''
     | HealthCheck _ _ _ \<Rightarrow> ''health_check'')"

record retry_policy =
  rp_max_retries :: u32
  rp_initial_delay_ms :: u64
  rp_max_delay_ms :: u64
  rp_backoff_multiplier :: rat

definition policy_default :: retry_policy where
  "policy_default = \<lparr>rp_max_retries = 3, rp_initial_delay_ms = 100, rp_max_delay_ms = 10000,
     rp_backoff_multiplier = 2\<rparr>"

definition policy_exponential :: "u32 \<Rightarrow> retry_policy" where
  "policy_exponential max_retries = \<lparr>rp_max_retries = max_retries, rp_initial_delay_ms = 100,
     rp_max_delay_ms = 30000, rp_backoff_multiplier = 2\<rparr>"

definition policy_linear :: "u32 \<Rightarrow> u64 \<Rightarrow> retry_policy" where
  "policy_linear max_retries delay_ms = \<lparr>rp_max_retries = max_retries, rp_initial_delay_ms = delay_ms,
     rp_max_delay_ms = delay_ms, rp_backoff_multiplier = 1\<rparr>"

text \<open>\<^verbatim>\<open>as u64\<close> of a float: towards zero, saturating.\<close>

definition trunc_u64 :: "rat \<Rightarrow> u64" where
  "trunc_u64 q = (if q < 0 then 0 else if \<lfloor>q\<rfloor> \<ge> 2 ^ 64 then - 1 else of_int \<lfloor>q\<rfloor>)"

definition delay_for_retry :: "retry_policy \<Rightarrow> u32 \<Rightarrow> duration" where
  "delay_for_retry p attempt =
     (let delay = trunc_u64 (of_nat (unat (rp_initial_delay_ms p)) * rp_backoff_multiplier p powi sint attempt)
      in from_millis (unat (min delay (rp_max_delay_ms p))))"

record webhook_config =
  wc_url :: string
  wc_headers :: "string \<rightharpoonup> string"
  wc_timeout_secs :: nat
  wc_retry_policy :: retry_policy

definition webhook_config_new :: "string \<Rightarrow> webhook_config" where
  "webhook_config_new url = \<lparr>wc_url = url, wc_headers = (\<lambda>_. None), wc_timeout_secs = 30,
     wc_retry_policy = policy_default\<rparr>"

definition with_header :: "string \<Rightarrow> string \<Rightarrow> webhook_config \<Rightarrow> webhook_config" where
  "with_header key val c = c\<lparr>wc_headers := (wc_headers c)(key \<mapsto> val)\<rparr>"

definition with_webhook_timeout :: "nat \<Rightarrow> webhook_config \<Rightarrow> webhook_config" where
  "with_webhook_timeout secs c = c\<lparr>wc_timeout_secs := secs\<rparr>"

definition with_retry_policy :: "retry_policy \<Rightarrow> webhook_config \<Rightarrow> webhook_config" where
  "with_retry_policy p c = c\<lparr>wc_retry_policy := p\<rparr>"

section \<open>Sending\<close>

datatype http_outcome = Status nat string | No_response string

definition is_success :: "http_outcome \<Rightarrow> bool" where
  "is_success r = (case r of Status n _ \<Rightarrow> 200 \<le> n \<and> n < 300 | No_response _ \<Rightarrow> False)"

definition give_up :: "u32 \<Rightarrow> http_outcome \<Rightarrow> protocol_error" where
  "give_up max_attempts r = (case r of
       Status _ text \<Rightarrow> Server (''Webhook failed after '' @ show_nat (unat max_attempts) @ '' attempts: HTTP '' @ text)
     | No_response e \<Rightarrow>
         ConnectionFailed (''Webhook failed after '' @ show_nat (unat max_attempts) @ '' attempts: '' @ e))"

text \<open>
  The loop of \<^verbatim>\<open>send\<close>. \<open>http\<close> gives the outcome of the request of each attempt; the result
  carries the number of requests made and the delays slept between them.
\<close>

function send_loop :: "retry_policy \<Rightarrow> u32 \<Rightarrow> (u32 \<Rightarrow> http_outcome) \<Rightarrow> u32 \<Rightarrow> unit result \<times> nat \<times> duration list" where
  "send_loop p max_attempts http attempt =
     (if is_success (http attempt) then (Ok (), 1, [])
      else if attempt \<ge> max_attempts - 1 then (Err (give_up max_attempts (http attempt)), 1, [])
      else
        let attempt = attempt + 1; delay = delay_for_retry p attempt in
        case send_loop p max_attempts http attempt of (r, n, ds) \<Rightarrow> (r, n + 1, delay # ds))"
  by pat_completeness auto
termination
proof (relation "measure (\<lambda>(p, max_attempts, http, attempt). unat (max_attempts - 1) - unat attempt)", goal_cases)
  case (2 p max_attempts http attempt x xa)
  then have less: "unat attempt < unat (max_attempts - 1)" by (simp add: word_le_nat_alt)
  then have "unat attempt + 1 < 2 ^ 32"
    using unat_bound [of "max_attempts - 1"] by simp
  then have "unat (attempt + 1) = unat attempt + 1" by (intro unat_succ_word) simp
  with less 2 show ?case by simp
qed simp

declare send_loop.simps [simp del]

definition send :: "webhook_config \<Rightarrow> (u32 \<Rightarrow> http_outcome) \<Rightarrow> unit result \<times> nat \<times> duration list" where
  "send c http = send_loop (wc_retry_policy c) (rp_max_retries (wc_retry_policy c) + 1) http 0"

fun notify :: "(webhook_config \<times> (u32 \<Rightarrow> http_outcome)) list \<Rightarrow> protocol_error list" where
  "notify [] = []"
| "notify ((c, http) # senders) =
     (case fst (send c http) of Inl e \<Rightarrow> e # notify senders | Inr _ \<Rightarrow> notify senders)"

text \<open>
  The service: a sender for each configuration, in order. The four kinds of events get the time
  of the call; each sender is given the outcomes of its own requests.
\<close>

record webhook_service =
  wb_senders :: "webhook_config list"

definition webhook_service_new :: webhook_service where
  "webhook_service_new = \<lparr>wb_senders = []\<rparr>"

definition add_webhook :: "webhook_config \<Rightarrow> webhook_service \<Rightarrow> webhook_service" where
  "add_webhook config w = w\<lparr>wb_senders := wb_senders w @ [config]\<rparr>"

definition notify_service :: "(nat \<Rightarrow> u32 \<Rightarrow> http_outcome) \<Rightarrow> webhook_event \<Rightarrow> webhook_service
    \<Rightarrow> protocol_error list + unit" where
  "notify_service http event w =
     (case notify (map (\<lambda>(i, c). (c, http i)) (enumerate 0 (wb_senders w))) of
        [] \<Rightarrow> Inr ()
      | errors \<Rightarrow> Inl errors)"

definition notify_request_received :: "(nat \<Rightarrow> u32 \<Rightarrow> http_outcome) \<Rightarrow> string \<Rightarrow> string \<Rightarrow> string \<Rightarrow> string
    \<Rightarrow> webhook_service \<Rightarrow> protocol_error list + unit" where
  "notify_request_received http timestamp request_id service_name meth =
     notify_service http (RequestReceived request_id service_name meth timestamp)"

definition notify_response_sent :: "(nat \<Rightarrow> u32 \<Rightarrow> http_outcome) \<Rightarrow> string \<Rightarrow> string \<Rightarrow> string \<Rightarrow> string \<Rightarrow> u64
    \<Rightarrow> webhook_service \<Rightarrow> protocol_error list + unit" where
  "notify_response_sent http timestamp request_id service_name status duration_ms =
     notify_service http (ResponseSent request_id service_name status duration_ms timestamp)"

definition notify_error :: "(nat \<Rightarrow> u32 \<Rightarrow> http_outcome) \<Rightarrow> string \<Rightarrow> string \<Rightarrow> string \<Rightarrow> string
    \<Rightarrow> webhook_service \<Rightarrow> protocol_error list + unit" where
  "notify_error http timestamp request_id service_name err =
     notify_service http (ErrorEvent request_id service_name err timestamp)"

section \<open>The requests of one notification\<close>

text \<open>
  \<open>sends k n r ds\<close>: the requests of the attempts \<open>k\<close> to \<open>k + n - 1\<close> were made, all but the
  last without success; the last one decided the result.
\<close>

definition sends :: "(nat \<Rightarrow> duration) \<Rightarrow> u32 \<Rightarrow> (nat \<Rightarrow> http_outcome) \<Rightarrow> nat \<Rightarrow> nat \<Rightarrow> unit result \<Rightarrow> duration list \<Rightarrow> bool" where
  "sends delay max_attempts http k n r ds \<longleftrightarrow>
     0 < n \<and> k + n \<le> unat max_attempts
     \<and> (\<forall>i \<in> {k..<k + n - 1}. \<not> is_success (http i))
     \<and> (if is_success (http (k + n - 1)) then r = Ok ()
        else k + n = unat max_attempts \<and> r = Err (give_up max_attempts (http (k + n - 1))))
     \<and> ds = map delay [k + 1..<k + n]"

lemma sends_one:
  "k < unat max_attempts \<Longrightarrow> is_success (http k) \<Longrightarrow> sends delay max_attempts http k 1 (Ok ()) []"
  "k + 1 = unat max_attempts \<Longrightarrow> \<not> is_success (http k)
    \<Longrightarrow> sends delay max_attempts http k 1 (Err (give_up max_attempts (http k))) []"
  by (simp_all add: sends_def flip: One_nat_def) (metis diff_add_inverse2)

lemma sends_more:
  assumes "sends delay max_attempts http (k + 1) n r ds" and "\<not> is_success (http k)"
  shows "sends delay max_attempts http k (n + 1) r (delay (k + 1) # ds)"
proof -
  have "0 < n" using assms(1) by (simp add: sends_def)
  then have "{k..<k + (n + 1) - 1} = insert k {k + 1..<k + 1 + n - 1}"
    and "[k + 1..<k + (n + 1)] = (k + 1) # [k + 1 + 1..<k + 1 + n]"
    by (auto simp: upt_conv_Cons)
  then show ?thesis
    using assms unfolding sends_def by (simp only: if_distrib list.map) (simp split: if_splits)
qed

lemma send_loop_sends:
  assumes "k < unat max_attempts" and "send_loop p max_attempts http (of_nat k) = (r, n, ds)"
  shows "sends (\<lambda>i. delay_for_retry p (of_nat i)) max_attempts (\<lambda>i. http (of_nat i)) k n r ds"
  using assms
proof (induction "unat max_attempts - k" arbitrary: k r n ds)
  case (Suc d)
  have small: "unat (of_nat k :: u32) = k"
    using Suc.prems(1) unat_bound [of max_attempts] by (intro unat_of_nat_small) simp
  have "unat (max_attempts - 1) = unat max_attempts - 1"
    using Suc.prems(1) by (intro unat_minus_one) auto
  then have final: "of_nat k \<ge> max_attempts - 1 \<longleftrightarrow> k + 1 = unat max_attempts"
    using Suc.prems(1) small by (auto simp: word_le_nat_alt)
  consider (ok) "is_success (http (of_nat k))" | (stop) "\<not> is_success (http (of_nat k))" "k + 1 = unat max_attempts"
    | (retry) "\<not> is_success (http (of_nat k))" "k + 1 < unat max_attempts"
    using Suc.prems(1) by linarith
  then show ?case
  proof cases
    case ok
    with Suc.prems show ?thesis
      using sends_one(1) [of k max_attempts "\<lambda>i. http (of_nat i)"] by (subst (asm) send_loop.simps) auto
  next
    case stop
    with Suc.prems final show ?thesis
      using sends_one(2) [of k max_attempts "\<lambda>i. http (of_nat i)"] by (subst (asm) send_loop.simps) auto
  next
    case retry
    obtain r' n' ds' where rest: "send_loop p max_attempts http (of_nat (k + 1)) = (r', n', ds')"
      by (cases "send_loop p max_attempts http (of_nat (k + 1))") auto
    then have "sends (\<lambda>i. delay_for_retry p (of_nat i)) max_attempts (\<lambda>i. http (of_nat i)) (k + 1) n' r' ds'"
      using Suc.hyps retry by (intro Suc.hyps(1)) auto
    moreover have "r = r' \<and> n = n' + 1 \<and> ds = delay_for_retry p (of_nat (k + 1)) # ds'"
      using Suc.prems(2) retry final rest
      by (subst (asm) send_loop.simps) (auto simp: Let_def add.commute)
    ultimately show ?thesis
      using retry(1) sends_more [of "\<lambda>i. delay_for_retry p (of_nat i)" max_attempts "\<lambda>i. http (of_nat i)" k n' r' ds']
      by (simp only: not_False_eq_True)
  qed
qed simp

text \<open>
  C38. Webhook delivery. A notification makes at most \<open>max_retries + 1\<close> requests; it succeeds
  exactly when it stops at a request answered with a 2xx status, and it fails, with the reason of
  the last request, only after all of them failed. Between two requests it sleeps the delay of
  the next attempt.
\<close>

theorem webhook_delivery:
  assumes "rp_max_retries (wc_retry_policy c) \<noteq> - 1"
  shows "case send c http of (r, n, ds) \<Rightarrow>
    (let m = unat (rp_max_retries (wc_retry_policy c)) + 1 in
     0 < n \<and> n \<le> m
     \<and> (\<forall>i < n - 1. \<not> is_success (http (of_nat i)))
     \<and> (if is_success (http (of_nat (n - 1))) then r = Ok ()
        else n = m \<and> r = Err (give_up (of_nat m) (http (of_nat (n - 1)))))
     \<and> ds = map (\<lambda>i. delay_for_retry (wc_retry_policy c) (of_nat i)) [1..<n])"
proof -
  let ?p = "wc_retry_policy c"
  obtain r n ds where s: "send c http = (r, n, ds)" by (cases "send c http")
  have "unat (rp_max_retries ?p) \<noteq> unat (- 1 :: u32)"
    using assms by (simp only: word_unat_eq_iff not_False_eq_True)
  then have "unat (rp_max_retries ?p) \<noteq> 2 ^ 32 - 1" by (simp add: unsigned_minus_1_eq_mask mask_eq_exp_minus_1)
  then have m: "unat (rp_max_retries ?p + 1) = unat (rp_max_retries ?p) + 1"
    using unat_bound [of "rp_max_retries ?p"] by (intro unat_succ_word) simp
  have "sends (\<lambda>i. delay_for_retry ?p (of_nat i)) (rp_max_retries ?p + 1) (\<lambda>i. http (of_nat i)) 0 n r ds"
    using s by (intro send_loop_sends) (simp_all add: m send_def)
  then show ?thesis
    using s m by (auto simp: sends_def Let_def add.commute split: if_splits)
qed

theorem webhook_delivery_witness:
  "fst (send (webhook_config_new ''u'') (\<lambda>i. if i = 2 then Status 204 ''204'' else No_response ''refused'')) = Ok ()
   \<and> snd (snd (send (webhook_config_new ''u'') (\<lambda>i. if i = 2 then Status 204 ''204'' else No_response ''refused'')))
     = [from_millis 200, from_millis 400]"
proof -
  let ?http = "\<lambda>i :: u32. if i = 2 then Status 204 ''204'' else No_response ''refused''"
  obtain r n ds where s: "send (webhook_config_new ''u'') ?http = (r, n, ds)"
    by (cases "send (webhook_config_new ''u'') ?http") 
  have p: "wc_retry_policy (webhook_config_new ''u'') = policy_default" "rp_max_retries policy_default = 3"
    by (simp_all add: webhook_config_new_def policy_default_def)
  have ok: "is_success (?http i) = (i = 2)" for i by (simp add: is_success_def)
  have n: "0 < n" "n \<le> 4" "\<forall>i < n - 1. of_nat i \<noteq> (2 :: u32)"
    and r: "if of_nat (n - 1) = (2 :: u32) then r = Ok () else n = 4"
    and ds: "ds = map (\<lambda>i. delay_for_retry policy_default (of_nat i)) [1..<n]"
    using webhook_delivery [of "webhook_config_new ''u''" ?http] unfolding s p ok
    by (simp_all add: Let_def p split: if_splits)
  have "n = 1 \<or> n = 2 \<or> n = 3 \<or> n = 4" using n by linarith
  then have "n = 3" using n(3) [rule_format, of 2] r by auto
  then show ?thesis
    using s r ds by (simp add: delay_for_retry_def trunc_u64_def policy_default_def Let_def from_millis_def upt_rec)
qed

section \<open>Delays\<close>

text \<open>\<^verbatim>\<open>RetryConfig\<close>; \<open>random\<close> is the number drawn from the unit interval.\<close>

record retry_config =
  rc_max_retries :: nat
  rc_initial_delay :: rat
  rc_max_delay :: rat
  rc_backoff_multiplier :: rat
  rc_jitter :: bool

definition retry_config_default :: retry_config where
  "retry_config_default = \<lparr>rc_max_retries = 3, rc_initial_delay = 1 / 10, rc_max_delay = 30,
     rc_backoff_multiplier = 2, rc_jitter = True\<rparr>"

definition calculate_delay :: "rat \<Rightarrow> nat \<Rightarrow> retry_config \<Rightarrow> rat" where
  "calculate_delay random attempt c =
     (let delay = rc_initial_delay c * rc_backoff_multiplier c ^ attempt;
          delay = min delay (rc_max_delay c)
      in if rc_jitter c then let jitter = random * (1 / 2) + 1 / 2 in delay * jitter else delay)"

text \<open>
  Backoff. A webhook never waits longer than its maximal delay, and the delay of a retry, in
  seconds, is between half of the capped exponential delay and all of it, whatever the jitter.
\<close>

theorem backoff_bounds:
  assumes "0 \<le> random" and "random < 1" and "0 \<le> rc_initial_delay c" and "0 \<le> rc_max_delay c"
    and "0 \<le> rc_backoff_multiplier c"
  shows "delay_for_retry p attempt \<le> from_millis (unat (rp_max_delay_ms p))
    \<and> (let cap = min (rc_initial_delay c * rc_backoff_multiplier c ^ n) (rc_max_delay c) in
       cap / 2 \<le> calculate_delay random n c \<and> calculate_delay random n c \<le> cap)"
proof -
  let ?cap = "min (rc_initial_delay c * rc_backoff_multiplier c ^ n) (rc_max_delay c)"
  have cap: "0 \<le> ?cap" using assms by simp
  have "?cap * (1 / 2) \<le> ?cap * (random * (1 / 2) + 1 / 2)"
    using assms by (intro mult_left_mono cap) simp
  moreover have "?cap * (random * (1 / 2) + 1 / 2) \<le> ?cap * 1"
    using assms by (intro mult_left_mono cap) simp
  ultimately have "?cap / 2 \<le> calculate_delay random n c \<and> calculate_delay random n c \<le> ?cap"
    using cap by (simp add: calculate_delay_def Let_def)
  then show ?thesis
    by (simp add: delay_for_retry_def Let_def from_millis_def word_le_nat_alt [symmetric])
qed

theorem backoff_bounds_witness:
  "delay_for_retry policy_default 20 \<le> from_millis 10000
    \<and> calculate_delay (1 / 4) 3 retry_config_default \<le> 4 / 5"
  using backoff_bounds [of "1 / 4" retry_config_default policy_default 20 3]
  by (simp add: retry_config_default_def policy_default_def)

section \<open>Testing a connection\<close>

text \<open>What a connection attempt under a timeout may come to.\<close>

datatype connect_outcome = Established | Refused string | Timed_out

text \<open>
  \<^verbatim>\<open>HealthChecker::check\<close> asks whether the timer let the attempt finish;
  \<^verbatim>\<open>BackgroundHealthChecker\<close> asks whether the attempt succeeded.
\<close>

definition timeout_connect :: "connect_outcome \<Rightarrow> unit + (string + unit)" where
  "timeout_connect out = (case out of Established \<Rightarrow> Inr (Inr ()) | Refused e \<Rightarrow> Inr (Inl e) | Timed_out \<Rightarrow> Inl ())"

definition health_check :: "connect_outcome \<Rightarrow> bool" where
  "health_check out = is_ok (timeout_connect out)"

record health_checker =
  hc_interval :: duration
  hc_timeout :: duration

definition hc_new :: health_checker where
  "hc_new = \<lparr>hc_interval = from_secs 30, hc_timeout = from_secs 5\<rparr>"

definition hc_with_interval :: "duration \<Rightarrow> health_checker \<Rightarrow> health_checker" where
  "hc_with_interval d h = h\<lparr>hc_interval := d\<rparr>"

definition hc_with_timeout :: "duration \<Rightarrow> health_checker \<Rightarrow> health_checker" where
  "hc_with_timeout d h = h\<lparr>hc_timeout := d\<rparr>"

definition background_check :: "connect_outcome \<Rightarrow> bool" where
  "background_check out = (case timeout_connect out of Inr r \<Rightarrow> is_ok r | Inl _ \<Rightarrow> False)"

text \<open>
  Two health checks disagree. The background checker calls an address healthy exactly when a
  connection was established; the other one also when the connection was refused.
\<close>

theorem health_checks:
  "(background_check out \<longleftrightarrow> out = Established)
   \<and> (health_check out \<longleftrightarrow> out = Established \<or> (\<exists>e. out = Refused e))"
  by (cases out) (simp_all add: background_check_def health_check_def timeout_connect_def)

end
