(* ===== verification/Webhook_Payload.thy ===== *)
theory Webhook_Payload
  imports Webhook Json Tagged_Codec
begin

text \<open>
  What a webhook request carries (\<^verbatim>\<open>WebhookSender::send\<close> of \<^verbatim>\<open>src/src/webhook.rs\<close>): the
  event as a document with its variant as the member \<open>event\<close>, as serde derives it, and the headers.
  HTTP is a library; the text of JSON is the parameter of \<open>Json\<close>.
\<close>

definition event_variant :: "webhook_event \<Rightarrow> string" where
  "event_variant e = (case e of
       RequestReceived _ _ _ _ \<Rightarrow> ''RequestReceived''
     | ResponseSent _ _ _ _ _ \<Rightarrow> ''ResponseSent''
     | ErrorEvent _ _ _ _ \<Rightarrow> ''Error''
     | HealthCheck _ _ _ \<Rightarrow> ''HealthCheck'')"

definition event_fields :: "webhook_event \<Rightarrow> (string \<times> json) list" where
  "event_fields e = (case e of
       RequestReceived request_id service_name meth timestamp \<Rightarrow>
         [(''request_id'', JStr request_id), (''service_name'', JStr service_name), (''method'', JStr meth),
          (''timestamp'', JStr timestamp)]
     | ResponseSent request_id service_name status duration_ms timestamp \<Rightarrow>
         [(''request_id'', JStr request_id), (''service_name'', JStr service_name), (''status'', JStr status),
          (''duration_ms'', JNumber (PosInt duration_ms)), (''timestamp'', JStr timestamp)]
     | ErrorEvent request_id service_name err timestamp \<Rightarrow>
         [(''request_id'', JStr request_id), (''service_name'', JStr service_name), (''error'', JStr err),
          (''timestamp'', JStr timestamp)]
     | HealthCheck service_name status timestamp \<Rightarrow>
         [(''service_name'', JStr service_name), (''status'', JStr status), (''timestamp'', JStr timestamp)])"

definition event_to_json :: "webhook_event \<Rightarrow> json" where
  "event_to_json e = JObj ((''event'', JStr (event_variant e)) # event_fields e)"

text \<open>
  Reading: the member \<open>event\<close>, named once, gives the variant, and the other members its fields. An
  array in place of an object, with the variant first, is taken as well.
\<close>

definition read_variant :: "string \<Rightarrow> json \<Rightarrow> webhook_event option" where
  "read_variant v body =
     (let four = (\<lambda>names. case struct_fields names body of
          Some [f1, f2, f3, f4] \<Rightarrow> (case (req_str f1, req_str f2, req_str f3, req_str f4) of
              (Some a, Some b, Some c, Some d) \<Rightarrow> Some (a, b, c, d) | _ \<Rightarrow> None)
        | _ \<Rightarrow> None) in
      if v = ''RequestReceived'' then
        map_option (\<lambda>(a, b, c, d). RequestReceived a b c d) (four [''request_id'', ''service_name'', ''method'', ''timestamp''])
      else if v = ''ResponseSent'' then
        (case struct_fields [''request_id'', ''service_name'', ''status'', ''duration_ms'', ''timestamp''] body of
           Some [f1, f2, f3, f4, f5] \<Rightarrow>
             (case (req_str f1, req_str f2, req_str f3, req_u64 f4, req_str f5) of
                (Some a, Some b, Some c, Some d, Some e) \<Rightarrow> Some (ResponseSent a b c d e) | _ \<Rightarrow> None)
         | _ \<Rightarrow> None)
      else if v = ''Error'' then
        map_option (\<lambda>(a, b, c, d). ErrorEvent a b c d) (four [''request_id'', ''service_name'', ''error'', ''timestamp''])
      else if v = ''HealthCheck'' then
        (case struct_fields [''service_name'', ''status'', ''timestamp''] body of
           Some [f1, f2, f3] \<Rightarrow>
             (case (req_str f1, req_str f2, req_str f3) of
                (Some a, Some b, Some c) \<Rightarrow> Some (HealthCheck a b c) | _ \<Rightarrow> None)
         | _ \<Rightarrow> None)
      else None)"

definition event_of_json :: "json \<Rightarrow> webhook_event option" where
  "event_of_json j = (case j of
       JObj kvs \<Rightarrow>
         (case filter (\<lambda>kv. fst kv = ''event'') kvs of
            [(_, JStr v)] \<Rightarrow> read_variant v (JObj (filter (\<lambda>kv. fst kv \<noteq> ''event'') kvs))
          | _ \<Rightarrow> None)
     | JArr (JStr v # xs) \<Rightarrow> read_variant v (JArr xs)
     | _ \<Rightarrow> None)"

lemma event_roundtrip: "event_of_json (event_to_json e) = Some e"
  by (cases e)
    (simp_all add: event_of_json_def event_to_json_def event_variant_def event_fields_def read_variant_def
      struct_fields_def req_str_def req_u64_def)

interpretation webhook_event: json_struct event_to_json event_of_json "\<lambda>_. True"
  by unfold_locales (rule event_roundtrip)

section \<open>The request\<close>

text \<open>A header is added to those of its name; the configured ones come in no fixed order.\<close>

record webhook_request =
  wq_url :: string
  wq_headers :: "string \<Rightarrow> string list"
  wq_body :: bytes

definition webhook_request_of :: "json_codec \<Rightarrow> webhook_config \<Rightarrow> webhook_event \<Rightarrow> webhook_request" where
  "webhook_request_of cd c e =
     \<lparr>wq_url = wc_url c,
      wq_headers = (\<lambda>name. (if name = ''Content-Type'' then [''application/json''] else [])
        @ (if name = ''X-Webhook-Event'' then [event_type e] else [])
        @ (case wc_headers c name of None \<Rightarrow> [] | Some value \<Rightarrow> [value])),
      wq_body = jc_to_vec cd (event_to_json e)\<rparr>"

text \<open>
  The receiver reads the event back from the body; but the event has another name there than in the header.
\<close>

lemma webhook_body_read:
  "codec_law cd \<Longrightarrow> readable (event_to_json e)
    \<Longrightarrow> decode cd event_of_json ''WebhookEvent'' (wq_body (webhook_request_of cd c e)) = Inr e"
  by (simp add: webhook_request_of_def webhook_event.decode_to_vec)

lemma event_names_differ: "get_member ''event'' (event_to_json e) \<noteq> Some (JStr (event_type e))"
  by (cases e) (simp_all add: get_member_def event_to_json_def event_variant_def event_type_def)

end
