(* ===== verification/Server.thy ===== *)
theory Server
  imports Wire Protocol Tagged_Codec Limiter Metrics Webhook
begin

text \<open>
  The server over Unix sockets, \<^verbatim>\<open>src/src/server.rs\<close>: its configuration, the validation of
  requests, the handler of one connection from the handshake to the end of its loop, and the
  accept loop with its count of active connections. A connection is a byte stream of what the peer
  sends, a flag for each read that the request timer ends first, and a state with everything the
  connection changes: the writer, the service handler, the metrics, the rate limiter, the
  notifications sent. Clock readings are arguments.
\<close>

section \<open>Configuration\<close>

record rate_limit_config =
  rlc_max_requests :: nat
  rlc_window_secs :: nat

record server_config =
  cf_request_timeout :: duration
  cf_idle_timeout :: duration
  cf_max_request_size :: nat
  cf_max_connections :: nat
  cf_webhook_url :: "string option"
  cf_enable_streaming :: bool
  cf_enable_schema_introspection :: bool
  cf_rate_limit :: rate_limit_config

definition server_config_default :: server_config where
  "server_config_default =
     \<lparr>cf_request_timeout = from_secs 30, cf_idle_timeout = from_secs 300,
      cf_max_request_size = 16 * 1024 * 1024, cf_max_connections = 10000, cf_webhook_url = None,
      cf_enable_streaming = True, cf_enable_schema_introspection = True,
      cf_rate_limit = \<lparr>rlc_max_requests = 1000, rlc_window_secs = 60\<rparr>\<rparr>"

definition with_request_timeout :: "duration \<Rightarrow> server_config \<Rightarrow> server_config" where
  "with_request_timeout d c = c\<lparr>cf_request_timeout := d\<rparr>"

definition with_webhook :: "string \<Rightarrow> server_config \<Rightarrow> server_config" where
  "with_webhook url c = c\<lparr>cf_webhook_url := Some url\<rparr>"

definition with_streaming :: "bool \<Rightarrow> server_config \<Rightarrow> server_config" where
  "with_streaming enabled c = c\<lparr>cf_enable_streaming := enabled\<rparr>"

definition with_schema_introspection :: "bool \<Rightarrow> server_config \<Rightarrow> server_config" where
  "with_schema_introspection enabled c = c\<lparr>cf_enable_schema_introspection := enabled\<rparr>"

definition with_max_connections :: "nat \<Rightarrow> server_config \<Rightarrow> server_config" where
  "with_max_connections n c = c\<lparr>cf_max_connections := n\<rparr>"

definition with_rate_limit :: "nat \<Rightarrow> nat \<Rightarrow> server_config \<Rightarrow> server_config" where
  "with_rate_limit n secs c = c\<lparr>cf_rate_limit := \<lparr>rlc_max_requests = n, rlc_window_secs = secs\<rparr>\<rparr>"

record uds_server =
  us_path :: string
  us_webhook_url :: "string option"
  us_metrics :: "metrics_collector option"

definition uds_server_new :: "string \<Rightarrow> uds_server" where
  "uds_server_new path = \<lparr>us_path = path, us_webhook_url = None, us_metrics = None\<rparr>"

definition server_with_webhook :: "string \<Rightarrow> uds_server \<Rightarrow> uds_server" where
  "server_with_webhook url s = s\<lparr>us_webhook_url := Some url\<rparr>"

definition server_with_metrics :: "metrics_collector \<Rightarrow> uds_server \<Rightarrow> uds_server" where
  "server_with_metrics mc s = s\<lparr>us_metrics := Some mc\<rparr>"

text \<open>The configuration \<^verbatim>\<open>run\<close> passes on, and the webhooks \<^verbatim>\<open>run_with_config\<close> makes of one.\<close>

definition run_config :: "uds_server \<Rightarrow> server_config" where
  "run_config s = (case us_webhook_url s of
       Some url \<Rightarrow> with_webhook url server_config_default | None \<Rightarrow> server_config_default)"

definition server_webhooks :: "server_config \<Rightarrow> webhook_service option" where
  "server_webhooks c = map_option (\<lambda>url. add_webhook (webhook_config_new url) webhook_service_new) (cf_webhook_url c)"

text \<open>
  The socket file: what is there is removed, then the path is bound. Errors of the system are
  given as results.
\<close>

definition server_bind :: "bool \<Rightarrow> string + unit \<Rightarrow> string + 'l \<Rightarrow> 'l result" where
  "server_bind exists removed bound =
     (case (if exists then removed else Inr ()) of
        Inl e \<Rightarrow> Err (from_io_error e)
      | Inr _ \<Rightarrow> (case bound of Inl e \<Rightarrow> Err (from_io_error e) | Inr l \<Rightarrow> Ok l))"

text \<open>The limiter that \<^verbatim>\<open>run_with_config\<close> makes of it.\<close>

definition server_limiter :: "server_config \<Rightarrow> auth_limiter" where
  "server_limiter c = al_new (rlc_max_requests (cf_rate_limit c)) (from_secs (rlc_window_secs (cf_rate_limit c)))"

definition validate_request :: "service_request \<Rightarrow> bool" where
  "validate_request r =
     (if rq_service_name r = [] \<or> length (rq_service_name r) > 256 then False
      else if rq_method r = [] \<or> length (rq_method r) > 256 then False
      else if rq_request_id r = [] \<or> length (rq_request_id r) > 128 then False
      else True)"

section \<open>The state of a connection\<close>

text \<open>
  The fixed surroundings of a connection: the codec, the configuration, the time of the handshake
  and the time stamp of the \<open>n\<close>th notification.
\<close>

record surroundings =
  en_codec :: json_codec
  en_config :: server_config
  en_now :: instant
  en_timestamp :: "nat \<Rightarrow> string"

record 's connection =
  cn_sink :: sink
  cn_handler :: 's
  cn_metrics :: "metrics_collector option"
  cn_limiter :: auth_limiter
  cn_events :: "webhook_event list option" \<comment> \<open>None: no webhook service\<close>
  cn_timings :: "duration list" \<comment> \<open>what \<^verbatim>\<open>req_start.elapsed()\<close> will read\<close>

definition reply :: "u8 \<Rightarrow> bytes \<Rightarrow> ('s connection, unit) action" where
  "reply t p c = (case write_message t p (cn_sink c) of (r, k) \<Rightarrow> (r, c\<lparr>cn_sink := k\<rparr>))"

definition error_doc :: "string \<Rightarrow> json" where
  "error_doc text = value_of (JObj [(''error'', JStr text)])"

definition reply_error :: "surroundings \<Rightarrow> string \<Rightarrow> ('s connection, unit) action" where
  "reply_error en text = reply MSG_ERROR (jc_to_vec (en_codec en) (error_doc text))"

definition event :: "surroundings \<Rightarrow> (string \<Rightarrow> webhook_event) \<Rightarrow> ('s connection, unit) action" where
  "event en e c = (Ok (), c\<lparr>cn_events := map_option (\<lambda>es. es @ [e (en_timestamp en (length es))]) (cn_events c)\<rparr>)"

definition measure_start :: "string \<Rightarrow> ('s connection, unit) action" where
  "measure_start name c = (Ok (), c\<lparr>cn_metrics :=
     map_option (\<lambda>mc. on_service name request_start (get_or_create_service name mc)) (cn_metrics c)\<rparr>)"

definition measure_end :: "string \<Rightarrow> duration \<Rightarrow> bool \<Rightarrow> ('s connection, unit) action" where
  "measure_end name d success c = (Ok (), c\<lparr>cn_metrics :=
     map_option (on_service name (request_end d success False)) (cn_metrics c)\<rparr>)"

definition elapsed :: "('s connection, duration) action" where
  "elapsed c = (case cn_timings c of [] \<Rightarrow> (Ok 0, c) | d # ds \<Rightarrow> (Ok d, c\<lparr>cn_timings := ds\<rparr>))"

definition run_handle :: "'s service_handler \<Rightarrow> service_request \<Rightarrow> ('s connection, service_response) action" where
  "run_handle h r c = (case sh_handle h r (cn_handler c) of (x, s) \<Rightarrow> (Ok x, c\<lparr>cn_handler := s\<rparr>))"

definition run_on_handshake :: "'s service_handler \<Rightarrow> handshake_request \<Rightarrow> ('s connection, handshake_response) action" where
  "run_on_handshake h r c = (case sh_on_handshake h r (cn_handler c) of (x, s) \<Rightarrow> (Ok x, c\<lparr>cn_handler := s\<rparr>))"

definition rate_check :: "surroundings \<Rightarrow> string \<Rightarrow> ('s connection, bool) action" where
  "rate_check en client c = (case al_check client (en_now en) (cn_limiter c) of (b, l) \<Rightarrow> (Ok b, c\<lparr>cn_limiter := l\<rparr>))"

definition lift_result :: "'a result \<Rightarrow> ('s, 'a) action" where
  "lift_result r c = (r, c)"

section \<open>Handshake\<close>

definition shake :: "surroundings \<Rightarrow> 's service_handler \<Rightarrow> u8 \<Rightarrow> bytes \<Rightarrow> ('s connection, string) action" where
  "shake en h msg_type payload =
     (let cd = en_codec en; limit = cf_max_request_size (en_config en) in
      if msg_type \<noteq> MSG_HANDSHAKE then fail (Protocol ''expected handshake'')
      else if length payload > limit then
        fail (InvalidMessage (''handshake payload too large: '' @ show_nat (length payload) @ '' > '' @ show_nat limit))
      else
        and_then (lift_result (from_slice cd hq_of_json ''HandshakeRequest'' payload)) (\<lambda>handshake_request.
        let client_id = hq_client_id handshake_request in
        and_then (event en (RequestReceived client_id (sh_service_name h) ''handshake'')) (\<lambda>_.
        and_then (rate_check en client_id) (\<lambda>allowed.
        if \<not> allowed then
          and_then (reply_error en ''rate limit exceeded'') (\<lambda>_.
          fail (ResourceExhausted ''rate limit exceeded''))
        else
          and_then (run_on_handshake h handshake_request) (\<lambda>response.
          and_then (reply MSG_HANDSHAKE_ACK (jc_to_vec cd (hr_to_json response))) (\<lambda>_.
          give client_id))))))"

section \<open>One message of the loop\<close>

definition serve_request :: "surroundings \<Rightarrow> 's service_handler \<Rightarrow> string \<Rightarrow> u8 \<Rightarrow> bytes \<Rightarrow> ('s connection, unit) action" where
  "serve_request en h client_id msg_type payload =
     (let cd = en_codec en; name = sh_service_name h in
      and_then (measure_start name) (\<lambda>_.
      and_then (event en (RequestReceived client_id name (show_nat (unat msg_type)))) (\<lambda>_.
      case decode cd rq_of_json ''ServiceRequest'' payload of
        Inl e \<Rightarrow>
          and_then elapsed (\<lambda>d.
          and_then (measure_end name d False) (\<lambda>_.
          reply_error en (''invalid request: '' @ e)))
      | Inr request \<Rightarrow>
          if \<not> validate_request request then
            and_then elapsed (\<lambda>d.
            and_then (measure_end name d False) (\<lambda>_.
            reply_error en ''invalid request format''))
          else
            and_then (run_handle h request) (\<lambda>response.
            and_then elapsed (\<lambda>duration.
            and_then (reply MSG_RESPONSE (jc_to_vec cd (rs_to_json response))) (\<lambda>_.
            and_then (measure_end name duration (rs_status response = ''success'')) (\<lambda>_.
            event en (ResponseSent (rs_request_id response) name (rs_status response)
              (as_millis_u64 duration)))))))))"

definition stream_mode_of :: "service_request \<Rightarrow> stream_mode" where
  "stream_mode_of request =
     (case Option.bind (Option.bind (get_member ''stream_mode'' (rq_payload request)) as_str) mode_from_str of
        None \<Rightarrow> Result | Some m \<Rightarrow> m)"

definition stream_start_doc :: "service_request \<Rightarrow> json" where
  "stream_start_doc request = value_of (JObj [(''request_id'', JStr (rq_request_id request)),
     (''mode'', JStr (mode_as_str (stream_mode_of request))), (''status'', JStr ''streaming'')])"

definition stream_end_doc :: "service_response \<Rightarrow> json" where
  "stream_end_doc response = value_of (JObj [(''request_id'', JStr (rs_request_id response)),
     (''status'', JStr (rs_status response)), (''payload'', rs_payload response)])"

definition serve_stream :: "surroundings \<Rightarrow> 's service_handler \<Rightarrow> bytes \<Rightarrow> ('s connection, unit) action" where
  "serve_stream en h payload =
     (if cf_enable_streaming (en_config en) then
        and_then (lift_result (from_slice (en_codec en) rq_of_json ''ServiceRequest'' payload)) (\<lambda>request.
        and_then (reply MSG_STREAM_START (jc_to_vec (en_codec en) (stream_start_doc request))) (\<lambda>_.
        and_then (run_handle h request) (\<lambda>response.
        reply MSG_STREAM_END (jc_to_vec (en_codec en) (stream_end_doc response)))))
      else give ())"

definition serve_schema :: "surroundings \<Rightarrow> 's service_handler \<Rightarrow> ('s connection, unit) action" where
  "serve_schema en h =
     (if cf_enable_schema_introspection (en_config en) then
        reply MSG_SCHEMA_RESPONSE (jc_to_vec (en_codec en) (sc_to_json (schema_new (sh_service_name h) ''1.0'')))
      else give ())"

text \<open>The body of the loop for one message: whether the loop goes on.\<close>

definition dispatch :: "surroundings \<Rightarrow> 's service_handler \<Rightarrow> string \<Rightarrow> u8 \<Rightarrow> bytes \<Rightarrow> ('s connection, bool) action" where
  "dispatch en h client_id t payload =
     (let limit = cf_max_request_size (en_config en) in
      if length payload > limit then
        and_then (reply_error en (''payload too large: '' @ show_nat (length payload) @ '' > '' @ show_nat limit))
          (\<lambda>_. give True)
      else if t = MSG_REQUEST then and_then (serve_request en h client_id t payload) (\<lambda>_. give True)
      else if t = MSG_STREAM_REQUEST then and_then (serve_stream en h payload) (\<lambda>_. give True)
      else if t = MSG_PING then and_then (reply MSG_PONG []) (\<lambda>_. give True)
      else if t = MSG_SCHEMA_REQUEST then and_then (serve_schema en h) (\<lambda>_. give True)
      else if t = MSG_CLOSE then give False
      else give True)"

section \<open>A whole connection\<close>

text \<open>
  \<open>quiet\<close> says for each read whether the request timer ends it; no more entries: it never does.
\<close>

function serve :: "surroundings \<Rightarrow> 's service_handler \<Rightarrow> string \<Rightarrow> bool list \<Rightarrow> bytes \<Rightarrow> ('s connection, unit) action" where
  "serve en h client_id quiet input c =
     (if quiet \<noteq> [] \<and> hd quiet then (Ok (), c)
      else case read_message input of
        (Inl e, _) \<Rightarrow> (Ok (), c)
      | (Inr (t, payload), rest) \<Rightarrow>
          (case dispatch en h client_id t payload c of
             (Inl e, c') \<Rightarrow> (Inl e, c')
           | (Inr go_on, c') \<Rightarrow> if go_on then serve en h client_id (tl quiet) rest c' else (Ok (), c')))"
  by pat_completeness auto
termination
  by (relation "measure (\<lambda>(en, h, client_id, quiet, input, c). length input)")
    (auto dest: read_message_length [OF sym])

declare serve.simps [simp del]

definition handle_connection :: "surroundings \<Rightarrow> 's service_handler \<Rightarrow> bool list \<Rightarrow> bytes \<Rightarrow> ('s connection, unit) action" where
  "handle_connection en h quiet input c =
     (case read_message input of
        (Inl e, _) \<Rightarrow> (Inl e, c)
      | (Inr (t, payload), rest) \<Rightarrow>
          and_then (shake en h t payload) (\<lambda>client_id. serve en h client_id quiet rest) c)"

section \<open>The accept loop\<close>





section \<open>Single operations\<close>

named_theorems server_simps

lemma reply_open [server_simps]:
  "fits p \<Longrightarrow> sk_room (cn_sink c) = None \<Longrightarrow>
    reply t p c = (Ok (), c\<lparr>cn_sink := (cn_sink c)\<lparr>sk_out := sk_out (cn_sink c) @ frame_bytes 1 t p\<rparr>\<rparr>)"
  by (simp add: reply_def write_message_open)

lemma reply_keeps:
  "reply t p c = (r, c') \<Longrightarrow> cn_metrics c' = cn_metrics c \<and> cn_limiter c' = cn_limiter c
    \<and> cn_handler c' = cn_handler c"
  by (auto simp: reply_def split: prod.splits)

lemma event_ok [server_simps]:
  "event en e c = (Ok (), c\<lparr>cn_events := map_option (\<lambda>es. es @ [e (en_timestamp en (length es))]) (cn_events c)\<rparr>)"
  by (simp add: event_def)

lemma measure_ok [server_simps]:
  "measure_start name c = (Ok (), c\<lparr>cn_metrics :=
     map_option (\<lambda>mc. on_service name request_start (get_or_create_service name mc)) (cn_metrics c)\<rparr>)"
  "measure_end name d b c = (Ok (), c\<lparr>cn_metrics :=
     map_option (on_service name (request_end d b False)) (cn_metrics c)\<rparr>)"
  by (simp_all add: measure_start_def measure_end_def)

definition next_timing :: "'s connection \<Rightarrow> duration" where
  "next_timing c = (if cn_timings c = [] then 0 else hd (cn_timings c))"

lemma elapsed_ok [server_simps]: "elapsed c = (Ok (next_timing c), c\<lparr>cn_timings := tl (cn_timings c)\<rparr>)"
  by (cases c) (simp add: elapsed_def next_timing_def split: list.split)

lemma run_handle_ok [server_simps]:
  "sh_handle h r (cn_handler c) = (x, s) \<Longrightarrow> run_handle h r c = (Ok x, c\<lparr>cn_handler := s\<rparr>)"
  by (simp add: run_handle_def)

lemma lift_result_simps [server_simps]: "lift_result r c = (r, c)"
  by (simp add: lift_result_def)

lemma and_then_Ok [server_simps]: "m c = (Ok x, c') \<Longrightarrow> and_then m f c = f x c'"
  by (rule action_simps)

section \<open>What every message leaves alone\<close>

text \<open>
  \<open>keeps P m\<close>: whatever \<open>m\<close> returns, it does not change what \<open>P\<close> observes.
\<close>

definition keeps :: "('s \<Rightarrow> 'b) \<Rightarrow> ('s, 'a) action \<Rightarrow> bool" where
  "keeps obs m \<longleftrightarrow> (\<forall>c. obs (snd (m c)) = obs c)"

lemma keepsD: "keeps obs m \<Longrightarrow> obs (snd (m c)) = obs c"
  by (simp add: keeps_def)

named_theorems keeps_intros

lemma keeps_and_then [keeps_intros]: "keeps obs m \<Longrightarrow> (\<And>x. keeps obs (f x)) \<Longrightarrow> keeps obs (and_then m f)"
  unfolding keeps_def and_then_def by (auto split: prod.splits sum.splits) (metis snd_conv)+

lemma keeps_give [keeps_intros]: "keeps obs (give x)" "keeps obs (fail e)" "keeps obs (lift_result r)"
  by (simp_all add: keeps_def lift_result_def)

lemma keeps_elapsed [keeps_intros]:
  "keeps cn_limiter elapsed" "keeps cn_handler elapsed" "keeps cn_metrics elapsed"
  by (simp_all add: keeps_def elapsed_def split: list.split)

lemma keeps_reply [keeps_intros]:
  "keeps cn_limiter (reply t p)" "keeps cn_handler (reply t p)" "keeps cn_metrics (reply t p)"
  by (simp_all add: keeps_def reply_def split: prod.split)

lemma keeps_reply_error [keeps_intros]:
  "keeps cn_limiter (reply_error en text)" "keeps cn_handler (reply_error en text)"
  "keeps cn_metrics (reply_error en text)"
  by (simp_all add: reply_error_def keeps_reply)

lemma keeps_event [keeps_intros]:
  "keeps cn_limiter (event en e)" "keeps cn_handler (event en e)" "keeps cn_metrics (event en e)"
  by (simp_all add: keeps_def event_def)

lemma keeps_measure [keeps_intros]:
  "keeps cn_limiter (measure_start name)" "keeps cn_limiter (measure_end name d b)"
  "keeps cn_handler (measure_start name)" "keeps cn_handler (measure_end name d b)"
  by (simp_all add: keeps_def measure_start_def measure_end_def)

lemma keeps_run [keeps_intros]:
  "keeps cn_limiter (run_handle h r)" "keeps cn_limiter (run_on_handshake h q)"
  "keeps cn_metrics (run_handle h r)" "keeps cn_metrics (run_on_handshake h q)"
  by (simp_all add: keeps_def run_handle_def run_on_handshake_def split: prod.split)

lemma dispatch_limiter: "keeps cn_limiter (dispatch en h cid t p)"
  by (auto simp: dispatch_def serve_request_def serve_stream_def serve_schema_def Let_def
      intro!: keeps_intros split: sum.split)

lemma serve_limiter: "cn_limiter (snd (serve en h cid quiet input c)) = cn_limiter c"
proof (induction en h cid quiet input c rule: serve.induct)
  case (1 en h cid quiet input c)
  have "cn_limiter c' = cn_limiter c" if "dispatch en h cid t p c = (r, c')" for t p r c'
    using dispatch_limiter that unfolding keeps_def by (metis snd_conv)
  with 1 show ?case by (subst serve.simps) (auto split: prod.split sum.split)
qed

text \<open>
  The rate limit counts handshakes, not requests: whatever messages follow the handshake and
  however many, the limiter is left as it was.
\<close>

theorem requests_not_rate_limited:
  "cn_limiter (snd (serve en h client_id quiet input c)) = cn_limiter c"
  by (rule serve_limiter)

section \<open>Admission\<close>

lemma reply_error_metrics: "reply_error en msg c = (r, c') \<Longrightarrow> cn_metrics c' = cn_metrics c"
  by (auto simp: reply_error_def reply_def split: prod.splits)

lemma reply_error_handler: "reply_error en msg c = (r, c') \<Longrightarrow> cn_handler c' = cn_handler c"
  by (auto simp: reply_error_def reply_def split: prod.splits)

text \<open>
  C7. Admission. On a connection that takes what is written, the first message admits the client
  exactly when it is a handshake that fits the limit, decodes, and is allowed by the rate limiter
  at that moment; the client is then the one it names. In every other case the service handler
  has not been called.
\<close>

theorem admission:
  assumes "sk_room (cn_sink c) = None"
    and "\<And>r s. fits (jc_to_vec (en_codec en) (hr_to_json (fst (sh_on_handshake h r s))))"
  shows "(fst (shake en h t p c) = Ok cid \<longleftrightarrow>
      t = MSG_HANDSHAKE \<and> length p \<le> cf_max_request_size (en_config en)
      \<and> (\<exists>req. decode (en_codec en) hq_of_json ''HandshakeRequest'' p = Inr req \<and> hq_client_id req = cid)
      \<and> fst (al_check cid (en_now en) (cn_limiter c)))
    \<and> (case fst (shake en h t p c) of Ok _ \<Rightarrow> True | Err _ \<Rightarrow> cn_handler (snd (shake en h t p c)) = cn_handler c)"
proof (cases "t = MSG_HANDSHAKE \<and> length p \<le> cf_max_request_size (en_config en)")
  case False
  then show ?thesis by (auto simp: shake_def Let_def)
next
  case fits: True
  show ?thesis
  proof (cases "decode (en_codec en) hq_of_json ''HandshakeRequest'' p")
    case (Inl e)
    with fits show ?thesis by (simp add: shake_def Let_def from_slice_def server_simps and_then_def)
  next
    case (Inr req)
    obtain allowed l where check: "al_check (hq_client_id req) (en_now en) (cn_limiter c) = (allowed, l)"
      by force
    obtain x s where hs: "sh_on_handshake h req (cn_handler c) = (x, s)" by force
    have x: "fits (jc_to_vec (en_codec en) (hr_to_json x))"
      using assms(2) [of req "cn_handler c"] hs by simp
    show ?thesis
    proof (cases allowed)
      case True
      with fits Inr check hs x assms(1) show ?thesis
        by (auto simp: shake_def Let_def from_slice_def server_simps rate_check_def run_on_handshake_def)
    next
      case False
      with fits Inr check show ?thesis
        by (auto simp: shake_def Let_def from_slice_def server_simps rate_check_def and_then_def
            dest: reply_error_handler split: prod.split sum.split)
    qed
  qed
qed

section \<open>A sample instance\<close>

text \<open>An echo service on the tagged codec, on which the theorems are evaluated.\<close>

definition sample_surroundings :: surroundings where
  "sample_surroundings = \<lparr>en_codec = tagged, en_config = server_config_default, en_now = 0,
     en_timestamp = (\<lambda>_. ''now'')\<rparr>"

definition sample_handler :: "nat service_handler" where
  "sample_handler = fn_handler (\<lambda>_. ''s1'') ''echo'' (\<lambda>r. response_success r (rq_payload r))"

definition sample_connection :: "nat connection" where
  "sample_connection = \<lparr>cn_sink = open_sink, cn_handler = 0, cn_metrics = Some mc_new,
     cn_limiter = server_limiter server_config_default, cn_events = None, cn_timings = [from_millis 5]\<rparr>"

definition sample_request :: "string \<Rightarrow> service_request" where
  "sample_request i = request_new i ''c'' ''echo'' ''say'' (JStr ''hi'')"

lemmas sample_defs = sample_surroundings_def sample_handler_def sample_connection_def
  sample_request_def fn_handler_def request_new_def response_success_def default_on_handshake_def
  server_config_default_def tagged_def

lemma length_put_text: "length (put_text s) = 2 * length s + 1"
  by (induction s) simp_all

lemma fits_short: "length p \<le> 1000 \<Longrightarrow> fits p"
  by (simp add: fits_def MAX_MESSAGE_SIZE_def)

theorem admission_witness:
  "fst (shake sample_surroundings sample_handler MSG_PING [] sample_connection) \<noteq> Ok ''c''
   \<and> cn_handler (snd (shake sample_surroundings sample_handler MSG_PING [] sample_connection)) = 0"
proof -
  have fit: "fits (jc_to_vec (en_codec sample_surroundings) (hr_to_json (fst (sh_on_handshake sample_handler r s))))"
    for r and s
    by (rule fits_short) (simp add: sample_defs hr_to_json_def)
  have room: "sk_room (cn_sink sample_connection) = None" by (simp add: sample_connection_def open_sink_def)
  have "\<not> is_ok (fst (shake sample_surroundings sample_handler MSG_PING [] sample_connection))"
    by (simp add: shake_def Let_def msg_defs)
  then show ?thesis
    using admission [OF room fit, of MSG_PING "[]" "''c''"]
    by (auto simp: msg_defs sample_connection_def split: sum.splits)
qed

section \<open>Requests in order\<close>

fun handle_all :: "'s service_handler \<Rightarrow> service_request list \<Rightarrow> 's \<Rightarrow> service_response list \<times> 's" where
  "handle_all h [] s = ([], s)"
| "handle_all h (r # rs) s =
     (case sh_handle h r s of (x, s1) \<Rightarrow> (case handle_all h rs s1 of (xs, s2) \<Rightarrow> (x # xs, s2)))"

text \<open>A request the server accepts, and a response that can be sent and read back.\<close>

definition acceptable :: "surroundings \<Rightarrow> service_request \<Rightarrow> bool" where
  "acceptable en r \<longleftrightarrow> validate_request r \<and> is_value (rq_payload r) \<and> readable (rq_to_json r)
     \<and> length (jc_to_vec (en_codec en) (rq_to_json r)) \<le> cf_max_request_size (en_config en)"

definition deliverable :: "surroundings \<Rightarrow> service_response \<Rightarrow> bool" where
  "deliverable en x \<longleftrightarrow> is_value (rs_payload x) \<and> readable (rs_to_json x)
     \<and> fits (jc_to_vec (en_codec en) (rs_to_json x))"

definition request_message :: "surroundings \<Rightarrow> service_request \<Rightarrow> u8 \<times> bytes" where
  "request_message en r = (MSG_REQUEST, jc_to_vec (en_codec en) (rq_to_json r))"

definition response_message :: "surroundings \<Rightarrow> service_response \<Rightarrow> u8 \<times> bytes" where
  "response_message en x = (MSG_RESPONSE, jc_to_vec (en_codec en) (rs_to_json x))"

lemma dispatch_request:
  assumes "codec_law (en_codec en)" and "acceptable en r" and "deliverable en x"
    and "sh_handle h r (cn_handler c) = (x, s)" and "sk_room (cn_sink c) = None"
  shows "\<exists>c'. dispatch en h cid MSG_REQUEST (snd (request_message en r)) c = (Ok True, c')
    \<and> cn_sink c' = (cn_sink c)\<lparr>sk_out := sk_out (cn_sink c) @ frame_bytes 1 MSG_RESPONSE (snd (response_message en x))\<rparr>
    \<and> cn_handler c' = s"
proof -
  have "decode (en_codec en) rq_of_json ''ServiceRequest'' (jc_to_vec (en_codec en) (rq_to_json r)) = Inr r"
    using assms(1,2) by (intro service_request.decode_to_vec) (simp_all add: acceptable_def)
  then show ?thesis
    using assms unfolding acceptable_def deliverable_def request_message_def response_message_def
    by (simp add: dispatch_def serve_request_def Let_def server_simps)
qed

lemma serve_message:
  assumes "fits p" and "dispatch en h cid t p c = (Ok True, c')"
  shows "serve en h cid [] (frame_bytes 1 t p @ rest) c = serve en h cid [] rest c'"
  using assms by (subst serve.simps) (simp add: read_message_frame)

lemma serve_eof [simp]: "serve en h cid [] [] c = (Ok (), c)"
  by (subst serve.simps) simp

lemma serve_requests:
  assumes "codec_law (en_codec en)" and "\<forall>r \<in> set rs. acceptable en r"
    and "\<forall>x \<in> set (fst (handle_all h rs (cn_handler c))). deliverable en x"
    and "sk_room (cn_sink c) = None" and "frames wire_frame (map (request_message en) rs) = Some input"
  shows "\<exists>c' out. serve en h cid [] input c = (Ok (), c')
    \<and> frames wire_frame (map (response_message en) (fst (handle_all h rs (cn_handler c)))) = Some out
    \<and> sk_out (cn_sink c') = sk_out (cn_sink c) @ out
    \<and> cn_handler c' = snd (handle_all h rs (cn_handler c))"
  using assms(2-5)
proof (induction rs arbitrary: c input)
  case (Cons r rs)
  obtain x s where hx: "sh_handle h r (cn_handler c) = (x, s)" by force
  obtain f rest where f: "wire_frame (request_message en r) = Some f"
    "frames wire_frame (map (request_message en) rs) = Some rest" "input = f @ rest"
    using Cons.prems(4) by auto
  then have req: "fits (snd (request_message en r))" "f = frame_bytes 1 MSG_REQUEST (snd (request_message en r))"
    by (auto simp: wire_frame_eq request_message_def split: if_splits)
  have acc: "acceptable en r" and dl: "deliverable en x"
    using Cons.prems(1,2) hx by (auto split: prod.splits)
  obtain c1 where c1: "dispatch en h cid MSG_REQUEST (snd (request_message en r)) c = (Ok True, c1)"
    "cn_sink c1 = (cn_sink c)\<lparr>sk_out := sk_out (cn_sink c) @ frame_bytes 1 MSG_RESPONSE (snd (response_message en x))\<rparr>"
    "cn_handler c1 = s"
    using dispatch_request [OF assms(1) acc dl hx Cons.prems(3)] by blast
  have frm: "wire_frame (response_message en x) = Some (frame_bytes 1 MSG_RESPONSE (snd (response_message en x)))"
    using dl by (simp add: wire_frame_eq response_message_def deliverable_def)
  have "\<exists>c' out. serve en h cid [] rest c1 = (Ok (), c')
    \<and> frames wire_frame (map (response_message en) (fst (handle_all h rs s))) = Some out
    \<and> sk_out (cn_sink c') = sk_out (cn_sink c1) @ out \<and> cn_handler c' = snd (handle_all h rs s)"
    using Cons.IH [of c1 rest] Cons.prems hx f(2) c1(2,3) by (auto split: prod.splits)
  then show ?case
    using serve_message [OF req(1) c1(1), of rest] f(3) req(2) hx frm c1(2)
    by (auto split: prod.splits)
qed simp

text \<open>
  C1. Requests and responses end to end. A client that has been admitted may send any number of
  valid requests without waiting. The server handles them one after the other in the order sent,
  each with the state the previous one left, and what it writes, read back by the client, is
  exactly their responses, unchanged and in the same order, then the end of the stream.
\<close>

theorem requests_answered_in_order:
  assumes "codec_law (en_codec en)" and "\<forall>r \<in> set rs. acceptable en r"
    and "\<forall>x \<in> set (fst (handle_all h rs (cn_handler c))). deliverable en x"
    and "cn_sink c = open_sink"
    and "write_many (map (request_message en) rs) open_sink = (Ok (), k)"
  shows "\<exists>c'. serve en h client_id [] (sk_out k) c = (Ok (), c')
    \<and> (case read_all (sk_out (cn_sink c')) of (ms, e) \<Rightarrow>
         map fst ms = replicate (length rs) MSG_RESPONSE \<and> e = ConnectionFailed early_eof
         \<and> map (\<lambda>m. from_slice (en_codec en) rs_of_json ''ServiceResponse'' (snd m)) ms
           = map Ok (fst (handle_all h rs (cn_handler c))))
    \<and> cn_handler c' = snd (handle_all h rs (cn_handler c))"
proof -
  let ?xs = "fst (handle_all h rs (cn_handler c))"
  obtain input where input: "frames wire_frame (map (request_message en) rs) = Some input" "sk_out k = input"
    using write_many_frames [OF assms(5)] by (auto simp: open_sink_def)
  have "sk_room (cn_sink c) = None" by (simp add: assms(4) open_sink_def)
  from serve_requests [OF assms(1-3) this input(1), of client_id] obtain c' out where
    s: "serve en h client_id [] input c = (Ok (), c')" "cn_handler c' = snd (handle_all h rs (cn_handler c))"
    and out: "frames wire_frame (map (response_message en) ?xs) = Some out"
      "sk_out (cn_sink c') = sk_out (cn_sink c) @ out"
    by blast
  have ra: "read_all out = (map (response_message en) ?xs, ConnectionFailed early_eof)"
    using read_all_frames [OF out(1), of "[]"] by simp
  have len: "length (fst (handle_all h rs s)) = length rs" for s
    by (induction rs arbitrary: s) (auto split: prod.splits, metis fst_conv)
  have "from_slice (en_codec en) rs_of_json ''ServiceResponse'' (snd (response_message en x)) = Ok x"
    if "x \<in> set ?xs" for x
    using that assms(1,3) unfolding response_message_def snd_conv
    by (intro service_response.from_slice_to_vec) (auto simp: deliverable_def)
  moreover have "map fst (map (response_message en) ?xs) = replicate (length rs) MSG_RESPONSE"
    by (simp add: response_message_def o_def map_replicate_const len)
  ultimately show ?thesis
    using s ra unfolding input(2) by (intro exI [of _ c']) (simp add: out(2) assms(4) open_sink_def)
qed

lemma sample_acceptable: "length i \<le> 20 \<Longrightarrow> i \<noteq> [] \<Longrightarrow> utf8 i \<Longrightarrow> acceptable sample_surroundings (sample_request i)"
  by (simp add: acceptable_def validate_request_def sample_defs readable_def rq_to_json_def some_or_null_def
      utf8_def length_put_text)

lemma sample_fits: "length i \<le> 20 \<Longrightarrow> fits (snd (request_message sample_surroundings (sample_request i)))"
  by (rule fits_short)
    (simp add: request_message_def sample_defs rq_to_json_def some_or_null_def length_put_text)

theorem requests_answered_in_order_witness:
  "\<exists>k c'. write_many (map (request_message sample_surroundings) [sample_request ''1'', sample_request ''2'']) open_sink = (Ok (), k)
    \<and> serve sample_surroundings sample_handler ''c'' [] (sk_out k) sample_connection = (Ok (), c')
    \<and> length (fst (read_all (sk_out (cn_sink c')))) = 2"
proof -
  let ?en = sample_surroundings and ?h = sample_handler and ?c = sample_connection
  let ?rs = "[sample_request ''1'', sample_request ''2'']"
  have acc: "acceptable ?en r" if "r \<in> set ?rs" for r
    using that by (auto intro!: sample_acceptable simp: utf8_def)
  have "handle_all ?h ?rs (cn_handler ?c) =
      ([response_success (sample_request ''1'') (JStr ''hi''), response_success (sample_request ''2'') (JStr ''hi'')], 0)"
    by (simp add: sample_defs)
  moreover have "deliverable ?en (response_success (sample_request [a]) (JStr ''hi''))" if "utf8 [a]" for a
    using that by (simp add: deliverable_def sample_defs readable_def rs_to_json_def some_or_null_def utf8_def fits_short)
  ultimately have del: "deliverable ?en x" if "x \<in> set (fst (handle_all ?h ?rs (cn_handler ?c)))" for x
    using that by (auto simp: utf8_def)
  have law: "codec_law (en_codec ?en)" by (simp add: sample_surroundings_def tagged_law)
  have "fits (snd (request_message ?en (sample_request ''1'')))" "fits (snd (request_message ?en (sample_request ''2'')))"
    by (simp_all add: sample_fits)
  then obtain k where k: "write_many (map (request_message ?en) ?rs) open_sink = (Ok (), k)"
    by (simp add: request_message_def and_then_def write_message_open open_sink_def)
  have sink: "cn_sink ?c = open_sink" by (simp add: sample_connection_def)
  obtain c' where c': "serve ?en ?h ''c'' [] (sk_out k) ?c = (Ok (), c')"
    and ra: "map fst (fst (read_all (sk_out (cn_sink c')))) = replicate (length ?rs) MSG_RESPONSE"
    using requests_answered_in_order [OF law _ _ sink k, of ?h "''c''"] acc del
    by (auto split: prod.splits)
  from ra have "length (fst (read_all (sk_out (cn_sink c')))) = 2"
    by (metis length_map length_replicate length_Cons list.size(3) numeral_2_eq_2)
  with k c' show ?thesis by blast
qed

section \<open>Rejected requests\<close>

definition rejection :: "surroundings \<Rightarrow> bytes \<Rightarrow> string option" where
  "rejection en p =
     (case decode (en_codec en) rq_of_json ''ServiceRequest'' p of
        Inl e \<Rightarrow> Some (''invalid request: '' @ e)
      | Inr r \<Rightarrow> if validate_request r then None else Some ''invalid request format'')"

text \<open>
  C19. Invalid requests. A request message that does not decode, or whose service name, method or
  request id is empty or too long, is answered by one error message; the service handler is not
  called and the connection goes on.
\<close>

theorem invalid_request_rejected:
  assumes "length p \<le> cf_max_request_size (en_config en)" and "sk_room (cn_sink c) = None"
    and "rejection en p = Some msg" and "fits (jc_to_vec (en_codec en) (error_doc msg))"
  shows "\<exists>c'. dispatch en h client_id MSG_REQUEST p c = (Ok True, c')
    \<and> cn_handler c' = cn_handler c
    \<and> sk_out (cn_sink c') = sk_out (cn_sink c)
        @ frame_bytes 1 MSG_ERROR (jc_to_vec (en_codec en) (error_doc msg))"
proof (cases "decode (en_codec en) rq_of_json ''ServiceRequest'' p")
  case (Inl e)
  with assms show ?thesis
    by (simp add: rejection_def dispatch_def serve_request_def reply_error_def Let_def server_simps)
next
  case (Inr r)
  with assms show ?thesis
    by (simp add: rejection_def dispatch_def serve_request_def reply_error_def Let_def server_simps
        split: if_splits)
qed

theorem invalid_request_rejected_witness:
  "\<exists>c'. dispatch sample_surroundings sample_handler ''c'' MSG_REQUEST [9] sample_connection = (Ok True, c')
    \<and> cn_handler c' = 0"
proof -
  have "rejection sample_surroundings [9] = Some ''invalid request: unreadable ServiceRequest''"
    by (simp add: rejection_def decode_def sample_defs tagged_parse_def)
  moreover have "fits (jc_to_vec (en_codec sample_surroundings)
      (error_doc ''invalid request: unreadable ServiceRequest''))"
    by (rule fits_short) (simp add: error_doc_def btree_map_def sample_defs)
  ultimately show ?thesis
    using invalid_request_rejected [of "[9]" sample_surroundings sample_connection _ sample_handler "''c''"]
    by (simp add: sample_defs open_sink_def) blast
qed

text \<open>
  With the default configuration the limit on the size of a request never rejects anything
  in the loop: every message that \<open>read_message\<close> returns is below it.
\<close>

theorem default_limit_unreachable:
  assumes "read_message s = (Inr (t, p), rest)"
  shows "length p < cf_max_request_size server_config_default"
proof -
  have "2 + length p \<le> MAX_MESSAGE_SIZE" using read_messageD [OF assms] by (auto simp: fits_def)
  then show ?thesis by (simp add: MAX_MESSAGE_SIZE_def server_config_default_def)
qed

theorem default_limit_unreachable_witness:
  "length [7 :: u8] < cf_max_request_size server_config_default"
proof -
  have "read_message (frame_bytes 1 MSG_REQUEST [7] @ []) = (Inr (MSG_REQUEST, [7]), [])"
    by (rule read_message_frame) (simp add: fits_def MAX_MESSAGE_SIZE_def)
  then show ?thesis by (rule default_limit_unreachable)
qed

section \<open>Requests counted as active\<close>

definition active_requests :: "string \<Rightarrow> 's connection \<Rightarrow> u64" where
  "active_requests name c =
     (case cn_metrics c of
        None \<Rightarrow> 0
      | Some mc \<Rightarrow> (case mc_services mc name of None \<Rightarrow> 0 | Some m \<Rightarrow> sv_active_requests m))"

lemma active_cong: "cn_metrics c' = cn_metrics c \<Longrightarrow> active_requests name c' = active_requests name c"
  by (simp add: active_requests_def)

definition started :: "string \<Rightarrow> metrics_collector option \<Rightarrow> metrics_collector option" where
  "started name ms = map_option (\<lambda>mc. on_service name request_start (get_or_create_service name mc)) ms"

definition ended :: "string \<Rightarrow> duration \<Rightarrow> bool \<Rightarrow> metrics_collector option \<Rightarrow> metrics_collector option" where
  "ended name d b ms = map_option (on_service name (request_end d b False)) ms"

lemma active_started:
  "cn_metrics c' = started name (cn_metrics c) \<Longrightarrow>
    active_requests name c' = (if cn_metrics c = None then 0 else active_requests name c + 1)"
  by (auto simp: active_requests_def started_def on_service_def get_or_create_service_def request_start_def
      sv_new_def split: option.split)

lemma active_ended:
  "cn_metrics c' = ended name d b (started name (cn_metrics c)) \<Longrightarrow> active_requests name c' = active_requests name c"
  by (auto simp: active_requests_def started_def ended_def on_service_def get_or_create_service_def
      request_start_def request_end_def sv_new_def Let_def split: option.split)

lemma serve_request_metrics:
  assumes "serve_request en h cid t p c = (r, c')"
  shows "(\<exists>d b. cn_metrics c' = ended (sh_service_name h) d b (started (sh_service_name h) (cn_metrics c)))
    \<or> \<not> is_ok r \<and> cn_metrics c' = started (sh_service_name h) (cn_metrics c)"
proof (cases "rejection en p")
  case (Some msg)
  define c0 where "c0 = snd (event en (RequestReceived cid (sh_service_name h) (show_nat (unat t)))
    (snd (measure_start (sh_service_name h) c)))"
  have "serve_request en h cid t p c = and_then elapsed (\<lambda>d.
      and_then (measure_end (sh_service_name h) d False) (\<lambda>_. reply_error en msg)) c0"
    using Some by (auto simp: rejection_def serve_request_def Let_def and_then_Ok event_ok measure_ok c0_def
        split: sum.splits if_splits)
  then have "cn_metrics c' = ended (sh_service_name h) (next_timing c0) False (cn_metrics c0)"
    using assms by (auto simp: server_simps ended_def dest!: reply_error_metrics [OF sym])
  moreover have "cn_metrics c0 = started (sh_service_name h) (cn_metrics c)"
    by (simp add: c0_def server_simps started_def)
  ultimately show ?thesis by auto
next
  case None
  then obtain q where q: "decode (en_codec en) rq_of_json ''ServiceRequest'' p = Inr q" "validate_request q"
    by (auto simp: rejection_def split: sum.splits if_splits)
  obtain x s where hx: "sh_handle h q (cn_handler c) = (x, s)" by force
  define c1 where "c1 = c\<lparr>cn_metrics := started (sh_service_name h) (cn_metrics c),
    cn_events := map_option (\<lambda>es. es @ [RequestReceived cid (sh_service_name h) (show_nat (unat t))
      (en_timestamp en (length es))]) (cn_events c), cn_handler := s, cn_timings := tl (cn_timings c)\<rparr>"
  have c1: "cn_metrics c1 = started (sh_service_name h) (cn_metrics c)" by (simp add: c1_def)
  have run: "serve_request en h cid t p c =
      and_then (reply MSG_RESPONSE (jc_to_vec (en_codec en) (rs_to_json x))) (\<lambda>_.
      and_then (measure_end (sh_service_name h) (next_timing c) (rs_status x = ''success'')) (\<lambda>_.
      event en (ResponseSent (rs_request_id x) (sh_service_name h) (rs_status x)
              (as_millis_u64 (next_timing c))))) c1"
    using q hx by (simp add: serve_request_def Let_def server_simps started_def next_timing_def c1_def)
  obtain r2 c2 where rep: "reply MSG_RESPONSE (jc_to_vec (en_codec en) (rs_to_json x)) c1 = (r2, c2)" by force
  then have c2: "cn_metrics c2 = cn_metrics c1" by (auto dest: reply_keeps)
  show ?thesis
  proof (cases r2)
    case (Inl e)
    with run rep assms c1 c2 show ?thesis by (auto simp: and_then_def)
  next
    case (Inr u)
    then have "cn_metrics c' = ended (sh_service_name h) (next_timing c) (rs_status x = ''success'') (cn_metrics c2)"
      using run rep assms by (auto simp: and_then_def measure_end_def event_def ended_def)
    with c1 c2 show ?thesis by auto
  qed
qed

lemma dispatch_active:
  assumes "dispatch en h cid t p c = (r, c')"
  shows "active_requests (sh_service_name h) c' = active_requests (sh_service_name h) c
    \<or> \<not> is_ok r \<and> active_requests (sh_service_name h) c' = active_requests (sh_service_name h) c + 1"
proof (cases "t = MSG_REQUEST \<and> length p \<le> cf_max_request_size (en_config en)")
  case True
  then obtain r1 where s: "serve_request en h cid t p c = (r1, c')" and r1: "is_ok r1 = is_ok r"
    using assms by (auto simp: dispatch_def and_then_def split: prod.splits sum.splits)
  have none: "active_requests n c = 0" if "cn_metrics c = None" for n
    using that by (simp add: active_requests_def)
  from serve_request_metrics [OF s] show ?thesis
  proof (elim disjE exE conjE)
    fix d b
    assume "cn_metrics c' = ended (sh_service_name h) d b (started (sh_service_name h) (cn_metrics c))"
    then show ?thesis using active_ended by blast
  next
    assume "\<not> is_ok r1" and "cn_metrics c' = started (sh_service_name h) (cn_metrics c)"
    then show ?thesis using active_started [of c' "sh_service_name h" c] none r1 by auto
  qed
next
  case False
  then have "cn_metrics c' = cn_metrics c"
    using assms
    by (cases "length p \<le> cf_max_request_size (en_config en)")
      (auto simp: dispatch_def serve_stream_def serve_schema_def reply_error_def Let_def and_then_def
        run_handle_def lift_result_def
        dest!: reply_keeps split: prod.splits sum.splits if_splits)
  then show ?thesis using active_cong by blast
qed

lemma serve_step:
  assumes "\<not> (quiet \<noteq> [] \<and> hd quiet)" and "read_message input = (Inr (t, p), rest)"
    and "dispatch en h cid t p c = (r, c')"
  shows "serve en h cid quiet input c = (case r of
      Inl e \<Rightarrow> (Inl e, c')
    | Inr go_on \<Rightarrow> if go_on then serve en h cid (tl quiet) rest c' else (Ok (), c'))"
  unfolding serve.simps [of en h cid quiet input c] using assms by auto

lemma serve_active:
  "case serve en h cid quiet input c of (r, c') \<Rightarrow>
     active_requests (sh_service_name h) c' = active_requests (sh_service_name h) c
     \<or> \<not> is_ok r \<and> active_requests (sh_service_name h) c' = active_requests (sh_service_name h) c + 1"
proof (induction en h cid quiet input c rule: serve.induct)
  case (1 en h cid quiet input c)
  note IH = 1
  show ?case
  proof (cases "quiet \<noteq> [] \<and> hd quiet")
    case True
    then show ?thesis by (subst serve.simps) simp
  next
    case awake: False
    show ?thesis
    proof (cases "fst (read_message input)")
      case (Inl e)
      then show ?thesis using awake by (subst serve.simps) (auto split: prod.split)
    next
      case (Inr m)
      obtain t p rest where m: "read_message input = (Inr (t, p), rest)"
        using Inr by (cases "read_message input"; cases m) auto
      obtain r c' where d: "dispatch en h cid t p c = (r, c')" by force
      note da = dispatch_active [OF d] and step = serve_step [OF awake m d]
      show ?thesis
      proof (cases r)
        case (Inl e)
        then show ?thesis using da step by simp
      next
        case r: (Inr go_on)
        then have da': "active_requests (sh_service_name h) c' = active_requests (sh_service_name h) c"
          using da by simp
        show ?thesis
        proof (cases go_on)
          case True
          from IH [OF awake m [symmetric] refl refl d [symmetric] r True] step r True da'
          show ?thesis by simp
        next
          case False
          then show ?thesis using da' step r by simp
        qed
      qed
    qed
  qed
qed

text \<open>
  Active requests. A connection whose loop ends without an error leaves the service's count of
  active requests as it found it. One that ends with an error may leave it one too high, for good:
  a response that cannot be written is never counted as ended.
\<close>

theorem active_requests_balance:
  "case serve en h client_id quiet input c of (r, c') \<Rightarrow>
     if is_ok r then active_requests (sh_service_name h) c' = active_requests (sh_service_name h) c
     else active_requests (sh_service_name h) c'
       \<in> {active_requests (sh_service_name h) c, active_requests (sh_service_name h) c + 1}"
  using serve_active [where en = en and h = h and cid = client_id and quiet = quiet and input = input and c = c]
  by auto

text \<open>
  The leak happens. On a connection with metrics whose peer takes nothing any more, a valid
  request whose response could have been sent ends the connection and leaves the service with one
  more active request and one more request in total, and neither a success nor a failure.
\<close>

theorem failed_write_leaks_active:
  assumes "decode (en_codec en) rq_of_json ''ServiceRequest'' p = Inr q" and "validate_request q"
    and "length p \<le> cf_max_request_size (en_config en)"
    and "cn_metrics c = Some mc" and "sk_room (cn_sink c) = Some 0"
    and "fits (jc_to_vec (en_codec en) (rs_to_json (fst (sh_handle h q (cn_handler c)))))"
  shows "\<exists>c'. dispatch en h client_id MSG_REQUEST p c = (Err (ConnectionFailed broken_pipe), c')
    \<and> cn_metrics c' = Some (on_service (sh_service_name h) request_start
        (get_or_create_service (sh_service_name h) mc))
    \<and> active_requests (sh_service_name h) c' = active_requests (sh_service_name h) c + 1"
proof -
  note q = assms(1,2)
  obtain x s where hx: "sh_handle h q (cn_handler c) = (x, s)" by force
  have fit: "fits (jc_to_vec (en_codec en) (rs_to_json x))" using assms(6) hx by simp
  have fail: "reply MSG_RESPONSE (jc_to_vec (en_codec en) (rs_to_json x)) c1
      = (Err (ConnectionFailed broken_pipe), c1)" if "cn_sink c1 = cn_sink c" for c1 :: "'a connection"
    using fit assms(5) that by (simp add: reply_def write_message_frame write_all_def from_io_error_def)
  define c' where "c' = c\<lparr>cn_metrics := started (sh_service_name h) (cn_metrics c),
    cn_events := map_option (\<lambda>es. es @ [RequestReceived client_id (sh_service_name h) (show_nat (unat MSG_REQUEST))
      (en_timestamp en (length es))]) (cn_events c), cn_handler := s, cn_timings := tl (cn_timings c)\<rparr>"
  have "serve_request en h client_id MSG_REQUEST p c = (Err (ConnectionFailed broken_pipe), c')"
    using q hx fail [of c']
    by (simp add: serve_request_def Let_def server_simps started_def action_simps c'_def)
  then have c': "dispatch en h client_id MSG_REQUEST p c = (Err (ConnectionFailed broken_pipe), c')"
    "cn_metrics c' = started (sh_service_name h) (cn_metrics c)"
    using assms(3) by (simp_all add: dispatch_def action_simps c'_def)
  then show ?thesis
    using active_started [OF c'(2)] assms(4) by (auto simp: started_def)
qed

theorem failed_write_leaks_active_witness:
  "\<exists>p c'. dispatch sample_surroundings sample_handler ''c'' MSG_REQUEST p
      (sample_connection\<lparr>cn_sink := \<lparr>sk_out = [], sk_room = Some 0\<rparr>\<rparr>) = (Err (ConnectionFailed broken_pipe), c')
    \<and> active_requests ''echo'' c' = 1"
proof -
  let ?en = sample_surroundings and ?r = "sample_request ''1''"
  let ?p = "snd (request_message ?en ?r)" and ?c = "sample_connection\<lparr>cn_sink := \<lparr>sk_out = [], sk_room = Some 0\<rparr>\<rparr>"
  have acc: "acceptable ?en ?r" by (rule sample_acceptable) (simp_all add: utf8_def)
  then have "decode (en_codec ?en) rq_of_json ''ServiceRequest'' ?p = Inr ?r"
    unfolding request_message_def snd_conv acceptable_def
    by (intro service_request.decode_to_vec) (simp_all add: sample_surroundings_def tagged_law)
  moreover have "fits (jc_to_vec (en_codec ?en) (rs_to_json (fst (sh_handle sample_handler ?r (cn_handler ?c)))))"
    by (rule fits_short) (simp add: sample_defs rs_to_json_def some_or_null_def)
  ultimately have "\<exists>c'. dispatch ?en sample_handler ''c'' MSG_REQUEST ?p ?c = (Err (ConnectionFailed broken_pipe), c')
    \<and> cn_metrics c' = Some (on_service (sh_service_name sample_handler) request_start
        (get_or_create_service (sh_service_name sample_handler) mc_new))
    \<and> active_requests (sh_service_name sample_handler) c' = active_requests (sh_service_name sample_handler) ?c + 1"
    using acc by (intro failed_write_leaks_active)
      (simp_all add: acceptable_def request_message_def sample_connection_def)
  moreover have "sh_service_name sample_handler = ''echo''" "active_requests ''echo'' ?c = 0"
    by (simp_all add: sample_handler_def fn_handler_def active_requests_def sample_connection_def mc_new_def)
  ultimately show ?thesis by auto
qed

section \<open>Slots of the accept loop\<close>





end
