(* ===== verification/Conformance.thy ===== *)
theory Conformance
  imports Server
begin

text \<open>
  What a connection of \<^verbatim>\<open>src/src/server.rs\<close> may write: the protocol seen from the client, as typing
  rules for the sequence of messages that answers a sequence of messages. A small calculus says
  of each piece of the connection handler which messages it writes, depending on its success; its
  rules follow the sequencing of the code.
\<close>

section \<open>The calculus\<close>

text \<open>
  A shape relates success and the types of the messages written. \<open>emits G m\<close>: on a connection that takes
  what is written, \<open>m\<close> writes whole messages of a shape in \<open>G\<close> and nothing else.
\<close>

type_synonym shape = "bool \<Rightarrow> u8 list \<Rightarrow> bool"

definition framed :: "(u8 \<times> bytes) list \<Rightarrow> bytes" where
  "framed ms = concat (map (\<lambda>(t, p). frame_bytes 1 t p) ms)"

definition all_fit :: "(u8 \<times> bytes) list \<Rightarrow> bool" where
  "all_fit ms = list_all (\<lambda>(t, p). fits p) ms"

lemma framed_simps [simp]:
  "framed [] = []" "framed ((t, p) # ms) = frame_bytes 1 t p @ framed ms" "framed (ms @ ms') = framed ms @ framed ms'"
  by (simp_all add: framed_def)

lemma all_fit_simps [simp]:
  "all_fit []" "all_fit ((t, p) # ms) \<longleftrightarrow> fits p \<and> all_fit ms" "all_fit (ms @ ms') \<longleftrightarrow> all_fit ms \<and> all_fit ms'"
  by (simp_all add: all_fit_def)

lemma read_all_framed: "all_fit ms \<Longrightarrow> fst (read_all (framed ms)) = ms"
  by (induction ms) (auto simp: read_all_frame)

definition emits :: "shape \<Rightarrow> ('s connection, 'a) action \<Rightarrow> bool" where
  "emits G m \<longleftrightarrow> (\<forall>c r c'. sk_room (cn_sink c) = None \<longrightarrow> m c = (r, c') \<longrightarrow>
     sk_room (cn_sink c') = None
     \<and> (\<exists>ms. all_fit ms \<and> sk_out (cn_sink c') = sk_out (cn_sink c) @ framed ms \<and> G (is_ok r) (map fst ms)))"

lemma emitsE:
  assumes "emits G m" and "sk_room (cn_sink c) = None" and "m c = (r, c')"
  obtains ms where "sk_room (cn_sink c') = None" "all_fit ms"
    "sk_out (cn_sink c') = sk_out (cn_sink c) @ framed ms" "G (is_ok r) (map fst ms)"
  using assms unfolding emits_def by blast

lemma emits_weaken: "emits G m \<Longrightarrow> (\<And>ok ts. G ok ts \<Longrightarrow> G' ok ts) \<Longrightarrow> emits G' m"
  unfolding emits_def by meson

lemma emits_quiet:
  assumes "\<And>c. cn_sink (snd (m c)) = cn_sink c" and "\<And>c. G (is_ok (fst (m c))) []"
  shows "emits G m"
  unfolding emits_def
proof (intro allI impI)
  fix c r c' assume "sk_room (cn_sink c) = None" "m c = (r, c')"
  with assms(1) [of c] assms(2) [of c]
  show "sk_room (cn_sink c') = None \<and> (\<exists>ms. all_fit ms \<and> sk_out (cn_sink c') = sk_out (cn_sink c) @ framed ms \<and> G (is_ok r) (map fst ms))"
    by (auto intro: exI [of _ "[]"])
qed

named_theorems emits_rules

lemma emits_then:
  assumes m: "emits G1 m" and stop: "\<And>ts. G1 False ts \<Longrightarrow> G False ts"
    and f: "\<And>x ts. G1 True ts \<Longrightarrow> emits (\<lambda>ok ts'. G ok (ts @ ts')) (f x)"
  shows "emits G (and_then m f)"
  unfolding emits_def
proof (intro allI impI)
  fix c r c' assume room: "sk_room (cn_sink c) = None" and run: "and_then m f c = (r, c')"
  let ?goal = "sk_room (cn_sink c') = None \<and> (\<exists>ms. all_fit ms \<and> sk_out (cn_sink c') = sk_out (cn_sink c) @ framed ms \<and> G (is_ok r) (map fst ms))"
  from run show ?goal
  proof (cases rule: and_then_cases)
    case (stop e)
    obtain ms where "sk_room (cn_sink c') = None" "all_fit ms"
      "sk_out (cn_sink c') = sk_out (cn_sink c) @ framed ms" "G1 False (map fst ms)"
      using emitsE [OF m room stop(1)] by (metis is_ok_simps(2))
    then show ?goal using assms(2) stop(2) by auto
  next
    case (continue x c1)
    obtain ms where ms: "sk_room (cn_sink c1) = None" "all_fit ms"
      "sk_out (cn_sink c1) = sk_out (cn_sink c) @ framed ms" "G1 True (map fst ms)"
      using emitsE [OF m room continue(1)] by (metis is_ok_simps(1))
    obtain ms' where "sk_room (cn_sink c') = None" "all_fit ms'"
      "sk_out (cn_sink c') = sk_out (cn_sink c1) @ framed ms'" "G (is_ok r) (map fst ms @ map fst ms')"
      using emitsE [OF f [OF ms(4)] ms(1) continue(2)] by blast
    with ms show ?goal by (intro conjI exI [of _ "ms @ ms'"]) auto
  qed
qed

lemma emits_reply_exact: "emits (\<lambda>ok ts. ts = (if ok then [t] else [])) (reply t p)"
proof (cases "fits p")
  case True
  then show ?thesis unfolding emits_def by (auto simp: reply_open intro!: exI [of _ "[(t, p)]"])
next
  case False
  then have "write_message t p k = (Err (InvalidMessage ''message too large''), k)" for k
    by (simp add: write_message_def fits_def)
  then show ?thesis by (intro emits_quiet) (simp_all add: reply_def)
qed

lemma emits_reply [emits_rules]:
  "G False [] \<Longrightarrow> G True [t] \<Longrightarrow> emits G (reply t p)"
  "G False [] \<Longrightarrow> G True [MSG_ERROR] \<Longrightarrow> emits G (reply_error en text)"
  unfolding reply_error_def by (auto intro: emits_weaken [OF emits_reply_exact] split: if_splits)

lemma emits_reply_then [emits_rules]:
  "G False [] \<Longrightarrow> (\<And>x. emits (\<lambda>ok ts. G ok (t # ts)) (f x)) \<Longrightarrow> emits G (and_then (reply t p) f)"
  "G False [] \<Longrightarrow> (\<And>x. emits (\<lambda>ok ts. G ok (MSG_ERROR # ts)) (f x)) \<Longrightarrow> emits G (and_then (reply_error en text) f)"
  unfolding reply_error_def by (auto intro: emits_then [OF emits_reply_exact])

lemma emits_end [emits_rules]:
  "G True [] \<Longrightarrow> emits G (give x)" "G False [] \<Longrightarrow> emits G (fail e)"
  "G True [] \<Longrightarrow> emits G (event en ev)" "G True [] \<Longrightarrow> emits G (measure_end name d b)"
  by (rule emits_quiet; simp add: event_def measure_end_def)+

lemma emits_silent:
  "emits (\<lambda>ok ts. ok \<and> ts = []) (give x)" "emits (\<lambda>ok ts. ok \<and> ts = []) elapsed" "emits (\<lambda>ok ts. ok \<and> ts = []) (event en ev)"
  "emits (\<lambda>ok ts. ok \<and> ts = []) (measure_start name)" "emits (\<lambda>ok ts. ok \<and> ts = []) (measure_end name d b)"
  "emits (\<lambda>ok ts. ok \<and> ts = []) (run_handle h r)" "emits (\<lambda>ok ts. ok \<and> ts = []) (run_on_handshake h q)"
  "emits (\<lambda>ok ts. ok \<and> ts = []) (rate_check en client)"
  by (rule emits_quiet; simp add: elapsed_def event_def measure_start_def measure_end_def
      run_handle_def run_on_handshake_def rate_check_def split: prod.split list.split)+

lemma emits_silent_first:
  "emits (\<lambda>ok ts. ok \<and> ts = []) m \<Longrightarrow> (\<And>x. emits G (f x)) \<Longrightarrow> emits G (and_then m f)"
  by (erule emits_then) auto

lemmas emits_silent_then [emits_rules] = emits_silent [THEN emits_silent_first]

lemma emits_lift_then [emits_rules]:
  "G False [] \<Longrightarrow> (\<And>x. emits G (f x)) \<Longrightarrow> emits G (and_then (lift_result r) f)"
  by (rule emits_then [OF emits_quiet [where G = "\<lambda>ok ts. ts = []"]]) (auto simp: lift_result_def)

section \<open>The protocol\<close>

text \<open>The types of the messages that answer one message after the handshake, and their cut-off beginnings.\<close>

definition answer :: "server_config \<Rightarrow> u8 \<Rightarrow> bytes \<Rightarrow> shape" where
  "answer cf t p ok ts =
     (if length p > cf_max_request_size cf then ts = (if ok then [MSG_ERROR] else [])
      else if t = MSG_REQUEST then (if ok then ts = [MSG_RESPONSE] \<or> ts = [MSG_ERROR] else ts = [])
      else if t = MSG_STREAM_REQUEST \<and> cf_enable_streaming cf then
        (if ok then ts = [MSG_STREAM_START, MSG_STREAM_END] else ts = [] \<or> ts = [MSG_STREAM_START])
      else if t = MSG_PING then ts = (if ok then [MSG_PONG] else [])
      else if t = MSG_SCHEMA_REQUEST \<and> cf_enable_schema_introspection cf then
        ts = (if ok then [MSG_SCHEMA_RESPONSE] else [])
      else ok \<and> ts = [])"

definition goes_on :: "server_config \<Rightarrow> u8 \<Rightarrow> bytes \<Rightarrow> bool" where
  "goes_on cf t p = (if length p > cf_max_request_size cf then True else t \<noteq> MSG_CLOSE)"

text \<open>\<open>conforms cf ms ts\<close>: the messages \<open>ms\<close> may be answered by messages of the types \<open>ts\<close> in all.\<close>

inductive conforms :: "server_config \<Rightarrow> (u8 \<times> bytes) list \<Rightarrow> u8 list \<Rightarrow> bool" for cf where
  no_more: "conforms cf [] []"
| answered: "answer cf t p True ts \<Longrightarrow> goes_on cf t p \<Longrightarrow> conforms cf ms ts' \<Longrightarrow> conforms cf ((t, p) # ms) (ts @ ts')"
| closed: "answer cf t p True ts \<Longrightarrow> \<not> goes_on cf t p \<Longrightarrow> conforms cf [(t, p)] ts"
| broken: "answer cf t p False ts \<Longrightarrow> conforms cf [(t, p)] ts"

inductive_simps conforms_nil [simp]: "conforms cf [] ts"
inductive_cases conforms_consE: "conforms cf ((t, p) # ms) ts"

text \<open>A whole session begins with the handshake.\<close>

fun session_types :: "server_config \<Rightarrow> (u8 \<times> bytes) list \<Rightarrow> u8 list \<Rightarrow> bool" where
  "session_types cf [] ts = (ts = [])"
| "session_types cf ((t, p) # ms) ts =
     ((ms = [] \<and> (ts = [] \<or> ts = [MSG_ERROR]))
      \<or> (t = MSG_HANDSHAKE \<and> (case ts of ack # ts' \<Rightarrow> ack = MSG_HANDSHAKE_ACK \<and> conforms cf ms ts' | [] \<Rightarrow> False)))"

section \<open>The server keeps to it\<close>

lemma emits_dispatch: "emits (answer (en_config en) t p) (dispatch en h client_id t p)"
  unfolding dispatch_def serve_request_def serve_stream_def serve_schema_def Let_def
  by (auto simp: answer_def msg_defs and_then_assoc split: sum.split intro!: emits_rules)

lemma emits_shake:
  "emits (\<lambda>ok ts. if ok then t = MSG_HANDSHAKE \<and> ts = [MSG_HANDSHAKE_ACK] else ts = [] \<or> ts = [MSG_ERROR])
     (shake en h t p)"
  unfolding shake_def Let_def by (auto intro!: emits_rules)

text \<open>The value of a message is whether the loop goes on.\<close>

definition yields :: "'a \<Rightarrow> ('s, 'a) action \<Rightarrow> bool" where
  "yields x m \<longleftrightarrow> (\<forall>s y s'. m s = (Inr y, s') \<longrightarrow> y = x)"

lemma yields_rules: "yields x (give x)" "(\<And>y. yields x (f y)) \<Longrightarrow> yields x (and_then m f)"
  by (auto simp: yields_def elim!: and_then_cases)

lemma dispatch_goes_on: "yields (goes_on (en_config en) t p) (dispatch en h client_id t p)"
  unfolding dispatch_def Let_def goes_on_def by (auto simp: msg_defs intro!: yields_rules)

lemma serve_conforms:
  assumes "sk_room (cn_sink c) = None"
  shows "\<exists>ms n. all_fit ms
    \<and> sk_out (cn_sink (snd (serve en h client_id quiet input c))) = sk_out (cn_sink c) @ framed ms
    \<and> conforms (en_config en) (take n (fst (read_all input))) (map fst ms)"
  using assms
proof (induction en h client_id quiet input c rule: serve.induct)
  case (1 en h client_id quiet input c)
  have none: ?case if "snd (serve en h client_id quiet input c) = c"
    unfolding that by (rule exI [of _ "[]"], rule exI [of _ 0]) simp
  show ?case
  proof (cases "quiet \<noteq> [] \<and> hd quiet")
    case True
    then show ?thesis by (intro none) (subst serve.simps, simp)
  next
    case awake: False
    show ?thesis
    proof (cases "fst (read_message input)")
      case (Inl e)
      then show ?thesis using awake by (intro none) (subst serve.simps, auto split: prod.split)
    next
      case (Inr m)
      then obtain t payload rest where read: "read_message input = (Inr (t, payload), rest)"
        by (cases "read_message input"; cases m) auto
      then have all: "fst (read_all input) = (t, payload) # fst (read_all rest)"
        by (subst read_all.simps) (simp split: prod.split)
      obtain r c' where d: "dispatch en h client_id t payload c = (r, c')" by force
      obtain ms where ms: "sk_room (cn_sink c') = None" "all_fit ms"
        "sk_out (cn_sink c') = sk_out (cn_sink c) @ framed ms" "answer (en_config en) t payload (is_ok r) (map fst ms)"
        using emitsE [OF emits_dispatch 1(2) d] by blast
      have goes: "x = goes_on (en_config en) t payload" if "r = Inr x" for x
        using dispatch_goes_on [of en t payload h client_id] d that unfolding yields_def by blast
      show ?thesis
      proof (cases r)
        case (Inl e)
        then have "snd (serve en h client_id quiet input c) = c'"
          using awake read d by (subst serve.simps) auto
        with ms Inl show ?thesis
          by (intro exI [of _ ms] exI [of _ 1]) (simp add: all broken)
      next
        case (Inr go)
        show ?thesis
        proof (cases go)
          case False
          then have "snd (serve en h client_id quiet input c) = c'"
            using awake read d Inr by (subst serve.simps) auto
          with ms Inr False goes [OF Inr] show ?thesis
            by (intro exI [of _ ms] exI [of _ 1]) (simp add: all closed)
        next
          case True
          then have step: "serve en h client_id quiet input c = serve en h client_id (tl quiet) rest c'"
            using awake read d Inr by (subst serve.simps) auto
          obtain ms' n where "all_fit ms'"
            "sk_out (cn_sink (snd (serve en h client_id (tl quiet) rest c'))) = sk_out (cn_sink c') @ framed ms'"
            "conforms (en_config en) (take n (fst (read_all rest))) (map fst ms')"
            using 1(1) [OF awake, of "Inr (t, payload)" rest "(t, payload)" t payload "Inr go" c' go] read d Inr True ms(1) by auto
          with ms Inr True goes [OF Inr] show ?thesis
            unfolding step all
            by (intro exI [of _ "ms @ ms'"] exI [of _ "Suc n"]) (simp add: answered)
        qed
      qed
    qed
  qed
qed

text \<open>
  C9. The server keeps to the protocol. Whatever bytes a client sends and whenever the timers fire,
  what a connection writes is a sequence of whole messages, and their types are those of a session
  over the messages it took: nothing or one error when the handshake fails, otherwise one
  acknowledgement and then, for each message in order, its answer: a request has one response or
  one error, a streaming request a start and an end, a ping a pong, a schema query its response, an
  oversized message one error, any other nothing. Only the last answer can be cut off, by an error
  that ends the connection, and nothing follows a close.
\<close>

theorem server_keeps_protocol:
  "\<exists>ms n. all_fit ms
    \<and> sk_out (cn_sink (snd (handle_connection en h quiet input (c\<lparr>cn_sink := open_sink\<rparr>)))) = framed ms
    \<and> session_types (en_config en) (take n (fst (read_all input))) (map fst ms)"
proof -
  let ?c = "c\<lparr>cn_sink := open_sink\<rparr>"
  have room: "sk_room (cn_sink ?c) = None" and out: "sk_out (cn_sink ?c) = []" by (simp_all add: open_sink_def)
  show ?thesis
  proof (cases "fst (read_message input)")
    case (Inl e)
    with out show ?thesis
      by (intro exI [of _ "[]"] exI [of _ 0]) (auto simp: handle_connection_def split: prod.split)
  next
    case (Inr m)
    then obtain t p rest where read: "read_message input = (Inr (t, p), rest)"
      by (cases "read_message input"; cases m) auto
    then have all: "fst (read_all input) = (t, p) # fst (read_all rest)"
      by (subst read_all.simps) (simp split: prod.split)
    obtain r c1 where sh: "shake en h t p ?c = (r, c1)" by force
    obtain ms where ms: "sk_room (cn_sink c1) = None" "all_fit ms" "sk_out (cn_sink c1) = framed ms"
      "if is_ok r then t = MSG_HANDSHAKE \<and> map fst ms = [MSG_HANDSHAKE_ACK] else map fst ms = [] \<or> map fst ms = [MSG_ERROR]"
      using emitsE [OF emits_shake room sh] unfolding out by (metis append_Nil)
    show ?thesis
    proof (cases r)
      case (Inl e)
      with read sh ms show ?thesis
        by (intro exI [of _ ms] exI [of _ 1]) (simp add: handle_connection_def and_then_def all)
    next
      case (Inr client_id)
      obtain ms' n where ms': "all_fit ms'"
        "sk_out (cn_sink (snd (serve en h client_id quiet rest c1))) = sk_out (cn_sink c1) @ framed ms'"
        "conforms (en_config en) (take n (fst (read_all rest))) (map fst ms')"
        using serve_conforms [OF ms(1)] by blast
      have "session_types (en_config en) (take (Suc n) (fst (read_all input))) (map fst (ms @ ms'))"
        using ms(4) ms'(3) Inr by (simp add: all)
      moreover have "snd (handle_connection en h quiet input ?c) = snd (serve en h client_id quiet rest c1)"
        using read sh Inr by (simp add: handle_connection_def and_then_def)
      ultimately show ?thesis
        using ms ms' by (intro exI [of _ "ms @ ms'"] exI [of _ "Suc n"]) simp
    qed
  qed
qed

end
