(* ===== verification/Server_System.thy ===== *)
theory Server_System
  imports Conformance
begin

text \<open>
  A whole server of \<^verbatim>\<open>src/src/server.rs\<close>: the accept loop, and the tasks of all connections
  with the handler, the metrics, the rate limiter and the notifications they share. A step takes
  one connection, or one message of one connection with the code of \<open>Server\<close>, in any order; the
  clock runs between steps. What the code of two messages does to the shared state at the same
  time is taken here in one order or the other: each use of it is a single operation under a lock
  or of the handler. A handler that panics is treated with the accept loop in \<open>Server\<close>.
\<close>

section \<open>Tasks and the state they share\<close>

datatype task_phase = Greeting | Serving string | Ended "unit result"

text \<open>The client a task serves, and since when, is remembered after its end, as are the messages it took.\<close>

record task =
  tk_phase :: task_phase
  tk_sink :: sink
  tk_client :: "(string \<times> instant) option"
  tk_taken :: "(u8 \<times> bytes) list"

record 's server_system =
  sy_now :: instant
  sy_active :: nat \<comment> \<open>\<open>ACTIVE_CONNECTIONS\<close>\<close>
  sy_handler :: 's
  sy_metrics :: "metrics_collector option"
  sy_limiter :: auth_limiter
  sy_events :: "webhook_event list option"
  sy_tasks :: "task list"

definition system_start :: "surroundings \<Rightarrow> metrics_collector option \<Rightarrow> 's \<Rightarrow> 's server_system" where
  "system_start en mc state =
     \<lparr>sy_now = 0, sy_active = 0, sy_handler = state, sy_metrics = mc, sy_limiter = server_limiter (en_config en),
      sy_events = map_option (\<lambda>_. []) (server_webhooks (en_config en)), sy_tasks = []\<rparr>"

text \<open>A task sees the shared state and its own writer, and leaves both changed.\<close>

definition task_view :: "task \<Rightarrow> duration list \<Rightarrow> 's server_system \<Rightarrow> 's connection" where
  "task_view tk timings s =
     \<lparr>cn_sink = tk_sink tk, cn_handler = sy_handler s, cn_metrics = sy_metrics s, cn_limiter = sy_limiter s,
      cn_events = sy_events s, cn_timings = timings\<rparr>"

definition task_store :: "nat \<Rightarrow> task \<Rightarrow> 's connection \<Rightarrow> 's server_system \<Rightarrow> 's server_system" where
  "task_store i tk c s =
     s\<lparr>sy_handler := cn_handler c, sy_metrics := cn_metrics c, sy_limiter := cn_limiter c, sy_events := cn_events c,
       sy_tasks := (sy_tasks s)[i := tk\<lparr>tk_sink := cn_sink c\<rparr>]\<rparr>"

text \<open>The end of a task, with a result that is only logged.\<close>

definition task_end :: "nat \<Rightarrow> unit result \<Rightarrow> 's server_system \<Rightarrow> 's server_system" where
  "task_end i r s =
     s\<lparr>sy_active := sy_active s - 1, sy_tasks := (sy_tasks s)[i := (sy_tasks s ! i)\<lparr>tk_phase := Ended r\<rparr>]\<rparr>"

definition accept :: "nat \<Rightarrow> sink \<Rightarrow> 's server_system \<Rightarrow> 's server_system" where
  "accept max_connections k s =
     (if sy_active s \<ge> max_connections then s
      else s\<lparr>sy_active := sy_active s + 1,
             sy_tasks := sy_tasks s @ [\<lparr>tk_phase = Greeting, tk_sink = k, tk_client = None, tk_taken = []\<rparr>]\<rparr>)"

definition receive :: "surroundings \<Rightarrow> 's service_handler \<Rightarrow> nat \<Rightarrow> u8 \<Rightarrow> bytes \<Rightarrow> duration list
    \<Rightarrow> 's server_system \<Rightarrow> 's server_system" where
  "receive en h i t p timings s =
     (let tk = sy_tasks s ! i; c = task_view tk timings s;
          tk = tk\<lparr>tk_taken := tk_taken tk @ [(t, p)]\<rparr> in
      case tk_phase tk of
        Greeting \<Rightarrow>
          (case shake (en\<lparr>en_now := sy_now s\<rparr>) h t p c of
             (Inl e, c) \<Rightarrow> task_end i (Err e) (task_store i tk c s)
           | (Inr client, c) \<Rightarrow>
               task_store i (tk\<lparr>tk_phase := Serving client, tk_client := Some (client, sy_now s)\<rparr>) c s)
      | Serving client \<Rightarrow>
          (case dispatch (en\<lparr>en_now := sy_now s\<rparr>) h client t p c of
             (Inl e, c) \<Rightarrow> task_end i (Err e) (task_store i tk c s)
           | (Inr go_on, c) \<Rightarrow>
               if go_on then task_store i tk c s else task_end i (Ok ()) (task_store i tk c s))
      | Ended _ \<Rightarrow> s)"

text \<open>A read that gives no message: the timer of the request, or the end or an error of the stream.\<close>

definition hang_up :: "nat \<Rightarrow> protocol_error \<Rightarrow> 's server_system \<Rightarrow> 's server_system" where
  "hang_up i e s = (case tk_phase (sy_tasks s ! i) of
       Greeting \<Rightarrow> task_end i (Err e) s
     | Serving _ \<Rightarrow> task_end i (Ok ()) s
     | Ended _ \<Rightarrow> s)"

inductive system_step :: "surroundings \<Rightarrow> 's service_handler \<Rightarrow> 's server_system \<Rightarrow> 's server_system \<Rightarrow> bool"
  for en :: surroundings and h :: "'s service_handler" where
  sy_accept: "sk_out k = [] \<Longrightarrow> system_step en h s (accept (cf_max_connections (en_config en)) k s)"
| sy_receive: "i < length (sy_tasks s) \<Longrightarrow> system_step en h s (receive en h i t p timings s)"
| sy_hang_up: "i < length (sy_tasks s) \<Longrightarrow> system_step en h s (hang_up i e s)"
| sy_tick: "system_step en h s (s\<lparr>sy_now := sy_now s + d\<rparr>)"

section \<open>What a message does to the limiter\<close>


lemma write_message_room: "sk_room (snd (write_message t p k)) = None \<longleftrightarrow> sk_room k = None"
proof -
  have all: "keeps (\<lambda>k. sk_room k = None) (write_all bs)" for bs
    by (simp add: keeps_def write_all_def split: option.split)
  have "keeps (\<lambda>k. sk_room k = None) (write_message t p)"
    unfolding write_message_def Let_def by (auto intro!: keeps_intros all)
  then show ?thesis by (simp add: keeps_def)
qed

lemma keeps_room [keeps_intros]:
  "keeps (\<lambda>c. sk_room (cn_sink c) = None) elapsed" "keeps (\<lambda>c. sk_room (cn_sink c) = None) (event en e)"
  "keeps (\<lambda>c. sk_room (cn_sink c) = None) (measure_start name)" "keeps (\<lambda>c. sk_room (cn_sink c) = None) (measure_end name d b)"
  "keeps (\<lambda>c. sk_room (cn_sink c) = None) (run_handle h r)" "keeps (\<lambda>c. sk_room (cn_sink c) = None) (run_on_handshake h q)"
  "keeps (\<lambda>c. sk_room (cn_sink c) = None) (rate_check en client)" "keeps (\<lambda>c. sk_room (cn_sink c) = None) (reply t p)"
  "keeps (\<lambda>c. sk_room (cn_sink c) = None) (reply_error en text)"
  using write_message_room
  by (auto simp: keeps_def elapsed_def event_def measure_start_def measure_end_def run_handle_def run_on_handshake_def
      rate_check_def reply_def reply_error_def split: list.split prod.split) (metis snd_conv)+

lemma dispatch_room: "keeps (\<lambda>c. sk_room (cn_sink c) = None) (dispatch en h cid t p)"
  by (auto simp: dispatch_def serve_request_def serve_stream_def serve_schema_def Let_def
      intro!: keeps_intros split: sum.split)

lemma shake_room: "keeps (\<lambda>c. sk_room (cn_sink c) = None) (shake en h t p)"
  by (auto simp: shake_def Let_def intro!: keeps_intros)

section \<open>The cases of a step\<close>

definition running :: "task \<Rightarrow> bool" where
  "running tk = (case tk_phase tk of Ended _ \<Rightarrow> False | _ \<Rightarrow> True)"

lemma running_simps [simp]:
  "tk_phase tk = Greeting \<Longrightarrow> running tk" "tk_phase tk = Serving client \<Longrightarrow> running tk" "tk_phase tk = Ended r \<Longrightarrow> \<not> running tk"
  by (simp_all add: running_def)

text \<open>How one task moves, and the limiter with it.\<close>

inductive task_move :: "surroundings \<Rightarrow> 's service_handler \<Rightarrow> 's server_system \<Rightarrow> task \<Rightarrow> task \<Rightarrow> auth_limiter \<Rightarrow> bool"
  for en :: surroundings and h :: "'s service_handler" and s :: "'s server_system" and tk :: task where
  gave_up: "tk_phase tk = Greeting \<Longrightarrow> task_move en h s tk (tk\<lparr>tk_phase := Ended (Err e)\<rparr>) (sy_limiter s)"
| left: "tk_phase tk = Serving client \<Longrightarrow> task_move en h s tk (tk\<lparr>tk_phase := Ended (Ok ())\<rparr>) (sy_limiter s)"
| refused: "tk_phase tk = Greeting \<Longrightarrow> shake (en\<lparr>en_now := sy_now s\<rparr>) h t p (task_view tk ds s) = (Inl e, c)
    \<Longrightarrow> task_move en h s tk (tk\<lparr>tk_taken := tk_taken tk @ [(t, p)], tk_sink := cn_sink c, tk_phase := Ended (Err e)\<rparr>) (cn_limiter c)"
| welcomed: "tk_phase tk = Greeting \<Longrightarrow> shake (en\<lparr>en_now := sy_now s\<rparr>) h t p (task_view tk ds s) = (Inr client, c)
    \<Longrightarrow> task_move en h s tk (tk\<lparr>tk_taken := tk_taken tk @ [(t, p)], tk_phase := Serving client,
          tk_client := Some (client, sy_now s), tk_sink := cn_sink c\<rparr>) (cn_limiter c)"
| broke: "tk_phase tk = Serving client \<Longrightarrow> dispatch (en\<lparr>en_now := sy_now s\<rparr>) h client t p (task_view tk ds s) = (Inl e, c)
    \<Longrightarrow> task_move en h s tk (tk\<lparr>tk_taken := tk_taken tk @ [(t, p)], tk_sink := cn_sink c, tk_phase := Ended (Err e)\<rparr>) (cn_limiter c)"
| served: "tk_phase tk = Serving client \<Longrightarrow> dispatch (en\<lparr>en_now := sy_now s\<rparr>) h client t p (task_view tk ds s) = (Inr True, c)
    \<Longrightarrow> task_move en h s tk (tk\<lparr>tk_taken := tk_taken tk @ [(t, p)], tk_sink := cn_sink c\<rparr>) (cn_limiter c)"
| closed_down: "tk_phase tk = Serving client \<Longrightarrow> dispatch (en\<lparr>en_now := sy_now s\<rparr>) h client t p (task_view tk ds s) = (Inr False, c)
    \<Longrightarrow> task_move en h s tk (tk\<lparr>tk_taken := tk_taken tk @ [(t, p)], tk_sink := cn_sink c, tk_phase := Ended (Ok ())\<rparr>) (cn_limiter c)"

definition fresh_task :: "sink \<Rightarrow> task" where
  "fresh_task k = \<lparr>tk_phase = Greeting, tk_sink = k, tk_client = None, tk_taken = []\<rparr>"

lemma step_cases:
  assumes "system_step en h s s'"
  obtains (idle) "sy_tasks s' = sy_tasks s" "sy_active s' = sy_active s" "sy_limiter s' = sy_limiter s" "sy_now s \<le> sy_now s'"
    | (fresh) k where "sk_out k = []" "sy_active s < cf_max_connections (en_config en)" "sy_tasks s' = sy_tasks s @ [fresh_task k]"
        "sy_active s' = sy_active s + 1" "sy_limiter s' = sy_limiter s" "sy_now s' = sy_now s"
    | (move) i tk l where "i < length (sy_tasks s)" "running (sy_tasks s ! i)" "sy_tasks s' = (sy_tasks s)[i := tk]"
        "sy_active s' = (if running tk then sy_active s else sy_active s - 1)" "sy_now s' = sy_now s"
        "sy_limiter s' = l" "task_move en h s (sy_tasks s ! i) tk l"
  using assms
proof cases
  case (sy_accept k)
  then show ?thesis
    using idle fresh [of k] by (cases "sy_active s \<ge> cf_max_connections (en_config en)") (auto simp: accept_def fresh_task_def)
next
  case (sy_receive i t p ds)
  let ?tk = "sy_tasks s ! i" and ?en = "en\<lparr>en_now := sy_now s\<rparr>" and ?c = "task_view (sy_tasks s ! i) ds s"
  note defs = receive_def task_store_def task_end_def Let_def
  show ?thesis
  proof (cases "tk_phase ?tk")
    case Greeting
    obtain r c where sh: "shake ?en h t p ?c = (r, c)" by force
    show ?thesis
    proof (cases r)
      case (Inl e)
      with Greeting sy_receive sh show ?thesis
        by (intro move [OF _ _ _ _ _ _ refused [OF Greeting sh [unfolded Inl]]]) (simp_all add: defs)
    next
      case (Inr client)
      with Greeting sy_receive sh show ?thesis
        by (intro move [OF _ _ _ _ _ _ welcomed [OF Greeting sh [unfolded Inr]]]) (simp_all add: defs)
    qed
  next
    case (Serving client)
    obtain r c where d: "dispatch ?en h client t p ?c = (r, c)" by force
    consider (Err) e where "r = Inl e" | (Go) "r = Inr True" | (Stop) "r = Inr False" by (cases r) auto
    then show ?thesis
    proof cases
      case Err
      with Serving sy_receive d show ?thesis
        by (intro move [OF _ _ _ _ _ _ broke [OF Serving d [unfolded Err]]]) (simp_all add: defs)
    next
      case Go
      with Serving sy_receive d show ?thesis
        by (intro move [OF _ _ _ _ _ _ served [OF Serving d [unfolded Go]]]) (simp_all add: defs)
    next
      case Stop
      with Serving sy_receive d show ?thesis
        by (intro move [OF _ _ _ _ _ _ closed_down [OF Serving d [unfolded Stop]]]) (simp_all add: defs)
    qed
  next
    case (Ended r)
    with sy_receive idle show ?thesis by (simp add: receive_def Let_def)
  qed
next
  case (sy_hang_up i e)
  then show ?thesis
    using idle move [of i "sy_tasks s' ! i" "sy_limiter s"]
    by (cases "tk_phase (sy_tasks s ! i)")
      (auto simp: hang_up_def task_end_def running_def intro: gave_up left)
next
  case (sy_tick d)
  then show ?thesis using idle by simp
qed

section \<open>Limits\<close>












section \<open>What each client sees\<close>

text \<open>Messages that are answered in full, and after which the loop goes on.\<close>

inductive answered_all :: "server_config \<Rightarrow> (u8 \<times> bytes) list \<Rightarrow> u8 list \<Rightarrow> bool" for cf where
  answered_none: "answered_all cf [] []"
| answered_more: "answered_all cf ms ts \<Longrightarrow> answer cf t p True ts' \<Longrightarrow> goes_on cf t p \<Longrightarrow> answered_all cf (ms @ [(t, p)]) (ts @ ts')"

lemma answered_conforms:
  "answered_all cf ms ts \<Longrightarrow> conforms cf ms' ts' \<Longrightarrow> conforms cf (ms @ ms') (ts @ ts')"
  by (induction arbitrary: ms' ts' rule: answered_all.induct) (auto intro: answered)

definition task_conforms :: "server_config \<Rightarrow> task \<Rightarrow> bool" where
  "task_conforms cf tk \<longleftrightarrow> (if sk_room (tk_sink tk) = None then \<exists>ms. all_fit ms \<and> sk_out (tk_sink tk) = framed ms
     \<and> (case tk_phase tk of
          Greeting \<Rightarrow> ms = [] \<and> tk_taken tk = []
        | Serving _ \<Rightarrow> \<exists>p taken ts. tk_taken tk = (MSG_HANDSHAKE, p) # taken \<and> map fst ms = MSG_HANDSHAKE_ACK # ts
            \<and> answered_all cf taken ts
        | Ended _ \<Rightarrow> session_types cf (tk_taken tk) (map fst ms))
     else True)"

lemma serving_sofar:
  assumes "task_conforms cf tk" and "tk_phase tk = Serving client" and "sk_room (tk_sink tk) = None"
  shows "\<exists>ms p taken ts. all_fit ms \<and> sk_out (tk_sink tk) = framed ms \<and> tk_taken tk = (MSG_HANDSHAKE, p) # taken
    \<and> map fst ms = MSG_HANDSHAKE_ACK # ts \<and> answered_all cf taken ts"
  using assms by (simp add: task_conforms_def)

lemma greeting_sofar:
  "task_conforms cf tk \<Longrightarrow> tk_phase tk = Greeting \<Longrightarrow> sk_room (tk_sink tk) = None \<Longrightarrow> sk_out (tk_sink tk) = [] \<and> tk_taken tk = []"
  by (auto simp: task_conforms_def)

lemma serving_emits:
  assumes "dispatch en' h client t p (task_view old ds s) = (r, c)" and "en_config en' = cf"
    and "task_conforms cf old" and "tk_phase old = Serving client" and "sk_room (cn_sink c) = None"
  shows "\<exists>ms p0 taken ts ts'. all_fit ms \<and> sk_out (cn_sink c) = framed ms \<and> tk_taken old = (MSG_HANDSHAKE, p0) # taken
    \<and> map fst ms = MSG_HANDSHAKE_ACK # ts @ ts' \<and> answered_all cf taken ts \<and> answer cf t p (is_ok r) ts'
    \<and> (case r of Inl _ \<Rightarrow> True | Inr go \<Rightarrow> go = goes_on cf t p)"
proof -
  have view: "cn_sink (task_view old ds s) = tk_sink old" by (simp add: task_view_def)
  have room: "sk_room (tk_sink old) = None"
    using keepsD [OF dispatch_room, of en' h client t p "task_view old ds s"] assms(1,5) view by simp
  obtain ms1 p0 taken ts where old: "all_fit ms1" "sk_out (tk_sink old) = framed ms1"
    "tk_taken old = (MSG_HANDSHAKE, p0) # taken" "map fst ms1 = MSG_HANDSHAKE_ACK # ts" "answered_all cf taken ts"
    using serving_sofar [OF assms(3,4) room] by metis
  obtain ms2 where new: "all_fit ms2" "sk_out (cn_sink c) = sk_out (tk_sink old) @ framed ms2" "answer cf t p (is_ok r) (map fst ms2)"
    using emitsE [OF emits_dispatch _ assms(1)] room view assms(2) by metis
  have "case r of Inl _ \<Rightarrow> True | Inr go \<Rightarrow> go = goes_on cf t p"
    using dispatch_goes_on [of en' t p h client] assms(1,2) unfolding yields_def by (auto split: sum.split)
  with old new show ?thesis
    by (intro exI [of _ "ms1 @ ms2"] exI [of _ p0] exI [of _ taken] exI [of _ ts] exI [of _ "map fst ms2"]) simp
qed

lemma session_end:
  assumes "answered_all cf taken ts" and "conforms cf [(t, p)] ts'"
  shows "session_types cf (((MSG_HANDSHAKE, p0) # taken) @ [(t, p)]) (MSG_HANDSHAKE_ACK # ts @ ts')"
  using answered_conforms [OF assms] by simp

lemma conforms_all: "answered_all cf ms ts \<Longrightarrow> conforms cf ms ts"
  using answered_conforms [of cf ms ts "[]" "[]"] by simp

lemma move_conforms:
  assumes "task_move en h s old tk l" and "task_conforms (en_config en) old"
  shows "task_conforms (en_config en) tk"
proof (cases "sk_room (tk_sink tk) = None")
  case room: True
  let ?cf = "en_config en"
  have view: "cn_sink (task_view old ds s) = tk_sink old" for ds by (simp add: task_view_def)
  from assms(1) show ?thesis
  proof cases
    case (gave_up e)
    then have "sk_out (tk_sink old) = [] \<and> tk_taken old = []" using room by (intro greeting_sofar [OF assms(2)]) simp_all
    with gave_up room show ?thesis by (simp add: task_conforms_def exI [of _ "[]"])
  next
    case (left client)
    obtain ms p taken ts where "all_fit ms" "sk_out (tk_sink old) = framed ms"
      "tk_taken old = (MSG_HANDSHAKE, p) # taken" "map fst ms = MSG_HANDSHAKE_ACK # ts" "answered_all ?cf taken ts"
      using serving_sofar [OF assms(2) left(3)] left room by (simp, metis)
    with left show ?thesis by (auto simp: task_conforms_def conforms_all intro!: exI [of _ ms])
  next
    case (refused t p ds e c)
    have r: "sk_room (tk_sink old) = None"
      using keepsD [OF shake_room, of "en\<lparr>en_now := sy_now s\<rparr>" h t p "task_view old ds s"] refused room view by simp
    then obtain ms where "all_fit ms" "sk_out (cn_sink c) = sk_out (tk_sink old) @ framed ms" "map fst ms = [] \<or> map fst ms = [MSG_ERROR]"
      using emitsE [OF emits_shake _ refused(4)] view by (metis is_ok_simps(2))
    with greeting_sofar [OF assms(2) refused(3) r] refused room show ?thesis
      by (simp add: task_conforms_def) (metis append_Nil)
  next
    case (welcomed t p ds client c)
    have r: "sk_room (tk_sink old) = None"
      using keepsD [OF shake_room, of "en\<lparr>en_now := sy_now s\<rparr>" h t p "task_view old ds s"] welcomed room view by simp
    then obtain ms where "all_fit ms" "sk_out (cn_sink c) = sk_out (tk_sink old) @ framed ms" "t = MSG_HANDSHAKE" "map fst ms = [MSG_HANDSHAKE_ACK]"
      using emitsE [OF emits_shake _ welcomed(4)] view by (metis is_ok_simps(1))
    with greeting_sofar [OF assms(2) welcomed(3) r] welcomed room show ?thesis
      by (simp add: task_conforms_def exI [of _ ms] answered_none)
  next
    case (broke client t p ds e c)
    have "sk_room (cn_sink c) = None" using broke room by simp
    from serving_emits [OF broke(4) _ assms(2) broke(3) this]
    obtain ms p0 taken ts ts' where "all_fit ms" "sk_out (cn_sink c) = framed ms" "tk_taken old = (MSG_HANDSHAKE, p0) # taken"
      "map fst ms = MSG_HANDSHAKE_ACK # ts @ ts'" "answered_all ?cf taken ts" "answer ?cf t p False ts'"
      by (simp, metis)
    with broke room session_end [OF _ conforms.broken, of ?cf taken ts t p ts' p0] show ?thesis
      by (auto simp: task_conforms_def simp del: session_types.simps intro!: exI [of _ ms])
  next
    case (served client t p ds c)
    have "sk_room (cn_sink c) = None" using served room by simp
    from serving_emits [OF served(4) _ assms(2) served(3) this]
    obtain ms p0 taken ts ts' where "all_fit ms" "sk_out (cn_sink c) = framed ms" "tk_taken old = (MSG_HANDSHAKE, p0) # taken"
      "map fst ms = MSG_HANDSHAKE_ACK # ts @ ts'" "answered_all ?cf taken ts" "answer ?cf t p True ts'" "goes_on ?cf t p"
      by (simp, metis)
    with served room show ?thesis
      by (auto simp: task_conforms_def intro!: exI [of _ ms] answered_more)
  next
    case (closed_down client t p ds c)
    have "sk_room (cn_sink c) = None" using closed_down room by simp
    from serving_emits [OF closed_down(4) _ assms(2) closed_down(3) this]
    obtain ms p0 taken ts ts' where "all_fit ms" "sk_out (cn_sink c) = framed ms" "tk_taken old = (MSG_HANDSHAKE, p0) # taken"
      "map fst ms = MSG_HANDSHAKE_ACK # ts @ ts'" "answered_all ?cf taken ts" "answer ?cf t p True ts'" "\<not> goes_on ?cf t p"
      by (simp, metis)
    with closed_down room session_end [OF _ conforms.closed, of ?cf taken ts t p ts' p0] show ?thesis
      by (auto simp: task_conforms_def simp del: session_types.simps intro!: exI [of _ ms])
  qed
qed (auto simp: task_conforms_def)

interpretation system_protocol: invariant_system "\<lambda>s. s = system_start en mc state" "system_step en h"
  "\<lambda>s. list_all (task_conforms (en_config en)) (sy_tasks s)"
proof unfold_locales
  fix s s' :: "'a server_system"
  assume "system_step en h s s'" and ok: "list_all (task_conforms (en_config en)) (sy_tasks s)"
  then show "list_all (task_conforms (en_config en)) (sy_tasks s')"
  proof (cases rule: step_cases)
    case (fresh k)
    then have "task_conforms (en_config en) (fresh_task k)"
      by (simp add: task_conforms_def fresh_task_def exI [of _ "[]"])
    with fresh ok show ?thesis by simp
  next
    case (move i tk l)
    then have "task_conforms (en_config en) tk" using ok by (intro move_conforms [OF move(7)]) (simp add: list_all_length)
    with move ok show ?thesis by (auto simp: list_all_iff dest: subsetD [OF set_update_subset_insert])
  qed simp
qed (simp add: system_start_def)

text \<open>
  C10. Each client sees the protocol, whatever the others do. In every reachable state of the server,
  every connection that takes what is written has been written whole messages, whose types are those
  of a session over exactly the messages it took: while it is served, one acknowledgement and then the
  full answer to each message in order; when it has ended, such a session, the last answer of which
  an error may have cut off.
\<close>

theorem every_client_sees_protocol:
  assumes "reachable (\<lambda>s. s = system_start en mc state) (system_step en h) s"
  shows "list_all (task_conforms (en_config en)) (sy_tasks s)"
  by (rule system_protocol.reachable_inv [OF assms])

text \<open>
  The first read has no timer: connections that send nothing keep their slots. While all slots are
  taken, no connection is accepted, however long it takes.
\<close>

lemma silent_connections_block:
  assumes "(\<lambda>s s'. (\<exists>k. s' = accept m k s) \<or> (\<exists>d. s' = s\<lparr>sy_now := sy_now s + d\<rparr>))\<^sup>*\<^sup>* s s'" and "m \<le> sy_active s"
  shows "sy_tasks s' = sy_tasks s \<and> sy_active s' = sy_active s"
  using assms by (induction rule: rtranclp_induct) (auto simp: accept_def)

section \<open>A run of the sample\<close>

text \<open>Two connections; the first shakes hands, the second hangs up before it has.\<close>

definition sample_greeting :: bytes where
  "sample_greeting = jc_to_vec tagged (hq_to_json \<lparr>hq_client_id = ''c'', hq_service_name = ''echo'', hq_capabilities = []\<rparr>)"

definition sample_two :: "nat server_system" where
  "sample_two = accept 10000 open_sink (accept 10000 open_sink (system_start sample_surroundings (Some mc_new) 0))"

definition sample_run :: "nat server_system" where
  "sample_run = hang_up 1 ConnectionClosed (receive sample_surroundings sample_handler 0 MSG_HANDSHAKE sample_greeting [] sample_two)"

abbreviation sample_reachable :: "nat server_system \<Rightarrow> bool" where
  "sample_reachable \<equiv> reachable (\<lambda>s. s = system_start sample_surroundings (Some mc_new) 0) (system_step sample_surroundings sample_handler)"

lemma sample_two_eq:
  "sy_tasks sample_two = [fresh_task open_sink, fresh_task open_sink]" "sy_active sample_two = 2" "sy_now sample_two = 0"
  "sy_limiter sample_two = server_limiter server_config_default" "sy_handler sample_two = 0"
  by (simp_all add: sample_two_def accept_def system_start_def fresh_task_def sample_surroundings_def)

lemma sample_two_reachable: "sample_reachable sample_two"
proof -
  have step: "system_step sample_surroundings sample_handler s (accept 10000 open_sink s)" for s
    using sy_accept [of open_sink sample_surroundings sample_handler s]
    by (simp add: sample_surroundings_def server_config_default_def open_sink_def)
  have "sample_reachable (system_start sample_surroundings (Some mc_new) 0)" by (rule reach_init) simp
  from reach_step [OF reach_step [OF this step] step] show ?thesis by (simp add: sample_two_def)
qed

lemma sample_run_reachable: "sample_reachable sample_run"
proof -
  have "sample_reachable (receive sample_surroundings sample_handler 0 MSG_HANDSHAKE sample_greeting [] sample_two)"
    by (rule reach_step [OF sample_two_reachable], rule sy_receive) (simp add: sample_two_eq)
  then show ?thesis
    unfolding sample_run_def
    by (rule reach_step, intro sy_hang_up)
      (simp add: receive_def task_store_def task_end_def sample_two_eq Let_def split: task_phase.split prod.split sum.split)
qed

lemma sample_shaken:
  "\<exists>c. shake (sample_surroundings\<lparr>en_now := 0\<rparr>) sample_handler MSG_HANDSHAKE sample_greeting
      (task_view (fresh_task open_sink) [] sample_two) = (Ok ''c'', c)"
proof -
  let ?en = "sample_surroundings\<lparr>en_now := 0\<rparr>" and ?c = "task_view (fresh_task open_sink) [] sample_two"
  let ?q = "\<lparr>hq_client_id = ''c'', hq_service_name = ''echo'', hq_capabilities = []\<rparr>"
  have fit: "fits (jc_to_vec (en_codec ?en) (hr_to_json (fst (sh_on_handshake sample_handler r s))))" for r and s
    by (rule fits_short) (simp add: sample_defs hr_to_json_def)
  have room: "sk_room (cn_sink ?c) = None" by (simp add: task_view_def fresh_task_def open_sink_def)
  have "readable (hq_to_json ?q)"
    by (simp add: readable_def hq_to_json_def utf8_def)
  then have "decode (en_codec ?en) hq_of_json ''HandshakeRequest'' sample_greeting = Inr ?q"
    unfolding sample_greeting_def
    by (simp add: sample_surroundings_def handshake_request.decode_to_vec [OF tagged_law])
  moreover have "fst (al_check ''c'' (en_now ?en) (cn_limiter ?c))"
    by (simp add: task_view_def sample_two_eq server_limiter_def server_config_default_def al_check_def al_new_def or_default_def)
  moreover have "length sample_greeting \<le> cf_max_request_size (en_config ?en)"
    by (simp add: sample_greeting_def sample_defs hq_to_json_def)
  ultimately have "fst (shake ?en sample_handler MSG_HANDSHAKE sample_greeting ?c) = Ok ''c''"
    using admission [OF room fit, of MSG_HANDSHAKE sample_greeting "''c''"] by simp
  then show ?thesis by (metis prod.collapse)
qed

lemma sample_run_tasks:
  "map tk_phase (sy_tasks sample_run) = [Serving ''c'', Ended (Err ConnectionClosed)]" "sy_active sample_run = 1"
  "map tk_client (sy_tasks sample_run) = [Some (''c'', 0), None]"
proof -
  obtain c where c: "shake (sample_surroundings\<lparr>en_now := 0\<rparr>) sample_handler MSG_HANDSHAKE sample_greeting
      (task_view (fresh_task open_sink) [] sample_two) = (Ok ''c'', c)" using sample_shaken by blast
  note defs = sample_run_def hang_up_def receive_def task_store_def task_end_def sample_two_eq Let_def c
  have "tk_phase (fresh_task open_sink) = Greeting" "tk_client (fresh_task open_sink) = None" by (simp_all add: fresh_task_def)
  then show "map tk_phase (sy_tasks sample_run) = [Serving ''c'', Ended (Err ConnectionClosed)]" "sy_active sample_run = 1"
    "map tk_client (sy_tasks sample_run) = [Some (''c'', 0), None]"
    by (simp_all add: defs)
qed


lemma every_client_sees_protocol_witness:
  "map tk_phase (sy_tasks sample_run) = [Serving ''c'', Ended (Err ConnectionClosed)]
   \<and> list_all (task_conforms server_config_default) (sy_tasks sample_run)"
  using every_client_sees_protocol [OF sample_run_reachable] sample_run_tasks
  by (simp add: sample_surroundings_def)

end
