(* ===== verification/Tcp.thy ===== *)
theory Tcp
  imports Wire Protocol Tagged_Codec
begin

text \<open>
  The TCP transport, \<^verbatim>\<open>src/src/tcp.rs\<close>: the server's connection handler, whose loop may
  run for ever and is a partial function, and the client, in conversation with such a server. The
  accept loops are functions of what the listening socket and the shutdown channel yield.
\<close>

section \<open>The server's side of a connection\<close>

record 's tcp_connection =
  tp_sink :: sink
  tp_handler :: 's

definition tcp_reply :: "u8 \<Rightarrow> bytes \<Rightarrow> ('s tcp_connection, unit) action" where
  "tcp_reply t p c = (case write_message t p (tp_sink c) of (r, k) \<Rightarrow> (r, c\<lparr>tp_sink := k\<rparr>))"

definition tcp_handshake :: "json_codec \<Rightarrow> 's service_handler \<Rightarrow> u8 \<Rightarrow> bytes \<Rightarrow> ('s tcp_connection, unit) action" where
  "tcp_handshake cd h msg_type payload =
     (if msg_type \<noteq> MSG_HANDSHAKE then fail (Protocol ''expected handshake'')
      else
        and_then (\<lambda>c. (from_slice cd hq_of_json ''HandshakeRequest'' payload, c)) (\<lambda>request.
        and_then (\<lambda>c. case sh_on_handshake h request (tp_handler c) of (x, s) \<Rightarrow> (Ok x, c\<lparr>tp_handler := s\<rparr>)) (\<lambda>response.
        tcp_reply MSG_HANDSHAKE_ACK (jc_to_vec cd (hr_to_json response)))))"

text \<open>One message of the loop; the result says whether the loop goes on.\<close>

definition tcp_message :: "json_codec \<Rightarrow> 's service_handler \<Rightarrow> u8 \<Rightarrow> bytes \<Rightarrow> ('s tcp_connection, bool) action" where
  "tcp_message cd h t payload =
     (if t = MSG_REQUEST then
        and_then (\<lambda>c. (from_slice cd rq_of_json ''ServiceRequest'' payload, c)) (\<lambda>request.
        and_then (\<lambda>c. case sh_handle h request (tp_handler c) of (x, s) \<Rightarrow> (Ok x, c\<lparr>tp_handler := s\<rparr>)) (\<lambda>response.
        and_then (tcp_reply MSG_RESPONSE (jc_to_vec cd (rs_to_json response))) (\<lambda>_.
        give True)))
      else if t = MSG_PING then and_then (tcp_reply MSG_PONG []) (\<lambda>_. give True)
      else if t = MSG_CLOSE then give False
      else give True)"

text \<open>
  The loop over the bytes the peer sends before it closes its side. A read that fails with any
  error but \<open>ConnectionClosed\<close> leads to another read.
\<close>

partial_function (option) tcp_serve :: "json_codec \<Rightarrow> 's service_handler \<Rightarrow> bytes \<Rightarrow> 's tcp_connection
    \<Rightarrow> (unit result \<times> 's tcp_connection) option" where
  "tcp_serve cd h input c =
     (case read_message input of
        (Inl e, rest) \<Rightarrow> if e = ConnectionClosed then Some (Ok (), c) else tcp_serve cd h rest c
      | (Inr (t, payload), rest) \<Rightarrow>
          (case tcp_message cd h t payload c of
             (Inl e, c') \<Rightarrow> Some (Inl e, c')
           | (Inr go_on, c') \<Rightarrow> if go_on then tcp_serve cd h rest c' else Some (Ok (), c')))"

definition tcp_handle_connection :: "json_codec \<Rightarrow> 's service_handler \<Rightarrow> bytes \<Rightarrow> 's tcp_connection
    \<Rightarrow> (unit result \<times> 's tcp_connection) option" where
  "tcp_handle_connection cd h input c =
     (case read_message input of
        (Inl e, _) \<Rightarrow> Some (Inl e, c)
      | (Inr (t, payload), rest) \<Rightarrow>
          (case tcp_handshake cd h t payload c of
             (Inl e, c') \<Rightarrow> Some (Inl e, c')
           | (Inr _, c') \<Rightarrow> tcp_serve cd h rest c'))"

section \<open>The accept loops\<close>

text \<open>
  What the listener yields, in order; \<open>TcpShutdown\<close> is the end of the shutdown channel, by a message
  or because its sender was dropped. A failed accept is logged and the loop goes on. The result
  holds the connections that got a task, and \<open>None\<close> while the loop still runs; tasks are not waited
  for.
\<close>

datatype 'c tcp_event = TcpAccepted 'c | TcpAcceptFailed string | TcpShutdown

record tcp_server =
  ts_addr :: string

definition tcp_server_new :: "string \<Rightarrow> tcp_server" where
  "tcp_server_new addr = \<lparr>ts_addr = addr\<rparr>"

fun tcp_accept_all :: "'c tcp_event list \<Rightarrow> 'c list" where
  "tcp_accept_all [] = []"
| "tcp_accept_all (TcpAccepted c # es) = c # tcp_accept_all es"
| "tcp_accept_all (_ # es) = tcp_accept_all es"

definition tcp_server_run :: "(string \<Rightarrow> string + unit) \<Rightarrow> tcp_server \<Rightarrow> 'c tcp_event list \<Rightarrow> 'c list \<times> unit result option" where
  "tcp_server_run bind s es =
     (case bind (ts_addr s) of
        Inl e \<Rightarrow> ([], Some (Err (from_io_error e)))
      | Inr _ \<Rightarrow> (tcp_accept_all es, None))"

fun tcp_accept_until :: "'c tcp_event list \<Rightarrow> 'c list \<times> bool" where
  "tcp_accept_until [] = ([], False)"
| "tcp_accept_until (TcpAccepted c # es) = (case tcp_accept_until es of (cs, stopped) \<Rightarrow> (c # cs, stopped))"
| "tcp_accept_until (TcpAcceptFailed _ # es) = tcp_accept_until es"
| "tcp_accept_until (TcpShutdown # es) = ([], True)"

definition tcp_run_with_shutdown :: "(string \<Rightarrow> string + unit) \<Rightarrow> tcp_server \<Rightarrow> 'c tcp_event list
    \<Rightarrow> 'c list \<times> unit result option" where
  "tcp_run_with_shutdown bind s es =
     (case bind (ts_addr s) of
        Inl e \<Rightarrow> ([], Some (Err (from_io_error e)))
      | Inr _ \<Rightarrow> (case tcp_accept_until es of (cs, stopped) \<Rightarrow> (cs, if stopped then Some (Ok ()) else None)))"

text \<open>It serves what comes before the shutdown, and returns exactly when that comes.\<close>

lemma tcp_accept_until_shutdown:
  "tcp_accept_until es =
    (tcp_accept_all (takeWhile (\<lambda>e. e \<noteq> TcpShutdown) es), TcpShutdown \<in> set es)"
  by (induction es rule: tcp_accept_until.induct) auto

section \<open>When the loop returns\<close>

text \<open>The messages the loop gets to see: after a bad length it reads on right behind it.\<close>

lemma read_error_shorter: "read_message s = (Inl e, rest) \<Longrightarrow> s \<noteq> [] \<Longrightarrow> length rest < length s"
  by (auto simp: read_message_alt Let_def split: if_splits)

function tcp_messages :: "bytes \<Rightarrow> (u8 \<times> bytes) list" where
  "tcp_messages input =
     (if input = [] then []
      else case read_message input of
        (Inl e, rest) \<Rightarrow> tcp_messages rest
      | (Inr m, rest) \<Rightarrow> m # tcp_messages rest)"
  by pat_completeness auto
termination
  by (relation "measure length")
    (auto dest: read_error_shorter [OF sym] read_message_length [OF sym])

declare tcp_messages.simps [simp del]

fun tcp_run :: "json_codec \<Rightarrow> 's service_handler \<Rightarrow> (u8 \<times> bytes) list \<Rightarrow> 's tcp_connection
    \<Rightarrow> (unit result \<times> 's tcp_connection) option" where
  "tcp_run cd h [] c = None"
| "tcp_run cd h ((t, p) # ms) c =
     (case tcp_message cd h t p c of
        (Inl e, c') \<Rightarrow> Some (Inl e, c')
      | (Inr go_on, c') \<Rightarrow> if go_on then tcp_run cd h ms c' else Some (Ok (), c'))"

lemma tcp_messages_nil [simp]: "tcp_messages [] = []"
  by (subst tcp_messages.simps) simp

lemma tcp_messages_step:
  "read_message s = (Inr m, rest) \<Longrightarrow> tcp_messages s = m # tcp_messages rest"
  "read_message s = (Inl e, rest) \<Longrightarrow> tcp_messages s = tcp_messages rest"
  by (cases "s = []"; simp add: tcp_messages.simps [of s])+

lemma tcp_serve_run:
  assumes "tcp_serve cd h input c = Some y"
  shows "tcp_run cd h (tcp_messages input) c = Some y"
proof (rule tcp_serve.raw_induct [where P = "\<lambda>cd h input c y. tcp_run cd h (tcp_messages input) c = Some y", OF _ assms])
  fix serve :: "json_codec \<Rightarrow> 'a service_handler \<Rightarrow> bytes \<Rightarrow> 'a tcp_connection \<Rightarrow> (unit result \<times> 'a tcp_connection) option"
    and cd h input c y
  assume IH: "\<And>cd h input c y. serve cd h input c = Some y \<Longrightarrow> tcp_run cd h (tcp_messages input) c = Some y"
    and step: "(case read_message input of
        (Inl e, rest) \<Rightarrow> if e = ConnectionClosed then Some (Ok (), c) else serve cd h rest c
      | (Inr (t, payload), rest) \<Rightarrow>
          (case tcp_message cd h t payload c of
             (Inl e, c') \<Rightarrow> Some (Inl e, c')
           | (Inr go_on, c') \<Rightarrow> if go_on then serve cd h rest c' else Some (Ok (), c'))) = Some y"
  show "tcp_run cd h (tcp_messages input) c = Some y"
  proof (cases "fst (read_message input)")
    case (Inl e)
    then obtain rest where r: "read_message input = (Inl e, rest)" by (cases "read_message input") auto
    then have "e \<noteq> ConnectionClosed" using read_message_not_closed [of input] by auto
    with r step IH show ?thesis by (simp add: tcp_messages_step(2))
  next
    case (Inr m)
    then obtain t p rest where r: "read_message input = (Inr (t, p), rest)"
      by (cases "read_message input"; cases m) auto
    with step IH show ?thesis
      by (auto simp: tcp_messages_step(1) split: prod.splits sum.splits if_splits)
  qed
qed

lemma tcp_run_serve: "tcp_run cd h (tcp_messages input) c = Some y \<Longrightarrow> tcp_serve cd h input c = Some y"
proof (induction input arbitrary: c rule: tcp_messages.induct)
  case (1 input)
  show ?case
  proof (cases "input = []")
    case True
    with 1 show ?thesis by (simp add: tcp_messages_nil)
  next
    case False
    show ?thesis
    proof (cases "fst (read_message input)")
      case (Inl e)
      then obtain rest where r: "read_message input = (Inl e, rest)" by (cases "read_message input") auto
      then have "e \<noteq> ConnectionClosed" using read_message_not_closed [of input] by auto
      with r 1 False show ?thesis by (subst tcp_serve.simps) (simp add: tcp_messages_step(2))
    next
      case (Inr m)
      then obtain t p rest where r: "read_message input = (Inr (t, p), rest)"
        by (cases "read_message input"; cases m) auto
      with 1 False show ?thesis
        by (subst tcp_serve.simps) (auto simp: tcp_messages_step(1) split: prod.splits sum.splits if_splits)
    qed
  qed
qed

text \<open>
  C22. When a TCP connection ends. The loop returns exactly when some message that reaches it is a
  \<open>MSG_CLOSE\<close> or fails to be handled. If the peer just closes the connection, it never returns:
  the end of the stream is a \<open>ConnectionFailed\<close>, which the loop takes as a reason to read again.
\<close>

theorem tcp_loop_returns_iff:
  "tcp_serve cd h input c = tcp_run cd h (tcp_messages input) c
   \<and> tcp_serve cd h [] c = None"
proof -
  have "tcp_serve cd h input c = tcp_run cd h (tcp_messages input) c" for input
    using tcp_serve_run tcp_run_serve by (metis not_None_eq)
  then show ?thesis by (simp add: tcp_messages_nil)
qed

section \<open>The client\<close>

text \<open>
  A client's stream: the server task at its other end, whether it is past the handshake or gone,
  and in its sink the bytes the client has not read yet. The server acts on each message as it is
  sent; a read with nothing to come but from a live server blocks for ever: \<open>None\<close>.
\<close>

datatype tcp_phase = Awaiting | Looping | Gone

record 's tcp_stream =
  ts_phase :: tcp_phase
  ts_server :: "'s tcp_connection"

definition server_receives :: "json_codec \<Rightarrow> 's service_handler \<Rightarrow> u8 \<Rightarrow> bytes \<Rightarrow> 's tcp_stream \<Rightarrow> 's tcp_stream" where
  "server_receives cd h t p st =
     (case ts_phase st of
        Awaiting \<Rightarrow> (case tcp_handshake cd h t p (ts_server st) of
            (r, c) \<Rightarrow> \<lparr>ts_phase = (if is_ok r then Looping else Gone), ts_server = c\<rparr>)
      | Looping \<Rightarrow> (case tcp_message cd h t p (ts_server st) of
            (r, c) \<Rightarrow> \<lparr>ts_phase = (if r = Ok True then Looping else Gone), ts_server = c\<rparr>)
      | Gone \<Rightarrow> st)"

definition stream_send :: "json_codec \<Rightarrow> 's service_handler \<Rightarrow> u8 \<Rightarrow> bytes \<Rightarrow> ('s tcp_stream, unit) action" where
  "stream_send cd h t p st =
     (if ts_phase st = Gone then (Err (from_io_error broken_pipe), st)
      else case write_message t p open_sink of
        (Inl e, _) \<Rightarrow> (Inl e, st)
      | (Inr _, _) \<Rightarrow> (Ok (), server_receives cd h t p st))"

definition stream_recv :: "'s tcp_stream \<Rightarrow> ((u8 \<times> bytes) result \<times> 's tcp_stream) option" where
  "stream_recv st =
     (let unread = sk_out (tp_sink (ts_server st)) in
      if unread = [] \<and> ts_phase st \<noteq> Gone then None
      else case read_message unread of
        (r, rest) \<Rightarrow> Some (r, st\<lparr>ts_server := (ts_server st)\<lparr>tp_sink := (tp_sink (ts_server st))\<lparr>sk_out := rest\<rparr>\<rparr>\<rparr>))"

record 's tcp_client =
  tc_connected :: bool
  tc_session_id :: "string option"
  tc_stream :: "'s tcp_stream option"

definition tcp_client_new :: "'s tcp_client" where
  "tcp_client_new = \<lparr>tc_connected = False, tc_session_id = None, tc_stream = None\<rparr>"

definition tcp_is_connected :: "'s tcp_client \<Rightarrow> bool" where
  "tcp_is_connected cl = tc_connected cl"

definition tcp_close :: "'s tcp_client \<Rightarrow> 's tcp_client" where
  "tcp_close cl = cl\<lparr>tc_connected := False, tc_session_id := None, tc_stream := None\<rparr>"

definition tcp_hello :: "string \<Rightarrow> handshake_request" where
  "tcp_hello service = \<lparr>hq_client_id = ''protocol-tcp-client'', hq_service_name = service,
     hq_capabilities = [''json'']\<rparr>"

text \<open>\<open>connect\<close> is given what its two connection attempts come to.\<close>

definition tcp_connect :: "json_codec \<Rightarrow> 's service_handler \<Rightarrow> 's tcp_stream result \<Rightarrow> 's tcp_stream result
    \<Rightarrow> 's tcp_client \<Rightarrow> (unit result \<times> 's tcp_client) option" where
  "tcp_connect cd h first second cl =
     (case first of
        Inl e \<Rightarrow> Some (Inl e, cl)
      | Inr st \<Rightarrow>
          (case stream_send cd h MSG_HANDSHAKE (jc_to_vec cd (hq_to_json (tcp_hello ''client''))) st of
             (Inl e, _) \<Rightarrow> Some (Inl e, cl)
           | (Inr _, st) \<Rightarrow>
               map_option (\<lambda>(r, _). case r of
                   Inl e \<Rightarrow> (Inl e, cl)
                 | Inr (msg_type, payload) \<Rightarrow>
                     if msg_type \<noteq> MSG_HANDSHAKE_ACK then (Err (Protocol ''invalid handshake response''), cl)
                     else (case from_slice cd hr_of_json ''HandshakeResponse'' payload of
                         Inl e \<Rightarrow> (Inl e, cl)
                       | Inr response \<Rightarrow>
                           if \<not> hr_success response then (Err (Protocol ''handshake rejected''), cl)
                           else
                             let cl = cl\<lparr>tc_session_id := Some (hr_session_id response), tc_connected := True\<rparr> in
                             (case second of
                                Inl e \<Rightarrow> (Inl e, cl)
                              | Inr st' \<Rightarrow> (Ok (), cl\<lparr>tc_stream := Some st'\<rparr>))))
                 (stream_recv st)))"

definition tcp_exchange :: "json_codec \<Rightarrow> 's service_handler \<Rightarrow> string \<Rightarrow> service_request \<Rightarrow> 's tcp_stream
    \<Rightarrow> ((u8 \<times> bytes) result \<times> 's tcp_stream) option" where
  "tcp_exchange cd h service request st =
     (case stream_send cd h MSG_HANDSHAKE (jc_to_vec cd (hq_to_json (tcp_hello service))) st of
        (Inl e, st) \<Rightarrow> Some (Inl e, st)
      | (Inr _, st) \<Rightarrow>
          Option.bind (stream_recv st) (\<lambda>(r, st).
            case r of
              Inl e \<Rightarrow> Some (Inl e, st)
            | Inr _ \<Rightarrow>
                (case stream_send cd h MSG_REQUEST (jc_to_vec cd (rq_to_json request)) st of
                   (Inl e, st) \<Rightarrow> Some (Inl e, st)
                 | (Inr _, st) \<Rightarrow> stream_recv st)))"

definition tcp_call :: "json_codec \<Rightarrow> 's service_handler \<Rightarrow> 's tcp_stream result \<Rightarrow> 's tcp_stream result
    \<Rightarrow> string \<Rightarrow> service_request \<Rightarrow> 's tcp_client \<Rightarrow> (service_response result \<times> 's tcp_client) option" where
  "tcp_call cd h first second service request cl =
     Option.bind (if \<not> tc_connected cl then tcp_connect cd h first second cl else Some (Ok (), cl)) (\<lambda>(r, cl).
       case r of
         Inl e \<Rightarrow> Some (Inl e, cl)
       | Inr _ \<Rightarrow>
           (case tc_stream cl of
              None \<Rightarrow> Some (Err ConnectionClosed, cl)
            | Some st \<Rightarrow>
                map_option (\<lambda>(r, st).
                  let cl = cl\<lparr>tc_stream := Some st\<rparr> in
                  case r of
                    Inl e \<Rightarrow> (Inl e, cl)
                  | Inr (msg_type, payload) \<Rightarrow>
                      if msg_type \<noteq> MSG_RESPONSE then
                        (Err (Protocol ''invalid response type''), cl\<lparr>tc_connected := False\<rparr>)
                      else (from_slice cd rs_of_json ''ServiceResponse'' payload, cl))
                  (tcp_exchange cd h service request st)))"

section \<open>Calls\<close>

text \<open>A stream whose server is past the handshake and has nothing more to say.\<close>

definition settled :: "'s tcp_stream \<Rightarrow> bool" where
  "settled st \<longleftrightarrow> ts_phase st = Looping \<and> sk_out (tp_sink (ts_server st)) = []"

lemma second_handshake_unanswered:
  "settled st \<Longrightarrow> fits p \<Longrightarrow> \<exists>st'. stream_send cd h MSG_HANDSHAKE p st = (Ok (), st') \<and> stream_recv st' = None"
  by (simp add: settled_def stream_send_def server_receives_def tcp_message_def msg_defs stream_recv_def
      write_message_open open_sink_def)

definition fresh_stream :: "'s \<Rightarrow> 's tcp_stream" where
  "fresh_stream s = \<lparr>ts_phase = Awaiting, ts_server = \<lparr>tp_sink = open_sink, tp_handler = s\<rparr>\<rparr>"

text \<open>A message that can be sent and read back.\<close>

definition sendable :: "json_codec \<Rightarrow> json \<Rightarrow> bool" where
  "sendable cd j \<longleftrightarrow> readable j \<and> fits (jc_to_vec cd j)"

lemma recv_frame:
  "sk_out (tp_sink (ts_server st)) = frame_bytes 1 t p \<Longrightarrow> fits p \<Longrightarrow> ts_phase st = Looping \<Longrightarrow>
    \<exists>st'. stream_recv st = Some (Ok (t, p), st') \<and> settled st' \<and> tp_handler (ts_server st') = tp_handler (ts_server st)
      \<and> sk_room (tp_sink (ts_server st')) = sk_room (tp_sink (ts_server st))"
  using read_message_frame [of p 1 t "[]"] by (simp add: stream_recv_def settled_def)

lemma handshake_exchange:
  assumes "codec_law cd" and "sendable cd (hq_to_json q)" and "sh_on_handshake h q s = (x, s')"
    and "sendable cd (hr_to_json x)"
  shows "\<exists>st1 st2. stream_send cd h MSG_HANDSHAKE (jc_to_vec cd (hq_to_json q)) (fresh_stream s) = (Ok (), st1)
    \<and> stream_recv st1 = Some (Ok (MSG_HANDSHAKE_ACK, jc_to_vec cd (hr_to_json x)), st2)
    \<and> settled st2 \<and> tp_handler (ts_server st2) = s' \<and> sk_room (tp_sink (ts_server st2)) = None"
proof -
  have dec: "from_slice cd hq_of_json ''HandshakeRequest'' (jc_to_vec cd (hq_to_json q)) = Ok q"
    using assms(1,2) by (intro handshake_request.from_slice_to_vec) (simp_all add: sendable_def)
  define st1 where "st1 = snd (stream_send cd h MSG_HANDSHAKE (jc_to_vec cd (hq_to_json q)) (fresh_stream s))"
  have "stream_send cd h MSG_HANDSHAKE (jc_to_vec cd (hq_to_json q)) (fresh_stream s) = (Ok (), st1)"
    "ts_phase st1 = Looping" "sk_out (tp_sink (ts_server st1)) = frame_bytes 1 MSG_HANDSHAKE_ACK (jc_to_vec cd (hr_to_json x))"
    "tp_handler (ts_server st1) = s'" "sk_room (tp_sink (ts_server st1)) = None"
    using assms(2-4) dec
    by (simp_all add: st1_def stream_send_def fresh_stream_def server_receives_def tcp_handshake_def tcp_reply_def
        action_simps sendable_def open_sink_def)
  then show ?thesis
    using recv_frame [of st1 MSG_HANDSHAKE_ACK] assms(4) unfolding sendable_def by metis
qed

lemma request_exchange:
  assumes "codec_law cd" and "settled st" and "sk_room (tp_sink (ts_server st)) = None"
    and "is_value (rq_payload q)" and "sendable cd (rq_to_json q)"
    and "sh_handle h q (tp_handler (ts_server st)) = (x, s')" and "sendable cd (rs_to_json x)"
  shows "\<exists>st1 st2. stream_send cd h MSG_REQUEST (jc_to_vec cd (rq_to_json q)) st = (Ok (), st1)
    \<and> stream_recv st1 = Some (Ok (MSG_RESPONSE, jc_to_vec cd (rs_to_json x)), st2) \<and> settled st2"
proof -
  have "from_slice cd rq_of_json ''ServiceRequest'' (jc_to_vec cd (rq_to_json q)) = Ok q"
    using assms(1,4,5) by (intro service_request.from_slice_to_vec) (simp_all add: sendable_def)
  then obtain st1 where "stream_send cd h MSG_REQUEST (jc_to_vec cd (rq_to_json q)) st = (Ok (), st1)"
    "ts_phase st1 = Looping" "sk_out (tp_sink (ts_server st1)) = frame_bytes 1 MSG_RESPONSE (jc_to_vec cd (rs_to_json x))"
    using assms(2-7)
    by (simp add: stream_send_def settled_def server_receives_def tcp_message_def tcp_reply_def
        action_simps sendable_def open_sink_def)
  then show ?thesis
    using recv_frame [of st1 MSG_RESPONSE] assms(7) unfolding sendable_def by metis
qed

text \<open>
  C23. One call per connection. The first call of a new \<open>TcpClient\<close> (it connects, with a
  handshake on a first stream that it then drops, and makes its call on a second one) returns the
  service's response. But every call begins with a handshake of its own, which a server already
  past its handshake silently ignores: no later call of that client ever returns.
\<close>

theorem second_tcp_call_blocks:
  assumes "codec_law cd" and "is_value (rq_payload request)" and "sendable cd (rq_to_json request)"
    and "\<And>sv. length sv \<le> n \<Longrightarrow> utf8 sv \<Longrightarrow> sendable cd (hq_to_json (tcp_hello sv))"
    and "length service \<le> n" and "utf8 service" and "6 \<le> n"
    and "\<And>q s. hr_success (fst (sh_on_handshake h q s)) \<and> sendable cd (hr_to_json (fst (sh_on_handshake h q s)))"
    and "\<And>s. is_value (rs_payload (fst (sh_handle h request s))) \<and> sendable cd (rs_to_json (fst (sh_handle h request s)))"
  shows "\<exists>s cl. tcp_call cd h (Ok (fresh_stream s1)) (Ok (fresh_stream s2)) service request tcp_client_new
      = Some (Ok (fst (sh_handle h request s)), cl)
    \<and> (\<forall>first second request' sv. length sv \<le> n \<and> utf8 sv \<longrightarrow>
         tcp_call cd h first second sv request' cl = None)"
proof -
  have "utf8 ''client''" by (simp add: utf8_def)
  then have hello: "sendable cd (hq_to_json (tcp_hello ''client''))" "sendable cd (hq_to_json (tcp_hello service))"
    using assms(4-7) by auto
  obtain x1 s1' where x1: "sh_on_handshake h (tcp_hello ''client'') s1 = (x1, s1')" by force
  obtain x2 s2' where x2: "sh_on_handshake h (tcp_hello service) s2 = (x2, s2')" by force
  obtain y s3 where y: "sh_handle h request s2' = (y, s3)" by force
  have sx: "hr_success x1" "sendable cd (hr_to_json x1)" "sendable cd (hr_to_json x2)"
    and sy: "is_value (rs_payload y)" "sendable cd (rs_to_json y)"
    using assms(8) [of "tcp_hello ''client''" s1] assms(8) [of "tcp_hello service" s2] assms(9) [of s2'] x1 x2 y
    by simp_all
  obtain a1 a2 where a: "stream_send cd h MSG_HANDSHAKE (jc_to_vec cd (hq_to_json (tcp_hello ''client''))) (fresh_stream s1) = (Ok (), a1)"
    "stream_recv a1 = Some (Ok (MSG_HANDSHAKE_ACK, jc_to_vec cd (hr_to_json x1)), a2)"
    using handshake_exchange [OF assms(1) hello(1) x1 sx(2)] by blast
  obtain b1 b2 where b: "stream_send cd h MSG_HANDSHAKE (jc_to_vec cd (hq_to_json (tcp_hello service))) (fresh_stream s2) = (Ok (), b1)"
    "stream_recv b1 = Some (Ok (MSG_HANDSHAKE_ACK, jc_to_vec cd (hr_to_json x2)), b2)"
    "settled b2" "tp_handler (ts_server b2) = s2'" "sk_room (tp_sink (ts_server b2)) = None"
    using handshake_exchange [OF assms(1) hello(2) x2 sx(3)] by blast
  obtain c1 c2 where c: "stream_send cd h MSG_REQUEST (jc_to_vec cd (rq_to_json request)) b2 = (Ok (), c1)"
    "stream_recv c1 = Some (Ok (MSG_RESPONSE, jc_to_vec cd (rs_to_json y)), c2)" "settled c2"
    using request_exchange [OF assms(1) b(3,5) assms(2,3) _ sy(2)] y b(4) by blast
  have d1: "from_slice cd hr_of_json ''HandshakeResponse'' (jc_to_vec cd (hr_to_json x1)) = Ok x1"
    using assms(1) sx(2) by (intro handshake_response.from_slice_to_vec) (simp_all add: sendable_def)
  have d2: "from_slice cd rs_of_json ''ServiceResponse'' (jc_to_vec cd (rs_to_json y)) = Ok y"
    using assms(1) sy by (intro service_response.from_slice_to_vec) (simp_all add: sendable_def)
  define cl where "cl = \<lparr>tc_connected = True, tc_session_id = Some (hr_session_id x1), tc_stream = Some c2\<rparr>"
  have "tcp_call cd h (Ok (fresh_stream s1)) (Ok (fresh_stream s2)) service request tcp_client_new = Some (Ok y, cl)"
    using a b(1,2) c d1 d2 sx(1)
    by (simp add: tcp_call_def tcp_connect_def tcp_exchange_def tcp_client_new_def cl_def Let_def)
  moreover have "tcp_call cd h first second sv request' cl = None" if "length sv \<le> n" "utf8 sv"
    for first second request' and sv
  proof -
    have "fits (jc_to_vec cd (hq_to_json (tcp_hello sv)))" using assms(4) that by (simp add: sendable_def)
    then obtain d where "stream_send cd h MSG_HANDSHAKE (jc_to_vec cd (hq_to_json (tcp_hello sv))) c2 = (Ok (), d)"
      "stream_recv d = None"
      using second_handshake_unanswered [OF c(3)] by blast
    then show ?thesis by (simp add: tcp_call_def tcp_exchange_def cl_def)
  qed
  ultimately show ?thesis using y by (metis fst_conv)
qed

text \<open>An echo service on the tagged codec.\<close>

definition tcp_sample_handler :: "nat service_handler" where
  "tcp_sample_handler = fn_handler (\<lambda>_. ''s1'') ''echo'' (\<lambda>r. response_success r (rq_payload r))"

definition tcp_sample_request :: service_request where
  "tcp_sample_request = request_new ''1'' ''c'' ''echo'' ''say'' JNull"

lemma length_text: "length (put_text s) = 2 * length s + 1"
  by (induction s) simp_all

theorem second_tcp_call_blocks_witness:
  "\<exists>x cl. tcp_call tagged tcp_sample_handler (Ok (fresh_stream 0)) (Ok (fresh_stream 0)) ''echo'' tcp_sample_request
      tcp_client_new = Some (Ok x, cl)
    \<and> tcp_call tagged tcp_sample_handler (Ok (fresh_stream 0)) (Ok (fresh_stream 0)) ''echo'' tcp_sample_request cl = None"
proof -
  have small: "fits p" if "length p \<le> 1000" for p
    using that by (simp add: fits_def MAX_MESSAGE_SIZE_def)
  note defs = sendable_def readable_def tagged_def tcp_sample_request_def request_new_def rq_to_json_def
    rs_to_json_def hq_to_json_def hr_to_json_def tcp_sample_handler_def fn_handler_def response_success_def
    default_on_handshake_def some_or_null_def tcp_hello_def utf8_def length_text
  have "sendable tagged (rq_to_json tcp_sample_request)" by (simp add: defs small)
  moreover have "sendable tagged (hq_to_json (tcp_hello sv))" if "length sv \<le> 20" "utf8 sv" for sv
    using that by (simp add: defs small)
  moreover have "hr_success (fst (sh_on_handshake tcp_sample_handler q s))
      \<and> sendable tagged (hr_to_json (fst (sh_on_handshake tcp_sample_handler q s)))" for q s
    by (simp add: defs small)
  moreover have "is_value (rs_payload (fst (sh_handle tcp_sample_handler tcp_sample_request s)))
      \<and> sendable tagged (rs_to_json (fst (sh_handle tcp_sample_handler tcp_sample_request s)))" for s
    by (simp add: defs small)
  moreover have "is_value (rq_payload tcp_sample_request)" "utf8 ''echo''" by (simp_all add: defs)
  ultimately obtain s cl where "tcp_call tagged tcp_sample_handler (Ok (fresh_stream 0)) (Ok (fresh_stream 0)) ''echo''
      tcp_sample_request tcp_client_new = Some (Ok (fst (sh_handle tcp_sample_handler tcp_sample_request s)), cl)"
    and later: "\<forall>first second request' sv. length sv \<le> 20 \<and> utf8 sv \<longrightarrow>
         tcp_call tagged tcp_sample_handler first second sv request' cl = None"
    using second_tcp_call_blocks [OF tagged_law, of tcp_sample_request 20 "''echo''" tcp_sample_handler 0 0] by auto
  moreover have "utf8 ''echo''" by (simp add: utf8_def)
  ultimately show ?thesis by fastforce
qed

end
