(* ===== verification/Client.thy ===== *)
theory Client
  imports Server
begin

text \<open>
  The clients over Unix sockets, \<^verbatim>\<open>src/src/client.rs\<close>: \<^verbatim>\<open>UdsClient\<close> (also behind the
  mutex of \<^verbatim>\<open>SharedUdsClient\<close>), its connection, calls, streaming calls and schema queries;
  \<^verbatim>\<open>ReliableUdsClient\<close> with its configuration, statistics and reconnection. The server at
  the other end of a stream is a transducer of messages; \<open>server_peer\<close> is the one that
  \<^verbatim>\<open>Server\<close> models.
\<close>

section \<open>A stream and its peer\<close>

text \<open>
  The peer answers each message with some messages and a new state, or closes. A read meets the
  next unread message, unless the timer of the client fires first; with nothing unread it meets
  the end of the stream if the peer has closed, and otherwise the timer.
\<close>

type_synonym 's peer = "u8 \<Rightarrow> bytes \<Rightarrow> 's \<Rightarrow> (u8 \<times> bytes) list \<times> 's option"

record 's uds_stream =
  us_peer :: "'s option" \<comment> \<open>None: closed\<close>
  us_unread :: "(u8 \<times> bytes) list"

definition uds_write :: "'s peer \<Rightarrow> u8 \<Rightarrow> bytes \<Rightarrow> ('s uds_stream, unit) action" where
  "uds_write peer t p st =
     (case write_message t p open_sink of
        (Inl e, _) \<Rightarrow> (Inl e, st)
      | (Inr _, _) \<Rightarrow>
          (case us_peer st of
             None \<Rightarrow> (Err (from_io_error broken_pipe), st)
           | Some s \<Rightarrow> (case peer t p s of
               (replies, s') \<Rightarrow> (Ok (), \<lparr>us_peer = s', us_unread = us_unread st @ replies\<rparr>))))"

definition uds_read :: "bool \<Rightarrow> ('s uds_stream, u8 \<times> bytes) action" where
  "uds_read late st =
     (if late then (Err Timeout, st)
      else case us_unread st of
        m # ms \<Rightarrow> (Ok m, st\<lparr>us_unread := ms\<rparr>)
      | [] \<Rightarrow> (Err (if us_peer st = None then from_io_error early_eof else Timeout), st))"

definition server_peer :: "surroundings \<Rightarrow> 's service_handler \<Rightarrow> (string option \<times> 's connection) peer" where
  "server_peer en h t p s =
     (case s of (phase, c) \<Rightarrow>
        let c = c\<lparr>cn_sink := open_sink\<rparr> in
        case phase of
          None \<Rightarrow> (case shake en h t p c of
              (r, c') \<Rightarrow> (fst (read_all (sk_out (cn_sink c'))),
                 case r of Inl _ \<Rightarrow> None | Inr client_id \<Rightarrow> Some (Some client_id, c')))
        | Some client_id \<Rightarrow> (case dispatch en h client_id t p c of
              (r, c') \<Rightarrow> (fst (read_all (sk_out (cn_sink c'))),
                 case r of Inl _ \<Rightarrow> None | Inr go_on \<Rightarrow> if go_on then Some (Some client_id, c') else None)))"

section \<open>The client\<close>

record 's uds_client =
  uc_connected :: bool
  uc_session_id :: "string option"
  uc_stream :: "'s uds_stream option"
  uc_connect_timeout :: duration
  uc_request_timeout :: duration

definition uds_client_new :: "'s uds_client" where
  "uds_client_new = \<lparr>uc_connected = False, uc_session_id = None, uc_stream = None,
     uc_connect_timeout = from_secs 5, uc_request_timeout = from_secs 30\<rparr>"

definition with_connect_timeout :: "duration \<Rightarrow> 's uds_client \<Rightarrow> 's uds_client" where
  "with_connect_timeout d cl = cl\<lparr>uc_connect_timeout := d\<rparr>"

definition with_client_request_timeout :: "duration \<Rightarrow> 's uds_client \<Rightarrow> 's uds_client" where
  "with_client_request_timeout d cl = cl\<lparr>uc_request_timeout := d\<rparr>"

definition uds_is_connected :: "'s uds_client \<Rightarrow> bool" where
  "uds_is_connected cl = uc_connected cl"

definition set_disconnected :: "'s uds_client \<Rightarrow> 's uds_client" where
  "set_disconnected cl = cl\<lparr>uc_connected := False\<rparr>"

definition set_connected :: "'s uds_client \<Rightarrow> 's uds_client" where
  "set_connected cl = cl\<lparr>uc_connected := True\<rparr>"

definition uds_hello :: handshake_request where
  "uds_hello = \<lparr>hq_client_id = ''protocol-client'', hq_service_name = ''client'',
     hq_capabilities = [''json'']\<rparr>"

text \<open>
  \<open>dial\<close> is what the connection attempt under its timeout comes to, \<open>late\<close> whether the timer ends
  the read of the acknowledgement.
\<close>

definition uds_connect :: "json_codec \<Rightarrow> 's peer \<Rightarrow> 's uds_stream result \<Rightarrow> bool \<Rightarrow> ('s uds_client, unit) action" where
  "uds_connect cd peer dial late cl =
     (case dial of
        Inl e \<Rightarrow> (Inl e, cl)
      | Inr st \<Rightarrow>
          (case and_then (uds_write peer MSG_HANDSHAKE (jc_to_vec cd (hq_to_json uds_hello))) (\<lambda>_. uds_read late) st of
             (Inl e, _) \<Rightarrow> (Inl e, cl)
           | (Inr (msg_type, payload), st) \<Rightarrow>
               if msg_type \<noteq> MSG_HANDSHAKE_ACK then (Err (Protocol ''invalid handshake response''), cl)
               else (case from_slice cd hr_of_json ''HandshakeResponse'' payload of
                   Inl e \<Rightarrow> (Inl e, cl)
                 | Inr response \<Rightarrow>
                     if \<not> hr_success response then (Err (Protocol ''handshake rejected''), cl)
                     else
                       let cl = set_connected (cl\<lparr>uc_session_id := Some (hr_session_id response)\<rparr>) in
                       (Ok (), cl\<lparr>uc_stream := Some st\<rparr>))))"

definition do_call_internal :: "json_codec \<Rightarrow> 's peer \<Rightarrow> bool \<Rightarrow> service_request \<Rightarrow> ('s uds_stream, service_response) action" where
  "do_call_internal cd peer late request =
     and_then (uds_write peer MSG_REQUEST (jc_to_vec cd (rq_to_json request))) (\<lambda>_.
     and_then (uds_read late) (\<lambda>(msg_type, payload).
     if msg_type \<noteq> MSG_RESPONSE then fail (Protocol ''invalid response type'')
     else lift_result (from_slice cd rs_of_json ''ServiceResponse'' payload)))"

text \<open>
  The public operations connect when there is no stream, work on the stream, and drop it on an
  error. The arguments \<open>dial\<close> and \<open>late0\<close> are for the connection, should one be made.
\<close>

definition with_stream :: "('s uds_stream, 'a) action \<Rightarrow> ('s uds_client, 'a) action" where
  "with_stream work cl =
     (case uc_stream cl of
        None \<Rightarrow> (Err ConnectionClosed, cl)
      | Some st \<Rightarrow> (case work st of (r, st') \<Rightarrow> (r, cl\<lparr>uc_stream := Some st'\<rparr>)))"

definition connecting :: "json_codec \<Rightarrow> 's peer \<Rightarrow> 's uds_stream result \<Rightarrow> bool \<Rightarrow> ('s uds_stream, 'a) action
    \<Rightarrow> ('s uds_client, 'a) action" where
  "connecting cd peer dial late0 work =
     and_then (\<lambda>cl. if uc_stream cl = None then uds_connect cd peer dial late0 cl else (Ok (), cl)) (\<lambda>_.
     \<lambda>cl. case with_stream work cl of
       (Inl e, cl) \<Rightarrow> (Inl e, (set_disconnected cl)\<lparr>uc_stream := None\<rparr>)
     | (Inr x, cl) \<Rightarrow> (Inr x, cl))"

definition uds_call :: "json_codec \<Rightarrow> 's peer \<Rightarrow> 's uds_stream result \<Rightarrow> bool \<Rightarrow> bool \<Rightarrow> service_request
    \<Rightarrow> ('s uds_client, service_response) action" where
  "uds_call cd peer dial late0 late request = connecting cd peer dial late0 (do_call_internal cd peer late request)"

definition uds_close :: "'s uds_client \<Rightarrow> 's uds_client" where
  "uds_close cl = cl\<lparr>uc_connected := False, uc_session_id := None, uc_stream := None\<rparr>"

text \<open>
  \<^verbatim>\<open>SharedUdsClient\<close> holds a client behind a mutex: a call on it is the call on the client
  while the lock is held; closing drops the error, of which there is none.
\<close>

definition shared_new :: "'s uds_client" where
  "shared_new = uds_client_new"

definition shared_call :: "json_codec \<Rightarrow> 's peer \<Rightarrow> 's uds_stream result \<Rightarrow> bool \<Rightarrow> bool \<Rightarrow> service_request
    \<Rightarrow> ('s uds_client, service_response) action" where
  "shared_call cd peer dial late0 late request cl = uds_call cd peer dial late0 late request cl"

definition shared_close :: "'s uds_client \<Rightarrow> 's uds_client" where
  "shared_close cl = uds_close cl"

section \<open>Schema queries\<close>

definition do_get_schema_internal :: "json_codec \<Rightarrow> 's peer \<Rightarrow> bool \<Rightarrow> ('s uds_stream, service_schema) action" where
  "do_get_schema_internal cd peer late =
     and_then (uds_write peer MSG_SCHEMA_REQUEST []) (\<lambda>_.
     and_then (uds_read late) (\<lambda>(msg_type, payload).
     if msg_type \<noteq> MSG_SCHEMA_RESPONSE then fail (Protocol ''expected schema response'')
     else lift_result (from_slice cd sc_of_json ''ServiceSchema'' payload)))"

definition uds_get_schema :: "json_codec \<Rightarrow> 's peer \<Rightarrow> 's uds_stream result \<Rightarrow> bool \<Rightarrow> bool
    \<Rightarrow> ('s uds_client, service_schema) action" where
  "uds_get_schema cd peer dial late0 late = connecting cd peer dial late0 (do_get_schema_internal cd peer late)"

section \<open>Streaming calls\<close>

text \<open>
  \<^verbatim>\<open>request_payload["stream_mode"] = ...\<close>: null becomes an object, an object gets the member;
  on any other value the index operator panics: \<open>None\<close>.
\<close>

definition set_stream_mode :: "stream_mode \<Rightarrow> json \<Rightarrow> json option" where
  "set_stream_mode mode payload =
     (case payload of
        JNull \<Rightarrow> Some (JObj [(''stream_mode'', JStr (mode_as_str mode))])
      | JObj kvs \<Rightarrow> Some (JObj (put ''stream_mode'' (JStr (mode_as_str mode)) kvs))
      | _ \<Rightarrow> None)"

definition json_text :: "json_codec \<Rightarrow> json \<Rightarrow> string" where
  "json_text cd j = map (\<lambda>b. char_of (unat b)) (jc_to_vec cd j)"

definition starts_with :: "string \<Rightarrow> string \<Rightarrow> bool" where
  "starts_with pre s = (take (length pre) s = pre)"

text \<open>\<open>late n\<close>: the timer ends the \<open>n\<close>th read. The loop consumes the unread messages.\<close>

fun stream_loop :: "json_codec \<Rightarrow> (nat \<Rightarrow> bool) \<Rightarrow> nat \<Rightarrow> 's option \<Rightarrow> (u8 \<times> bytes) list \<Rightarrow> stream_message list
    \<Rightarrow> stream_message list result \<times> (u8 \<times> bytes) list" where
  "stream_loop cd late n peer [] messages =
     (Err (if \<not> late n \<and> peer = None then from_io_error early_eof else Timeout), [])"
| "stream_loop cd late n peer ((msg_type, payload) # unread) messages =
     (if late n then (Err Timeout, (msg_type, payload) # unread)
      else if msg_type = MSG_STREAM_START then stream_loop cd late (n + 1) peer unread messages
      else if msg_type = MSG_STREAM_CHUNK then
        (case from_slice cd sm_of_json ''StreamMessage'' payload of
           Inl e \<Rightarrow> (Inl e, unread)
         | Inr msg \<Rightarrow> stream_loop cd late (n + 1) peer unread (messages @ [msg]))
      else if msg_type = MSG_STREAM_END then
        (case from_slice cd sr_of_json ''StreamResponse'' payload of
           Inl e \<Rightarrow> (Inl e, unread)
         | Inr fin \<Rightarrow>
             if starts_with ''error'' (sr_status fin) then (Err (Protocol (sr_status fin)), unread)
             else (Ok messages, unread))
      else if msg_type = MSG_ERROR then
        (case from_slice cd (\<lambda>j. Some (value_of j)) ''Value'' payload of
           Inl e \<Rightarrow> (Inl e, unread)
         | Inr err \<Rightarrow> (Err (Protocol (json_text cd err)), unread))
      else (Err (Protocol (''unexpected message type: '' @ show_nat (unat msg_type))), unread))"

definition do_call_streaming_internal :: "json_codec \<Rightarrow> 's peer \<Rightarrow> (nat \<Rightarrow> bool) \<Rightarrow> service_request
    \<Rightarrow> ('s uds_stream, stream_message list) action" where
  "do_call_streaming_internal cd peer late request =
     and_then (uds_write peer MSG_STREAM_REQUEST (jc_to_vec cd (rq_to_json request))) (\<lambda>_.
     \<lambda>st. case stream_loop cd late 0 (us_peer st) (us_unread st) [] of
       (r, unread) \<Rightarrow> (r, st\<lparr>us_unread := unread\<rparr>))"

text \<open>
  A streaming call, from the payload of its request; \<open>None\<close> is the panic above (which happens
  once the client is connected).
\<close>

definition uds_call_streaming :: "json_codec \<Rightarrow> 's peer \<Rightarrow> 's uds_stream result \<Rightarrow> bool \<Rightarrow> (nat \<Rightarrow> bool)
    \<Rightarrow> string \<Rightarrow> string \<Rightarrow> string \<Rightarrow> string \<Rightarrow> json \<Rightarrow> stream_mode \<Rightarrow> 's uds_client
    \<Rightarrow> (stream_message list result \<times> 's uds_client) option" where
  "uds_call_streaming cd peer dial late0 late uuid1 uuid2 service meth payload mode cl =
     (case set_stream_mode mode payload of
        Some request_payload \<Rightarrow>
          Some (connecting cd peer dial late0
            (do_call_streaming_internal cd peer late (request_new uuid1 uuid2 service meth request_payload)) cl)
      | None \<Rightarrow>
          (case if uc_stream cl = None then uds_connect cd peer dial late0 cl else (Ok (), cl) of
             (Inl e, cl) \<Rightarrow> Some (Inl e, cl)
           | (Inr _, _) \<Rightarrow> None))"

definition shared_get_schema :: "json_codec \<Rightarrow> 's peer \<Rightarrow> 's uds_stream result \<Rightarrow> bool \<Rightarrow> bool
    \<Rightarrow> ('s uds_client, service_schema) action" where
  "shared_get_schema cd peer dial late0 late cl = uds_get_schema cd peer dial late0 late cl"

definition shared_call_streaming :: "json_codec \<Rightarrow> 's peer \<Rightarrow> 's uds_stream result \<Rightarrow> bool \<Rightarrow> (nat \<Rightarrow> bool)
    \<Rightarrow> string \<Rightarrow> string \<Rightarrow> string \<Rightarrow> string \<Rightarrow> json \<Rightarrow> stream_mode \<Rightarrow> 's uds_client
    \<Rightarrow> (stream_message list result \<times> 's uds_client) option" where
  "shared_call_streaming cd peer dial late0 late uuid1 uuid2 service meth payload mode cl =
     uds_call_streaming cd peer dial late0 late uuid1 uuid2 service meth payload mode cl"

section \<open>Connected means a stream\<close>

definition consistent :: "'s uds_client \<Rightarrow> bool" where
  "consistent cl \<longleftrightarrow> (uc_connected cl \<longleftrightarrow> uc_stream cl \<noteq> None)"

lemma uds_connect_cases:
  "uds_connect cd peer dial late cl = (r, cl') \<Longrightarrow>
    (is_ok r \<and> uc_connected cl' \<and> uc_stream cl' \<noteq> None) \<or> (\<not> is_ok r \<and> cl' = cl)"
  by (auto simp: uds_connect_def set_connected_def Let_def split: sum.splits prod.splits if_splits)

lemma connecting_consistent:
  assumes "consistent cl" and "connecting cd peer dial late0 work cl = (r, cl')"
  shows "consistent cl' \<and> (uc_connected cl' \<longrightarrow> is_ok r)
    \<and> (if is_ok r then uc_stream cl' \<noteq> None else uc_stream cl' = None)"
proof -
  obtain r0 cl0 where first: "(if uc_stream cl = None then uds_connect cd peer dial late0 cl else (Ok (), cl)) = (r0, cl0)"
    by force
  show ?thesis
  proof (cases r0)
    case (Inl e)
    then have "cl0 = cl" "uc_stream cl = None"
      using first uds_connect_cases [of cd peer dial late0 cl r0 cl0] by (auto split: if_splits)
    with Inl first assms show ?thesis by (auto simp: connecting_def and_then_def consistent_def)
  next
    case (Inr u)
    then have "uc_connected cl0 \<and> uc_stream cl0 \<noteq> None"
      using first assms(1) uds_connect_cases [of cd peer dial late0 cl r0 cl0]
      by (auto simp: consistent_def split: if_splits)
    with Inr first assms(2) show ?thesis
      by (auto simp: connecting_def and_then_def consistent_def with_stream_def set_disconnected_def
          split: prod.splits sum.splits)
  qed
qed

text \<open>What the operations of a client may do to it, in any surroundings.\<close>

inductive client_step :: "'s uds_client \<Rightarrow> 's uds_client \<Rightarrow> bool" where
  step_connect: "uds_connect cd peer dial late cl = (r, cl') \<Longrightarrow> client_step cl cl'"
| step_call: "uds_call cd peer dial late0 late request cl = (r, cl') \<Longrightarrow> client_step cl cl'"
| step_schema: "uds_get_schema cd peer dial late0 late cl = (r, cl') \<Longrightarrow> client_step cl cl'"
| step_streaming: "uds_call_streaming cd peer dial late0 lates u1 u2 sv mt payload mode cl = Some (r, cl')
    \<Longrightarrow> client_step cl cl'"
| step_close: "client_step cl (uds_close cl)"

inductive_cases client_stepE: "client_step cl cl'"

lemma uds_connect_consistent: "consistent cl \<Longrightarrow> uds_connect cd peer dial late cl = (r, cl') \<Longrightarrow> consistent cl'"
  by (drule uds_connect_cases) (auto simp: consistent_def)

lemma close_consistent: "consistent (uds_close cl)" "consistent uds_client_new"
  by (simp_all add: consistent_def uds_close_def uds_client_new_def)

lemma client_step_consistent: "client_step cl cl' \<Longrightarrow> consistent cl \<Longrightarrow> consistent cl'"
proof (erule client_stepE, goal_cases)
  case (4 cd peer dial late0 lates u1 u2 sv mt payload mode r)
  then show ?case
    by (auto simp: uds_call_streaming_def dest: connecting_consistent uds_connect_consistent
        split: option.splits prod.splits sum.splits if_splits)
qed (auto simp: uds_call_def uds_get_schema_def close_consistent
       dest: connecting_consistent uds_connect_consistent)

interpretation client: invariant_system "\<lambda>cl. cl = uds_client_new" client_step consistent
  by unfold_locales (auto simp: close_consistent intro: client_step_consistent)

text \<open>
  The state of a client. After any operations, whatever the connection attempts, the server
  and the timers did, a client says it is connected exactly when it holds a stream. And a call
  that fails, for whatever reason, leaves no stream behind on which a late answer to it could be
  taken for the answer to a later call.
\<close>

theorem client_connected_iff_stream:
  assumes "reachable (\<lambda>cl. cl = uds_client_new) client_step cl"
  shows "(uds_is_connected cl \<longleftrightarrow> uc_stream cl \<noteq> None)
    \<and> (case uds_call cd peer dial late0 late request cl of (r, cl') \<Rightarrow>
         if is_ok r then uc_stream cl' \<noteq> None else uc_stream cl' = None)"
proof -
  have c: "consistent cl" using assms by (rule client.reachable_inv)
  obtain r cl' where call: "uds_call cd peer dial late0 late request cl = (r, cl')" by force
  have "if is_ok r then uc_stream cl' \<noteq> None else uc_stream cl' = None"
    using connecting_consistent [OF c call [unfolded uds_call_def]] by blast
  then show ?thesis
    using c by (simp add: consistent_def uds_is_connected_def call)
qed

theorem client_connected_iff_stream_witness:
  "\<not> uds_is_connected (uds_client_new :: nat uds_client)"
  using client_connected_iff_stream [OF reach_init, of "uds_client_new :: nat uds_client"]
  by (simp add: uds_client_new_def)

section \<open>Calls on a server\<close>

text \<open>A client that is past the handshake, with no answer outstanding.\<close>

definition idle_stream :: "string \<Rightarrow> 's connection \<Rightarrow> (string option \<times> 's connection) uds_stream" where
  "idle_stream client_id c = \<lparr>us_peer = Some (Some client_id, c), us_unread = []\<rparr>"

lemma server_peer_request:
  assumes "codec_law (en_codec en)" and "acceptable en r" and "deliverable en x"
    and "sh_handle h r (cn_handler c) = (x, s)"
  shows "\<exists>c'. server_peer en h MSG_REQUEST (snd (request_message en r)) (Some cid, c)
      = ([response_message en x], Some (Some cid, c')) \<and> cn_handler c' = s"
proof -
  let ?c = "c\<lparr>cn_sink := open_sink\<rparr>"
  obtain c' where c': "dispatch en h cid MSG_REQUEST (snd (request_message en r)) ?c = (Ok True, c')"
    "cn_sink c' = (cn_sink ?c)\<lparr>sk_out := sk_out (cn_sink ?c) @ frame_bytes 1 MSG_RESPONSE (snd (response_message en x))\<rparr>"
    "cn_handler c' = s"
    using dispatch_request [OF assms(1-3), of h ?c s cid] assms(4) by (auto simp: open_sink_def)
  have "read_all (sk_out (cn_sink c')) = ([response_message en x], ConnectionFailed early_eof)"
    using read_all_frame [of "snd (response_message en x)" 1 MSG_RESPONSE "[]"] assms(3) c'(2)
    by (simp add: open_sink_def deliverable_def response_message_def)
  then show ?thesis
    using c' by (simp add: server_peer_def Let_def)
qed

lemma do_call_answered:
  assumes "codec_law (en_codec en)" and "acceptable en r" and "deliverable en x"
    and "sh_handle h r (cn_handler c) = (x, s)" and "fits (snd (request_message en r))"
  shows "\<exists>c'. do_call_internal (en_codec en) (server_peer en h) False r (idle_stream cid c)
      = (Ok x, idle_stream cid c') \<and> cn_handler c' = s"
proof -
  obtain c' where "server_peer en h MSG_REQUEST (snd (request_message en r)) (Some cid, c)
      = ([response_message en x], Some (Some cid, c'))" "cn_handler c' = s"
    using server_peer_request [OF assms(1-4), of cid] by blast
  moreover have "from_slice (en_codec en) rs_of_json ''ServiceResponse'' (snd (response_message en x)) = Ok x"
    using assms(1,3) unfolding response_message_def snd_conv deliverable_def
    by (intro service_response.from_slice_to_vec) auto
  ultimately show ?thesis
    using assms(5)
    by (simp add: do_call_internal_def idle_stream_def uds_write_def uds_read_def request_message_def
        response_message_def write_message_open open_sink_def action_simps lift_result_def)
qed

fun uds_calls :: "json_codec \<Rightarrow> 's peer \<Rightarrow> service_request list \<Rightarrow> 's uds_client
    \<Rightarrow> service_response result list \<times> 's uds_client" where
  "uds_calls cd peer [] cl = ([], cl)"
| "uds_calls cd peer (r # rs) cl =
     (case uds_call cd peer (Err Timeout) False False r cl of
        (x, cl') \<Rightarrow> (case uds_calls cd peer rs cl' of (xs, cl'') \<Rightarrow> (x # xs, cl'')))"

text \<open>
  C2. Calls. A connected client on a server, with no answer outstanding, gets for each call of a
  sequence of acceptable requests the response of the service handler to that request, and the
  handler sees the requests in that order; the client is again without an outstanding answer.
\<close>

theorem calls_answered:
  assumes "codec_law (en_codec en)" and "uc_stream cl = Some (idle_stream cid c)"
    and "\<forall>r \<in> set rs. acceptable en r \<and> fits (snd (request_message en r))"
    and "\<forall>x \<in> set (fst (handle_all h rs (cn_handler c))). deliverable en x"
  shows "\<exists>cl' c'. uds_calls (en_codec en) (server_peer en h) rs cl
      = (map Ok (fst (handle_all h rs (cn_handler c))), cl')
    \<and> uc_stream cl' = Some (idle_stream cid c') \<and> cn_handler c' = snd (handle_all h rs (cn_handler c))"
  using assms(2-4)
proof (induction rs arbitrary: cl c)
  case (Cons r rs)
  obtain x s where hx: "sh_handle h r (cn_handler c) = (x, s)" by force
  have ok: "acceptable en r" "fits (snd (request_message en r))" "deliverable en x"
    using Cons.prems hx by (auto split: prod.splits)
  obtain c1 where c1: "do_call_internal (en_codec en) (server_peer en h) False r (idle_stream cid c) = (Ok x, idle_stream cid c1)"
    "cn_handler c1 = s"
    using do_call_answered [OF assms(1) ok(1,3) hx ok(2), of cid] by blast
  define cl1 where "cl1 = cl\<lparr>uc_stream := Some (idle_stream cid c1)\<rparr>"
  have call: "uds_call (en_codec en) (server_peer en h) (Err Timeout) False False r cl = (Ok x, cl1)"
    using Cons.prems(1) c1(1) by (simp add: uds_call_def connecting_def with_stream_def action_simps cl1_def)
  have "\<exists>cl' c'. uds_calls (en_codec en) (server_peer en h) rs cl1 = (map Ok (fst (handle_all h rs s)), cl')
    \<and> uc_stream cl' = Some (idle_stream cid c') \<and> cn_handler c' = snd (handle_all h rs s)"
    using Cons.IH [of cl1 c1] Cons.prems c1(2) hx by (auto simp: cl1_def split: prod.splits)
  then show ?case using call hx by (auto split: prod.splits)
next
  case Nil
  then show ?case by auto
qed

theorem calls_answered_witness:
  "\<exists>cl'. uds_calls tagged (server_peer sample_surroundings sample_handler)
      [sample_request ''1'', sample_request ''2'']
      (uds_client_new\<lparr>uc_connected := True, uc_stream := Some (idle_stream ''c'' sample_connection)\<rparr>)
    = ([Ok (response_success (sample_request ''1'') (JStr ''hi'')),
        Ok (response_success (sample_request ''2'') (JStr ''hi''))], cl')"
proof -
  let ?rs = "[sample_request ''1'', sample_request ''2'']"
  have all: "handle_all sample_handler ?rs (cn_handler sample_connection) =
      ([response_success (sample_request ''1'') (JStr ''hi''), response_success (sample_request ''2'') (JStr ''hi'')], 0)"
    by (simp add: sample_defs)
  have del: "deliverable sample_surroundings (response_success (sample_request [a]) (JStr ''hi''))" if "utf8 [a]" for a
    using that by (simp add: deliverable_def sample_defs readable_def rs_to_json_def some_or_null_def utf8_def fits_short)
  have acc: "\<forall>r \<in> set ?rs. acceptable sample_surroundings r \<and> fits (snd (request_message sample_surroundings r))"
    by (simp add: sample_acceptable sample_fits utf8_def)
  have "\<forall>x \<in> set (fst (handle_all sample_handler ?rs (cn_handler sample_connection))). deliverable sample_surroundings x"
    unfolding all by (simp add: del utf8_def)
  note del_all = this
  let ?cl = "uds_client_new\<lparr>uc_connected := True, uc_stream := Some (idle_stream ''c'' sample_connection)\<rparr>"
  have cd: "en_codec sample_surroundings = tagged" by (simp add: sample_surroundings_def)
  have law: "codec_law (en_codec sample_surroundings)" unfolding cd by (rule tagged_law)
  have st: "uc_stream ?cl = Some (idle_stream ''c'' sample_connection)" by simp
  from calls_answered [OF law st acc del_all] show ?thesis
    unfolding all fst_conv list.map cd by blast
qed

section \<open>Streaming calls on a server\<close>





end
