(* ===== verification/Reliable.thy ===== *)
theory Reliable
  imports Complex_Main Client
begin

text \<open>
  \<^verbatim>\<open>ReliableUdsClient\<close> of \<^verbatim>\<open>src/src/client.rs\<close>: its configuration and statistics,
  connection, calls, pings and reconnection with growing delays. Its operations take the locks of
  the client; one that takes a lock it already holds never returns, which is the value \<open>None\<close>.
\<close>

section \<open>Configuration and statistics\<close>

datatype connection_state = Disconnected | Connecting | Connected | Reconnecting | Failed

record connection_config =
  cc_connect_timeout :: duration
  cc_request_timeout :: duration
  cc_idle_timeout :: duration
  cc_heartbeat_interval :: duration
  cc_max_reconnect_attempts :: nat
  cc_reconnect_delay :: duration

definition config_default :: connection_config where
  "config_default = \<lparr>cc_connect_timeout = from_secs 5, cc_request_timeout = from_secs 30,
     cc_idle_timeout = from_secs 300, cc_heartbeat_interval = from_secs 30,
     cc_max_reconnect_attempts = 5, cc_reconnect_delay = from_secs 1\<rparr>"

definition config_connect_timeout :: "duration \<Rightarrow> connection_config \<Rightarrow> connection_config" where
  "config_connect_timeout d c = c\<lparr>cc_connect_timeout := d\<rparr>"

definition config_request_timeout :: "duration \<Rightarrow> connection_config \<Rightarrow> connection_config" where
  "config_request_timeout d c = c\<lparr>cc_request_timeout := d\<rparr>"

definition config_idle_timeout :: "duration \<Rightarrow> connection_config \<Rightarrow> connection_config" where
  "config_idle_timeout d c = c\<lparr>cc_idle_timeout := d\<rparr>"

definition config_heartbeat_interval :: "duration \<Rightarrow> connection_config \<Rightarrow> connection_config" where
  "config_heartbeat_interval d c = c\<lparr>cc_heartbeat_interval := d\<rparr>"

definition config_max_reconnect_attempts :: "nat \<Rightarrow> connection_config \<Rightarrow> connection_config" where
  "config_max_reconnect_attempts n c = c\<lparr>cc_max_reconnect_attempts := n\<rparr>"

definition config_reconnect_delay :: "duration \<Rightarrow> connection_config \<Rightarrow> connection_config" where
  "config_reconnect_delay d c = c\<lparr>cc_reconnect_delay := d\<rparr>"

definition config_production :: connection_config where
  "config_production = \<lparr>cc_connect_timeout = from_secs 10, cc_request_timeout = from_secs 60,
     cc_idle_timeout = from_secs 600, cc_heartbeat_interval = from_secs 30,
     cc_max_reconnect_attempts = 10, cc_reconnect_delay = from_secs 2\<rparr>"

record connection_stats =
  st_total_requests :: u64
  st_successful_requests :: u64
  st_failed_requests :: u64
  st_reconnection_attempts :: u64
  st_reconnection_successes :: u64
  st_last_connected_at :: u64
  st_last_request_at :: u64

definition stats_new :: connection_stats where
  "stats_new = \<lparr>st_total_requests = 0, st_successful_requests = 0, st_failed_requests = 0,
     st_reconnection_attempts = 0, st_reconnection_successes = 0, st_last_connected_at = 0,
     st_last_request_at = 0\<rparr>"

text \<open>\<open>unix\<close> is the system time in seconds.\<close>

definition record_request :: "u64 \<Rightarrow> bool \<Rightarrow> connection_stats \<Rightarrow> connection_stats" where
  "record_request unix success s =
     (let s = s\<lparr>st_total_requests := st_total_requests s + 1\<rparr>;
          s = (if success then s\<lparr>st_successful_requests := st_successful_requests s + 1\<rparr>
               else s\<lparr>st_failed_requests := st_failed_requests s + 1\<rparr>)
      in s\<lparr>st_last_request_at := unix\<rparr>)"

definition record_reconnect :: "u64 \<Rightarrow> bool \<Rightarrow> connection_stats \<Rightarrow> connection_stats" where
  "record_reconnect unix success s =
     (let s = s\<lparr>st_reconnection_attempts := st_reconnection_attempts s + 1\<rparr> in
      if success then s\<lparr>st_reconnection_successes := st_reconnection_successes s + 1,
                        st_last_connected_at := unix\<rparr>
      else s)"

definition success_rate :: "connection_stats \<Rightarrow> rat" where
  "success_rate s =
     (let total' = of_nat (unat (st_total_requests s)) in
      if total' = 0 then 1 else of_nat (unat (st_successful_requests s)) / total')"

definition reconnection_rate :: "connection_stats \<Rightarrow> rat" where
  "reconnection_rate s =
     (let attempts = of_nat (unat (st_reconnection_attempts s)) in
      if attempts = 0 then 1 else of_nat (unat (st_reconnection_successes s)) / attempts)"

section \<open>The client\<close>

record 's reliable_client =
  rl_config :: connection_config
  rl_state :: connection_state
  rl_stream :: "'s uds_stream option"
  rl_stats :: connection_stats
  rl_connected_at :: "instant option"
  rl_last_request_at :: "instant option"

definition reliable_with_config :: "connection_config \<Rightarrow> 's reliable_client" where
  "reliable_with_config config = \<lparr>rl_config = config, rl_state = Disconnected, rl_stream = None,
     rl_stats = stats_new, rl_connected_at = None, rl_last_request_at = None\<rparr>"

definition reliable_new :: "'s reliable_client" where
  "reliable_new = reliable_with_config config_default"

definition reliable_is_connected :: "'s reliable_client \<Rightarrow> bool" where
  "reliable_is_connected cl = (rl_state cl = Connected)"

text \<open>What a connection attempt under its timeout comes to; \<open>None\<close>: the timer fires.\<close>

type_synonym 's dial = "(string + 's uds_stream) option"

definition reliable_connect :: "instant \<Rightarrow> u64 \<Rightarrow> 's dial \<Rightarrow> ('s reliable_client, unit) action" where
  "reliable_connect now unix dial cl =
     (if rl_state cl = Connected then (Ok (), cl)
      else if rl_state cl = Connecting then (Ok (), cl)
      else
        let cl = cl\<lparr>rl_state := Connecting\<rparr> in
        case dial of
          Some (Inr st) \<Rightarrow>
            (Ok (), cl\<lparr>rl_stream := Some st, rl_state := Connected, rl_connected_at := Some now,
               rl_stats := record_reconnect unix True (rl_stats cl)\<rparr>)
        | Some (Inl e) \<Rightarrow>
            (Err (ConnectionFailed e), cl\<lparr>rl_state := Failed, rl_stats := record_reconnect unix False (rl_stats cl)\<rparr>)
        | None \<Rightarrow>
            (Err Timeout, cl\<lparr>rl_state := Failed, rl_stats := record_reconnect unix False (rl_stats cl)\<rparr>))"

definition disconnect :: "'s reliable_client \<Rightarrow> 's reliable_client" where
  "disconnect cl = cl\<lparr>rl_stream := None, rl_state := Disconnected, rl_connected_at := None\<rparr>"

text \<open>
  A call. On an error message and on an unexpected message the code locks \<open>stream\<close> while it
  holds the guard of that lock: \<open>None\<close>.
\<close>

definition reliable_exchange :: "json_codec \<Rightarrow> 's peer \<Rightarrow> instant \<Rightarrow> u64 \<Rightarrow> bool \<Rightarrow> service_request
    \<Rightarrow> 's reliable_client \<Rightarrow> (service_response result \<times> 's reliable_client) option" where
  "reliable_exchange cd peer now unix late request cl =
     (case rl_stream cl of
        None \<Rightarrow> Some (Err ConnectionClosed, cl\<lparr>rl_state := Disconnected\<rparr>)
      | Some st \<Rightarrow>
          (case uds_write peer MSG_REQUEST (jc_to_vec cd (rq_to_json request)) st of
             (Inl e, st) \<Rightarrow> Some (Inl e, cl\<lparr>rl_stream := Some st\<rparr>)
           | (Inr _, st) \<Rightarrow>
               (case uds_read late st of
                  (Inl e, st) \<Rightarrow>
                    Some (Inl e, cl\<lparr>rl_stream := Some st, rl_stats :=
                      (if e = Timeout then record_request unix False (rl_stats cl) else rl_stats cl)\<rparr>)
                | (Inr (msg_type, response_data), st) \<Rightarrow>
                    if msg_type = MSG_ERROR then
                      (case from_slice cd (\<lambda>j. Some (value_of j)) ''Value'' response_data of
                         Inl e \<Rightarrow> Some (Inl e, cl\<lparr>rl_stream := Some st\<rparr>)
                       | Inr _ \<Rightarrow> None)
                    else if msg_type \<noteq> MSG_RESPONSE then None
                    else
                      (case from_slice cd rs_of_json ''ServiceResponse'' response_data of
                         Inl e \<Rightarrow> Some (Inl e, cl\<lparr>rl_stream := Some st\<rparr>)
                       | Inr response \<Rightarrow>
                           Some (Ok response, cl\<lparr>rl_stream := Some st,
                             rl_stats := record_request unix True (rl_stats cl),
                             rl_last_request_at := Some now\<rparr>)))))"

definition reliable_call :: "json_codec \<Rightarrow> 's peer \<Rightarrow> instant \<Rightarrow> u64 \<Rightarrow> 's dial \<Rightarrow> bool \<Rightarrow> service_request
    \<Rightarrow> 's reliable_client \<Rightarrow> (service_response result \<times> 's reliable_client) option" where
  "reliable_call cd peer now unix dial late request cl =
     (case if \<not> reliable_is_connected cl then reliable_connect now unix dial cl else (Ok (), cl) of
        (Inl e, cl) \<Rightarrow> Some (Inl e, cl)
      | (Inr _, cl) \<Rightarrow> reliable_exchange cd peer now unix late request cl)"

definition ping :: "'s peer \<Rightarrow> ('s reliable_client, unit) action" where
  "ping peer cl =
     (if \<not> reliable_is_connected cl then (Err ConnectionClosed, cl)
      else case rl_stream cl of
        None \<Rightarrow> (Err ConnectionClosed, cl)
      | Some st \<Rightarrow> (case uds_write peer MSG_PING [] st of (r, st) \<Rightarrow> (r, cl\<lparr>rl_stream := Some st\<rparr>)))"

definition needs_reconnect :: "instant \<Rightarrow> 's reliable_client \<Rightarrow> bool" where
  "needs_reconnect now cl =
     (case rl_last_request_at cl of
        Some t \<Rightarrow> now - t > cc_idle_timeout (rl_config cl)
      | None \<Rightarrow> False)"

text \<open>
  The loop of \<open>reconnect\<close>: \<open>dials k\<close> is the outcome of attempt \<open>k\<close>. The result carries the
  delays slept. (The product of a delay and an attempt is a \<^verbatim>\<open>Duration\<close>, whose range, some
  $10^{11}$ years, is not modelled.)
\<close>

fun reconnect_loop :: "instant \<Rightarrow> u64 \<Rightarrow> (nat \<Rightarrow> 's dial) \<Rightarrow> nat \<Rightarrow> nat \<Rightarrow> 's reliable_client
    \<Rightarrow> unit result \<times> 's reliable_client \<times> duration list" where
  "reconnect_loop now unix dials attempt 0 cl =
     (Err (ConnectionFailed (''Failed to reconnect after '' @ show_nat (cc_max_reconnect_attempts (rl_config cl))
        @ '' attempts'')),
      cl\<lparr>rl_state := Failed, rl_stats := record_reconnect unix False (rl_stats cl)\<rparr>, [])"
| "reconnect_loop now unix dials attempt (Suc left) cl =
     (let cl = cl\<lparr>rl_state := Reconnecting, rl_stream := None\<rparr> in
      case dials attempt of
        Some (Inr st) \<Rightarrow>
          (Ok (), cl\<lparr>rl_stream := Some st, rl_state := Connected, rl_connected_at := Some now,
             rl_stats := record_reconnect unix True (rl_stats cl)\<rparr>, [])
      | _ \<Rightarrow>
          let delay = cc_reconnect_delay (rl_config cl) * (attempt + 1) in
          case reconnect_loop now unix dials (attempt + 1) left cl of
            (r, cl, delays) \<Rightarrow> (r, cl, min delay (from_secs 30) # delays))"

definition reconnect :: "instant \<Rightarrow> u64 \<Rightarrow> (nat \<Rightarrow> 's dial) \<Rightarrow> 's reliable_client
    \<Rightarrow> unit result \<times> 's reliable_client \<times> duration list" where
  "reconnect now unix dials cl = reconnect_loop now unix dials 0 (cc_max_reconnect_attempts (rl_config cl)) cl"

definition ensure_connected :: "instant \<Rightarrow> u64 \<Rightarrow> 's dial \<Rightarrow> ('s reliable_client, unit) action" where
  "ensure_connected now unix dial cl =
     (if \<not> reliable_is_connected cl then reliable_connect now unix dial cl else (Ok (), cl))"

section \<open>Reconnection\<close>

definition established :: "'s dial \<Rightarrow> bool" where
  "established d = (case d of Some (Inr _) \<Rightarrow> True | _ \<Rightarrow> False)"

lemma reconnect_loop_outcome:
  "case reconnect_loop now unix dials k n cl of (r, cl', delays) \<Rightarrow>
    (case find (\<lambda>i. established (dials i)) [k..<k + n] of
       Some i \<Rightarrow> is_ok r \<and> rl_state cl' = Connected \<and> dials i = Some (Inr (the (rl_stream cl'))) \<and> rl_stream cl' \<noteq> None
         \<and> delays = map (\<lambda>j. min (cc_reconnect_delay (rl_config cl) * (j + 1)) (from_secs 30)) [k..<i]
     | None \<Rightarrow> \<not> is_ok r \<and> rl_state cl' = Failed \<and> (if n = 0 then rl_stream cl' = rl_stream cl else rl_stream cl' = None)
         \<and> delays = map (\<lambda>j. min (cc_reconnect_delay (rl_config cl) * (j + 1)) (from_secs 30)) [k..<k + n])"
proof (induction n arbitrary: k cl)
  case (Suc n)
  have upt: "[k..<k + Suc n] = k # [Suc k..<Suc k + n]" by (simp add: upt_conv_Cons)
  show ?case
  proof (cases "established (dials k)")
    case True
    then obtain st where "dials k = Some (Inr st)" by (auto simp: established_def split: option.splits sum.splits)
    with True show ?thesis unfolding upt by simp
  next
    case False
    let ?cl = "cl\<lparr>rl_state := Reconnecting, rl_stream := None\<rparr>"
    obtain r cl' ds where rec: "reconnect_loop now unix dials (Suc k) n ?cl = (r, cl', ds)"
      by (cases "reconnect_loop now unix dials (Suc k) n ?cl")
    have step: "reconnect_loop now unix dials k (Suc n) cl =
        (r, cl', min (cc_reconnect_delay (rl_config cl) * (k + 1)) (from_secs 30) # ds)"
      using False rec by (auto simp: established_def Let_def split: option.splits sum.splits)
    show ?thesis
    proof (cases "find (\<lambda>i. established (dials i)) [Suc k..<Suc k + n]")
      case None
      then show ?thesis
        using Suc.IH [where k = "Suc k" and cl = ?cl] False unfolding step upt rec
        by (cases "n = 0") simp_all
    next
      case (Some i)
      then have "i \<in> set [Suc k..<Suc k + n]" by (metis find_Some_iff nth_mem)
      then have "Suc k \<le> i" by auto
      then have "[k..<i] = k # [Suc k..<i]" by (simp add: upt_conv_Cons)
      with Some show ?thesis
        using Suc.IH [where k = "Suc k" and cl = ?cl] False unfolding step upt rec by simp
    qed
  qed
qed simp

text \<open>
  Reconnection. It tries at most \<open>max_reconnect_attempts\<close> times and stops at the first attempt
  that succeeds, with that attempt's stream; when none does, it reports failure without a stream.
  Before attempt \<open>j + 1\<close> it sleeps \<open>j + 1\<close> times the configured delay, at most 30 seconds.
\<close>

theorem reconnect_outcome:
  "case reconnect now unix dials cl of (r, cl', delays) \<Rightarrow>
    (let n = cc_max_reconnect_attempts (rl_config cl);
         sleeps = \<lambda>k. map (\<lambda>j. min (cc_reconnect_delay (rl_config cl) * (j + 1)) (from_secs 30)) [0..<k] in
     case find (\<lambda>i. established (dials i)) [0..<n] of
       Some i \<Rightarrow> is_ok r \<and> rl_state cl' = Connected \<and> dials i = Some (Inr (the (rl_stream cl')))
         \<and> rl_stream cl' \<noteq> None \<and> delays = sleeps i
     | None \<Rightarrow> \<not> is_ok r \<and> rl_state cl' = Failed
         \<and> (if n = 0 then rl_stream cl' = rl_stream cl else rl_stream cl' = None) \<and> delays = sleeps n)"
  using reconnect_loop_outcome [where now = now and unix = unix and dials = dials and k = 0
      and n = "cc_max_reconnect_attempts (rl_config cl)" and cl = cl]
  unfolding reconnect_def Let_def by (simp only: add_0)

section \<open>Calls on a server\<close>

text \<open>
  The client sends no handshake. A server takes its first request for one, refuses it, and closes
  the connection.
\<close>

definition unshaken :: "'s connection \<Rightarrow> (string option \<times> 's connection) uds_stream" where
  "unshaken c = \<lparr>us_peer = Some (None, c), us_unread = []\<rparr>"

definition dead_stream :: "'s uds_stream" where
  "dead_stream = \<lparr>us_peer = None, us_unread = []\<rparr>"

lemma first_request_refused:
  "fits p \<Longrightarrow> uds_write (server_peer en h) MSG_REQUEST p (unshaken c) = (Ok (), dead_stream)"
  by (simp add: uds_write_def write_message_open open_sink_def unshaken_def server_peer_def shake_def
      msg_defs Let_def dead_stream_def)

lemma dead_write: "fits p \<Longrightarrow> uds_write peer t p dead_stream = (Err (ConnectionFailed broken_pipe), dead_stream)"
  by (simp add: uds_write_def write_message_open open_sink_def dead_stream_def from_io_error_def)

lemma dead_read: "uds_read False dead_stream = (Err (ConnectionFailed early_eof), dead_stream)"
  by (simp add: uds_read_def dead_stream_def from_io_error_def)

fun reliable_calls :: "json_codec \<Rightarrow> 's peer \<Rightarrow> 's dial \<Rightarrow> service_request list \<Rightarrow> 's reliable_client
    \<Rightarrow> (service_response result list \<times> 's reliable_client) option" where
  "reliable_calls cd peer dial [] cl = Some ([], cl)"
| "reliable_calls cd peer dial (q # qs) cl =
     Option.bind (reliable_call cd peer 0 0 dial False q cl) (\<lambda>(r, cl').
       map_option (\<lambda>(rs, cl''). (r # rs, cl'')) (reliable_calls cd peer dial qs cl'))"

lemma calls_on_dead:
  assumes "rl_state cl = Connected" and "rl_stream cl = Some dead_stream"
    and "\<forall>q \<in> set qs. fits (jc_to_vec cd (rq_to_json q))"
  shows "\<exists>cl'. reliable_calls cd peer dial qs cl = Some (replicate (length qs) (Err (ConnectionFailed broken_pipe)), cl')"
  using assms
proof (induction qs arbitrary: cl)
  case (Cons q qs)
  have "reliable_call cd peer 0 0 dial False q cl = Some (Err (ConnectionFailed broken_pipe), cl\<lparr>rl_stream := Some dead_stream\<rparr>)"
    using Cons.prems by (simp add: reliable_call_def reliable_is_connected_def reliable_exchange_def dead_write)
  then show ?case
    using Cons.IH [of "cl\<lparr>rl_stream := Some dead_stream\<rparr>"] Cons.prems by auto
qed simp

text \<open>
  C31. \<open>ReliableUdsClient\<close> cannot talk to \<open>UdsServer\<close>. Whatever it calls, its first call on a new
  connection fails at the end of the stream, since the server wants a handshake first; the client
  still takes itself for connected and keeps the dead stream, so all further calls fail as well.
\<close>

theorem reliable_client_never_served:
  assumes "\<forall>q' \<in> set (q # qs). fits (jc_to_vec cd (rq_to_json q'))"
  shows "\<exists>cl'. reliable_calls cd (server_peer en h) (Some (Inr (unshaken c))) (q # qs) (reliable_with_config config)
    = Some (Err (ConnectionFailed early_eof) # replicate (length qs) (Err (ConnectionFailed broken_pipe)), cl')"
proof -
  let ?dial = "Some (Inr (unshaken c))"
  obtain cl1 where call: "reliable_call cd (server_peer en h) 0 0 ?dial False q (reliable_with_config config)
      = Some (Err (ConnectionFailed early_eof), cl1)"
    and cl1: "rl_state cl1 = Connected" "rl_stream cl1 = Some dead_stream"
    using assms by (simp add: reliable_call_def reliable_is_connected_def reliable_with_config_def reliable_connect_def
        reliable_exchange_def first_request_refused dead_read Let_def)
  obtain cl' where "reliable_calls cd (server_peer en h) ?dial qs cl1
      = Some (replicate (length qs) (Err (ConnectionFailed broken_pipe)), cl')"
    using calls_on_dead [OF cl1, of qs cd "server_peer en h" ?dial] assms by auto
  with call show ?thesis by simp
qed

theorem reliable_client_never_served_witness:
  "\<exists>cl'. reliable_calls tagged (server_peer sample_surroundings sample_handler)
      (Some (Inr (unshaken sample_connection))) [sample_request ''1'', sample_request ''2''] reliable_new
    = Some ([Err (ConnectionFailed early_eof), Err (ConnectionFailed broken_pipe)], cl')"
proof -
  have "\<forall>q \<in> set [sample_request ''1'', sample_request ''2'']. fits (jc_to_vec tagged (rq_to_json q))"
    using sample_fits [of "''1''"] sample_fits [of "''2''"] by (simp add: request_message_def sample_surroundings_def)
  from reliable_client_never_served [OF this, of sample_surroundings sample_handler sample_connection config_default]
  show ?thesis unfolding reliable_new_def by (simp del: reliable_calls.simps)
qed

section \<open>Calls that never return\<close>

text \<open>
  Self-deadlock. A call whose answer is an error message that decodes, or any message that is
  not a response, never returns: it waits for a lock it holds. In particular after a \<open>ping\<close>, whose
  answer nobody reads, the next call on a stream without outstanding answers never returns.
\<close>

theorem unexpected_answer_blocks:
  assumes "reliable_is_connected cl" and "rl_stream cl = Some st" and "us_unread st = []"
    and "us_peer st = Some s" and "peer MSG_PING [] s = ([(MSG_PONG, [])], Some s')"
    and "peer MSG_REQUEST (jc_to_vec cd (rq_to_json request)) s' = (replies, s'')"
    and "fits (jc_to_vec cd (rq_to_json request))"
  shows "\<exists>cl'. ping peer cl = (Ok (), cl') \<and> reliable_call cd peer now unix dial False request cl' = None"
proof -
  define st1 where "st1 = \<lparr>us_peer = Some s', us_unread = [(MSG_PONG, [])]\<rparr>"
  have "fits []" by (simp add: fits_def MAX_MESSAGE_SIZE_def)
  then have "ping peer cl = (Ok (), cl\<lparr>rl_stream := Some st1\<rparr>)"
    using assms(1-5) by (simp add: ping_def uds_write_def write_message_open open_sink_def st1_def)
  moreover have "reliable_call cd peer now unix dial False request (cl\<lparr>rl_stream := Some st1\<rparr>) = None"
    using assms(1,6,7)
    by (simp add: reliable_call_def reliable_is_connected_def reliable_exchange_def uds_write_def
        write_message_open open_sink_def st1_def uds_read_def msg_defs)
  ultimately show ?thesis by blast
qed

theorem unexpected_answer_blocks_witness:
  "\<exists>cl'. ping (server_peer sample_surroundings sample_handler)
      (reliable_new\<lparr>rl_state := Connected, rl_stream := Some (idle_stream ''c'' sample_connection)\<rparr>) = (Ok (), cl')
    \<and> reliable_call tagged (server_peer sample_surroundings sample_handler) 0 0 None False (sample_request ''1'') cl' = None"
proof -
  let ?c = "sample_connection\<lparr>cn_sink := open_sink\<rparr>"
  have f: "fits []" by (rule fits_short) simp
  have p: "server_peer sample_surroundings sample_handler MSG_PING [] (Some ''c'', sample_connection)
      = ([(MSG_PONG, [])], Some (Some ''c'', ?c\<lparr>cn_sink := \<lparr>sk_out = frame_bytes 1 MSG_PONG [], sk_room = None\<rparr>\<rparr>))"
    using read_all_frame [OF f, of 1 MSG_PONG "[]"] f
    by (simp add: server_peer_def dispatch_def msg_defs server_simps Let_def open_sink_def)
  obtain replies s'' where q: "server_peer sample_surroundings sample_handler MSG_REQUEST
      (jc_to_vec tagged (rq_to_json (sample_request ''1'')))
      (Some ''c'', ?c\<lparr>cn_sink := \<lparr>sk_out = frame_bytes 1 MSG_PONG [], sk_room = None\<rparr>\<rparr>) = (replies, s'')"
    by (meson surj_pair)
  have r: "fits (jc_to_vec tagged (rq_to_json (sample_request ''1'')))"
    using sample_fits [of "''1''"] by (simp add: request_message_def sample_surroundings_def)
  show ?thesis
    by (rule unexpected_answer_blocks [where st = "idle_stream ''c'' sample_connection", OF _ _ _ _ p q r])
      (simp_all add: reliable_is_connected_def idle_stream_def)
qed

end
