(* ===== verification/Production_Pool.thy ===== *)
theory Production_Pool
  imports Client Breaker "HOL-Library.Multiset"
begin

text \<open>
  \<^verbatim>\<open>ProductionPool\<close> of \<^verbatim>\<open>src/src/pool.rs\<close>: many calls at once share a semaphore, a
  stack of idle clients, a circuit breaker, counters and a shutdown flag. A call is a phase; each
  step is what one call does between two points where it can wait. A call can be dropped by its
  caller at such a point. Clients are named by numbers here; what a dropped call does to a client
  is shown on the client of \<^verbatim>\<open>Client\<close> at the end.
\<close>

section \<open>State\<close>

record pool_config =
  pc_max_concurrent :: nat
  pc_request_timeout :: duration
  pc_circuit_breaker_threshold :: u64
  pc_circuit_breaker_timeout :: duration
  pc_connection_timeout :: duration

definition pool_config_default :: pool_config where
  "pool_config_default = \<lparr>pc_max_concurrent = 100, pc_request_timeout = from_secs 30,
     pc_circuit_breaker_threshold = 5, pc_circuit_breaker_timeout = from_secs 30,
     pc_connection_timeout = from_secs 5\<rparr>"

record pool_metrics =
  pm_total_requests :: u64
  pm_successful_requests :: u64
  pm_failed_requests :: u64
  pm_circuit_breaker_opens :: u64
  pm_timeout_errors :: u64
  pm_active_requests :: u64

datatype 'r call_phase =
    Entering
  | Rejected protocol_error \<comment> \<open>returned at the entry\<close>
  | Waiting
  | Refused protocol_error \<comment> \<open>returned at the semaphore\<close>
  | Running nat
  | Returned "'r result"
  | Dropped

record 'r production_pool =
  pp_max :: nat
  pp_permits :: nat
  pp_closed :: bool \<comment> \<open>the semaphore\<close>
  pp_clients :: "nat list" \<comment> \<open>idle clients, the next to be taken first\<close>
  pp_created :: nat \<comment> \<open>clients made so far: the name of the next one\<close>
  pp_breaker :: breaker
  pp_metrics :: pool_metrics
  pp_shutdown :: bool
  pp_calls :: "'r call_phase list"

definition metrics_zero :: pool_metrics where
  "metrics_zero = \<lparr>pm_total_requests = 0, pm_successful_requests = 0, pm_failed_requests = 0,
     pm_circuit_breaker_opens = 0, pm_timeout_errors = 0, pm_active_requests = 0\<rparr>"

definition pool_with_config :: "pool_config \<Rightarrow> 'r production_pool" where
  "pool_with_config config =
     \<lparr>pp_max = pc_max_concurrent config, pp_permits = pc_max_concurrent config, pp_closed = False,
      pp_clients = [], pp_created = 0,
      pp_breaker = cb_with_timeout (pc_circuit_breaker_timeout config) (cb_new (pc_circuit_breaker_threshold config)),
      pp_metrics = metrics_zero, pp_shutdown = False, pp_calls = []\<rparr>"

definition pool_new :: "'r production_pool" where
  "pool_new = pool_with_config pool_config_default"

text \<open>
  Reading the metrics also reads the state of the breaker, which may move it from open to half
  open.
\<close>

record pool_report =
  pr_metrics :: pool_metrics
  pr_circuit_breaker_state :: string

definition pool_report_of :: "instant \<Rightarrow> 'r production_pool \<Rightarrow> pool_report \<times> 'r production_pool" where
  "pool_report_of now p =
     (case cb_get_state now (pp_breaker p) of
        (st, cb) \<Rightarrow>
          (\<lparr>pr_metrics = pp_metrics p,
            pr_circuit_breaker_state = (case st of Closed \<Rightarrow> ''Closed'' | Open \<Rightarrow> ''Open'' | HalfOpen \<Rightarrow> ''HalfOpen'')\<rparr>,
           p\<lparr>pp_breaker := cb\<rparr>))"

definition circuit_breaker_state :: "instant \<Rightarrow> 'r production_pool \<Rightarrow> circuit_state \<times> 'r production_pool" where
  "circuit_breaker_state now p = (case cb_get_state now (pp_breaker p) of (st, cb) \<Rightarrow> (st, p\<lparr>pp_breaker := cb\<rparr>))"

definition set_phase :: "nat \<Rightarrow> 'r call_phase \<Rightarrow> 'r production_pool \<Rightarrow> 'r production_pool" where
  "set_phase i ph p = p\<lparr>pp_calls := (pp_calls p)[i := ph]\<rparr>"

definition count_active :: "(u64 \<Rightarrow> u64) \<Rightarrow> 'r production_pool \<Rightarrow> 'r production_pool" where
  "count_active f p = p\<lparr>pp_metrics := (pp_metrics p)\<lparr>pm_active_requests := f (pm_active_requests (pp_metrics p))\<rparr>\<rparr>"

section \<open>What one call does\<close>

text \<open>From the entry to the semaphore.\<close>

definition enter :: "instant \<Rightarrow> nat \<Rightarrow> 'r production_pool \<Rightarrow> 'r production_pool" where
  "enter now i p =
     (if pp_shutdown p then set_phase i (Rejected (Server ''pool is shutting down'')) p
      else case cb_can_execute now (pp_breaker p) of
        (Inl e, cb) \<Rightarrow> set_phase i (Rejected e) (p\<lparr>pp_breaker := cb\<rparr>)
      | (Inr _, cb) \<Rightarrow>
          let p = p\<lparr>pp_breaker := cb,
                    pp_metrics := (pp_metrics p)\<lparr>pm_total_requests := pm_total_requests (pp_metrics p) + 1\<rparr>\<rparr>;
              p = count_active (\<lambda>n. n + 1) p
          in set_phase i Waiting p)"

text \<open>The semaphore grants a permit; the call takes an idle client or makes one.\<close>

definition acquire :: "nat \<Rightarrow> 'r production_pool \<Rightarrow> 'r production_pool" where
  "acquire i p =
     (let p = p\<lparr>pp_permits := pp_permits p - 1\<rparr> in
      case pp_clients p of
        c # cs \<Rightarrow> set_phase i (Running c) (p\<lparr>pp_clients := cs\<rparr>)
      | [] \<Rightarrow> set_phase i (Running (pp_created p)) (p\<lparr>pp_created := pp_created p + 1\<rparr>))"

definition refused :: "nat \<Rightarrow> 'r production_pool \<Rightarrow> 'r production_pool" where
  "refused i p = set_phase i (Refused (ResourceExhausted ''pool exhausted'')) (count_active (\<lambda>n. n - 1) p)"

text \<open>The call of the client is over, or the timer of the pool fires: \<open>None\<close>.\<close>

definition finish :: "instant \<Rightarrow> nat \<Rightarrow> nat \<Rightarrow> 'r result option \<Rightarrow> 'r production_pool \<Rightarrow> 'r production_pool" where
  "finish now i c result p =
     (let p = p\<lparr>pp_clients := c # pp_clients p\<rparr>;
          p = p\<lparr>pp_permits := pp_permits p + 1\<rparr>;
          p = count_active (\<lambda>n. n - 1) p;
          m = pp_metrics p
      in case result of
        Some (Inr response) \<Rightarrow>
          set_phase i (Returned (Ok response))
            (p\<lparr>pp_breaker := cb_record_success (pp_breaker p),
               pp_metrics := m\<lparr>pm_successful_requests := pm_successful_requests m + 1\<rparr>\<rparr>)
      | Some (Inl e) \<Rightarrow>
          set_phase i (Returned (Err e))
            (p\<lparr>pp_breaker := cb_record_failure now (pp_breaker p),
               pp_metrics := m\<lparr>pm_failed_requests := pm_failed_requests m + 1\<rparr>\<rparr>)
      | None \<Rightarrow>
          set_phase i (Returned (Err Timeout))
            (p\<lparr>pp_breaker := cb_record_failure now (pp_breaker p),
               pp_metrics := m\<lparr>pm_timeout_errors := pm_timeout_errors m + 1,
                               pm_failed_requests := pm_failed_requests m + 1\<rparr>\<rparr>))"

definition pool_close :: "'r production_pool \<Rightarrow> 'r production_pool" where
  "pool_close p = p\<lparr>pp_shutdown := True, pp_closed := True, pp_clients := []\<rparr>"

definition is_shutting_down :: "'r production_pool \<Rightarrow> bool" where
  "is_shutting_down p = pp_shutdown p"

text \<open>\<^verbatim>\<open>call_batch_with_timeout\<close> makes one call of each request, all at once.\<close>

definition pool_batch :: "nat \<Rightarrow> 'r production_pool \<Rightarrow> 'r production_pool" where
  "pool_batch n p = p\<lparr>pp_calls := pp_calls p @ replicate n Entering\<rparr>"

text \<open>
  All calls together, in any interleaving. A dropped call gives its permit back, but neither its
  client nor its place in the count of active requests.
\<close>

inductive pool_step :: "'r production_pool \<Rightarrow> 'r production_pool \<Rightarrow> bool" where
  new_call: "pool_step p (p\<lparr>pp_calls := pp_calls p @ [Entering]\<rparr>)"
| new_batch: "pool_step p (pool_batch n p)"
| enters: "i < length (pp_calls p) \<Longrightarrow> pp_calls p ! i = Entering \<Longrightarrow> pool_step p (enter now i p)"
| acquires: "i < length (pp_calls p) \<Longrightarrow> pp_calls p ! i = Waiting \<Longrightarrow> \<not> pp_closed p \<Longrightarrow> 0 < pp_permits p
    \<Longrightarrow> pool_step p (acquire i p)"
| is_refused: "i < length (pp_calls p) \<Longrightarrow> pp_calls p ! i = Waiting \<Longrightarrow> pp_closed p \<Longrightarrow> pool_step p (refused i p)"
| finishes: "i < length (pp_calls p) \<Longrightarrow> pp_calls p ! i = Running c \<Longrightarrow> pool_step p (finish now i c result p)"
| dropped_waiting: "i < length (pp_calls p) \<Longrightarrow> pp_calls p ! i = Waiting \<Longrightarrow> pool_step p (set_phase i Dropped p)"
| dropped_running: "i < length (pp_calls p) \<Longrightarrow> pp_calls p ! i = Running c
    \<Longrightarrow> pool_step p (set_phase i Dropped (p\<lparr>pp_permits := pp_permits p + 1\<rparr>))"
| closes: "pool_step p (pool_close p)"

inductive_cases pool_stepE: "pool_step p p'"

section \<open>Counting phases\<close>

definition tally :: "('r call_phase \<Rightarrow> 'a) \<Rightarrow> 'r production_pool \<Rightarrow> 'a :: comm_monoid_add" where
  "tally f p = sum_list (map f (pp_calls p))"

lemma sum_list_map_update:
  fixes f :: "'b \<Rightarrow> 'a :: comm_monoid_add"
  shows "i < length xs \<Longrightarrow> sum_list (map f (xs[i := y])) + f (xs ! i) = sum_list (map f xs) + f y"
proof (induction xs arbitrary: i)
  case (Cons x xs)
  show ?case
  proof (cases i)
    case 0
    then show ?thesis by (simp add: add_ac)
  next
    case (Suc j)
    then have "sum_list (map f (xs[j := y])) + f (xs ! j) = sum_list (map f xs) + f y"
      using Cons by simp
    then show ?thesis using Suc by (simp add: add.assoc)
  qed
qed simp

lemma tally_set_phase:
  "i < length (pp_calls p) \<Longrightarrow> pp_calls p ! i = old \<Longrightarrow> tally f (set_phase i new p) + f old = tally f p + f new"
  unfolding tally_def set_phase_def using sum_list_map_update [of i "pp_calls p" f new] by simp

lemma tally_set_phase_word:
  fixes f :: "'r call_phase \<Rightarrow> u64"
  shows "i < length (pp_calls p) \<Longrightarrow> pp_calls p ! i = old \<Longrightarrow> tally f (set_phase i new p) = tally f p + f new - f old"
  using tally_set_phase [of i p old f new] by (simp add: eq_diff_eq)

lemma tally_cong: "pp_calls p = pp_calls q \<Longrightarrow> tally f p = tally f q"
  by (simp add: tally_def)

lemma tally_batch: "f Entering = 0 \<Longrightarrow> tally f (pool_batch n p) = tally f p"
  by (induction n) (simp_all add: tally_def pool_batch_def)

definition in_flight :: "'r call_phase \<Rightarrow> u64" where
  "in_flight ph = (case ph of Waiting \<Rightarrow> 1 | Running _ \<Rightarrow> 1 | Dropped \<Rightarrow> 1 | _ \<Rightarrow> 0)"

definition succeeded :: "'r call_phase \<Rightarrow> u64" where
  "succeeded ph = (case ph of Returned (Inr _) \<Rightarrow> 1 | _ \<Rightarrow> 0)"

definition failed :: "'r call_phase \<Rightarrow> u64" where
  "failed ph = (case ph of Returned (Inl _) \<Rightarrow> 1 | _ \<Rightarrow> 0)"

definition admitted :: "'r call_phase \<Rightarrow> u64" where
  "admitted ph = (case ph of Entering \<Rightarrow> 0 | Rejected _ \<Rightarrow> 0 | _ \<Rightarrow> 1)"

definition held :: "'r call_phase \<Rightarrow> nat multiset" where
  "held ph = (case ph of Running c \<Rightarrow> {#c#} | _ \<Rightarrow> {#})"

lemmas phase_defs = in_flight_def succeeded_def failed_def admitted_def held_def

definition counters_ok :: "'r production_pool \<Rightarrow> bool" where
  "counters_ok p \<longleftrightarrow>
     pm_total_requests (pp_metrics p) = tally admitted p
     \<and> pm_successful_requests (pp_metrics p) = tally succeeded p
     \<and> pm_failed_requests (pp_metrics p) = tally failed p
     \<and> pm_active_requests (pp_metrics p) = tally in_flight p
     \<and> pm_circuit_breaker_opens (pp_metrics p) = 0"

definition clients_ok :: "'r production_pool \<Rightarrow> bool" where
  "clients_ok p \<longleftrightarrow>
     pp_permits p + size (tally held p) = pp_max p
     \<and> length (pp_clients p) + size (tally held p) \<le> pp_max p
     \<and> (\<forall>c. count (mset (pp_clients p) + tally held p) c \<le> (if c < pp_created p then 1 else 0))"

lemma counters_step:
  assumes "pool_step p p'" and "counters_ok p"
  shows "counters_ok p'"
  using assms(1)
proof cases
  case new_call
  then show ?thesis using assms(2) by (simp add: counters_ok_def tally_def phase_defs)
next
  case (new_batch n)
  then show ?thesis using assms(2) by (simp add: counters_ok_def tally_batch phase_defs) (simp add: pool_batch_def)
next
  case (enters i now)
  then show ?thesis
    using assms(2)
    by (simp add: counters_ok_def enter_def Let_def count_active_def tally_set_phase_word split: prod.split sum.split)
      (simp add: tally_def set_phase_def phase_defs)
next
  case (acquires i)
  then show ?thesis
    using assms(2)
    by (simp add: counters_ok_def acquire_def Let_def tally_set_phase_word split: list.split)
      (simp add: tally_def set_phase_def phase_defs)
next
  case (is_refused i)
  then show ?thesis
    using assms(2)
    by (simp add: counters_ok_def refused_def count_active_def tally_set_phase_word)
      (simp add: tally_def set_phase_def phase_defs)
next
  case (finishes i c now result)
  then show ?thesis
    using assms(2)
    by (simp add: counters_ok_def finish_def Let_def count_active_def tally_set_phase_word split: option.split sum.split)
      (simp add: tally_def set_phase_def phase_defs)
next
  case (dropped_waiting i)
  then show ?thesis
    using assms(2) by (simp add: counters_ok_def tally_set_phase_word) (simp add: set_phase_def phase_defs)
next
  case (dropped_running i c)
  then show ?thesis
    using assms(2) by (simp add: counters_ok_def tally_set_phase_word) (simp add: tally_def set_phase_def phase_defs)
next
  case closes
  then show ?thesis using assms(2) by (simp add: counters_ok_def pool_close_def tally_def)
qed

lemma held_set_phase:
  assumes "i < length (pp_calls p)" and "held (pp_calls p ! i) = {#}" and "held new = {#}"
  shows "tally held (set_phase i new p) = tally held p"
  using tally_set_phase [of i p _ held new] assms by simp

lemma held_take:
  "i < length (pp_calls p) \<Longrightarrow> held (pp_calls p ! i) = {#} \<Longrightarrow>
    tally held (set_phase i (Running c) p) = add_mset c (tally held p)"
  using tally_set_phase [of i p _ held "Running c"] by (simp add: held_def)

lemma held_release:
  "i < length (pp_calls p) \<Longrightarrow> pp_calls p ! i = Running c \<Longrightarrow> held new = {#} \<Longrightarrow>
    tally held p = add_mset c (tally held (set_phase i new p))"
  using tally_set_phase [of i p "Running c" held new] by (simp add: held_def)

lemma set_phase_fields [simp]:
  "pp_permits (set_phase i ph p) = pp_permits p" "pp_max (set_phase i ph p) = pp_max p"
  "pp_clients (set_phase i ph p) = pp_clients p" "pp_created (set_phase i ph p) = pp_created p"
  "pp_shutdown (set_phase i ph p) = pp_shutdown p" "pp_closed (set_phase i ph p) = pp_closed p"
  "pp_permits (count_active f p) = pp_permits p" "pp_max (count_active f p) = pp_max p"
  "pp_clients (count_active f p) = pp_clients p" "pp_created (count_active f p) = pp_created p"
  "pp_calls (count_active f p) = pp_calls p"
  by (simp_all add: set_phase_def count_active_def)

lemma clients_okD:
  assumes "clients_ok p"
  shows "pp_permits p + size (tally held p) = pp_max p"
    and "length (pp_clients p) + size (tally held p) \<le> pp_max p"
    and "count (mset (pp_clients p)) c + count (tally held p) c \<le> (if c < pp_created p then 1 else 0)"
  using assms by (auto simp: clients_ok_def simp del: count_mset)

lemma clients_ok_fewer:
  assumes "clients_ok p" and "pp_permits q + size (tally held q) = pp_max q" and "pp_max q = pp_max p"
    and "mset (pp_clients q) + tally held q \<subseteq># mset (pp_clients p) + tally held p" and "pp_created q = pp_created p"
  shows "clients_ok q"
proof -
  have "length (pp_clients q) + size (tally held q) \<le> pp_max q"
    using size_mset_mono [OF assms(4)] clients_okD(2) [OF assms(1)] assms(3) by simp
  moreover have "count (mset (pp_clients q) + tally held q) c \<le> (if c < pp_created q then 1 else 0)" for c
    using mset_subset_eq_count [OF assms(4), of c] clients_okD(3) [OF assms(1), of c] assms(5) by simp
  ultimately show ?thesis using assms(2) by (simp add: clients_ok_def)
qed

lemma clients_ok_same:
  assumes "clients_ok p" and "tally held q = tally held p" and "pp_permits q = pp_permits p"
    and "pp_max q = pp_max p" and "pp_clients q = pp_clients p" and "pp_created q = pp_created p"
  shows "clients_ok q"
  using assms by (simp add: clients_ok_def)

lemma clients_enter:
  assumes "clients_ok p" and "i < length (pp_calls p)" and "pp_calls p ! i = Entering"
  shows "clients_ok (enter now i p)"
proof -
  have "tally held (set_phase i ph q) = tally held p" if "pp_calls q = pp_calls p" "held ph = {#}" for ph q
    using that assms(2,3) held_set_phase [of i q ph] tally_cong [of q p held] by (simp add: held_def)
  then show ?thesis
    using assms(1) unfolding enter_def Let_def
    by (auto intro!: clients_ok_same [OF assms(1)] simp: held_def split: prod.split sum.split)
qed

lemma clients_acquire:
  assumes ok: "clients_ok p" and "i < length (pp_calls p)" and "pp_calls p ! i = Waiting" and "0 < pp_permits p"
  shows "clients_ok (acquire i p)"
proof (cases "pp_clients p")
  case Nil
  define q where "q = p\<lparr>pp_permits := pp_permits p - 1, pp_created := pp_created p + 1\<rparr>"
  have "tally held (set_phase i (Running (pp_created p)) q) = add_mset (pp_created p) (tally held p)"
    using held_take [of i q "pp_created p"] tally_cong [of q p held] assms(2,3) by (simp add: q_def held_def)
  moreover have "acquire i p = set_phase i (Running (pp_created p)) q"
    by (simp add: acquire_def Nil q_def)
  moreover have "count (add_mset (pp_created p) (tally held p)) c \<le> (if c < Suc (pp_created p) then 1 else 0)" for c
    using clients_okD(3) [OF ok, of c] Nil by (auto split: if_splits)
  ultimately show ?thesis
    using clients_okD(1,2) [OF ok] Nil assms(4) by (simp add: clients_ok_def q_def)
next
  case (Cons c cs)
  define q where "q = p\<lparr>pp_permits := pp_permits p - 1, pp_clients := cs\<rparr>"
  have "tally held (set_phase i (Running c) q) = add_mset c (tally held p)"
    using held_take [of i q c] tally_cong [of q p held] assms(2,3) by (simp add: q_def held_def)
  moreover have "acquire i p = set_phase i (Running c) q"
    by (simp add: acquire_def Cons q_def)
  ultimately show ?thesis
    using ok Cons assms(4) by (auto simp: clients_ok_def q_def)
qed

lemma clients_finish:
  assumes ok: "clients_ok p" and "i < length (pp_calls p)" and "pp_calls p ! i = Running c"
  shows "clients_ok (finish now i c result p)"
proof -
  obtain q r where q: "finish now i c result p = set_phase i (Returned r) q" "pp_calls q = pp_calls p"
    "pp_permits q = pp_permits p + 1" "pp_clients q = c # pp_clients p" "pp_created q = pp_created p" "pp_max q = pp_max p"
    by (cases result; cases "the result") (auto simp: finish_def Let_def)
  have "tally held p = add_mset c (tally held (set_phase i (Returned r) q))"
    using held_release [of i q c "Returned r"] tally_cong [of q p held] assms(2,3) q(2) by (simp add: held_def)
  with ok q show ?thesis by (auto simp: clients_ok_def)
qed

lemma clients_step:
  assumes "pool_step p p'" and ok: "clients_ok p"
  shows "clients_ok p'"
  using assms(1)
proof cases
  case new_call
  then show ?thesis using ok by (simp add: clients_ok_def tally_def held_def)
next
  case (new_batch n)
  moreover have "tally held (pool_batch n p) = tally held p" by (simp add: tally_batch held_def)
  ultimately show ?thesis by (auto intro: clients_ok_same [OF ok] simp: pool_batch_def)
next
  case (enters i now)
  then show ?thesis using ok clients_enter by blast
next
  case (acquires i)
  then show ?thesis using ok clients_acquire by blast
next
  case (is_refused i)
  have "tally held (refused i p) = tally held p"
    using is_refused held_set_phase [of i "count_active (\<lambda>n. n - 1) p"] tally_cong [of "count_active (\<lambda>n. n - 1) p" p held]
    by (simp add: refused_def held_def)
  with is_refused ok show ?thesis by (auto intro: clients_ok_same simp: refused_def)
next
  case (finishes i c now result)
  then show ?thesis using ok clients_finish by blast
next
  case (dropped_waiting i)
  then have "tally held p' = tally held p" by (simp add: held_set_phase held_def)
  with dropped_waiting ok show ?thesis by (auto intro: clients_ok_same)
next
  case (dropped_running i c)
  define q where "q = p\<lparr>pp_permits := pp_permits p + 1\<rparr>"
  have "tally held p = add_mset c (tally held (set_phase i Dropped q))"
    using held_release [of i q c Dropped] tally_cong [of q p held] dropped_running by (simp add: q_def held_def)
  moreover have "p' = set_phase i Dropped q" using dropped_running by (simp add: q_def)
  ultimately show ?thesis
    using clients_okD(1) [OF ok] by (intro clients_ok_fewer [OF ok]) (simp_all add: q_def)
next
  case closes
  have "tally held (pool_close p) = tally held p" by (rule tally_cong) (simp add: pool_close_def)
  with closes clients_okD(1) [OF ok] show ?thesis
    by (intro clients_ok_fewer [OF ok]) (simp_all add: pool_close_def)
qed

lemma counters_start: "counters_ok (pool_with_config config)"
  by (simp add: counters_ok_def pool_with_config_def metrics_zero_def tally_def)

lemma clients_start: "clients_ok (pool_with_config config)"
  by (simp add: clients_ok_def pool_with_config_def tally_def)

lemma pool_max_start: "pp_max (pool_with_config config) = pc_max_concurrent config"
  by (simp add: pool_with_config_def)

lemma pool_max_step: "pool_step p p' \<Longrightarrow> pp_max p' = pp_max p"
  by (erule pool_stepE)
    (simp_all add: pool_batch_def enter_def acquire_def refused_def finish_def pool_close_def Let_def
      split: prod.split sum.split list.split option.split)

interpretation pool: invariant_system "\<lambda>p. p = pool_with_config config" pool_step
    "\<lambda>p. counters_ok p \<and> clients_ok p \<and> pp_max p = pc_max_concurrent config"
  by unfold_locales
    (auto intro: counters_start clients_start counters_step clients_step simp: pool_max_start pool_max_step)

section \<open>What the pool guarantees\<close>

definition was_admitted :: "'r call_phase \<Rightarrow> bool" where
  "was_admitted ph = (case ph of Entering \<Rightarrow> False | Rejected _ \<Rightarrow> False | _ \<Rightarrow> True)"

definition in_progress :: "'r call_phase \<Rightarrow> bool" where
  "in_progress ph = (case ph of Waiting \<Rightarrow> True | Running _ \<Rightarrow> True | _ \<Rightarrow> False)"

definition was_dropped :: "'r call_phase \<Rightarrow> bool" where
  "was_dropped ph = (case ph of Dropped \<Rightarrow> True | _ \<Rightarrow> False)"

definition returned_ok :: "'r call_phase \<Rightarrow> bool" where
  "returned_ok ph = (case ph of Returned r \<Rightarrow> is_ok r | _ \<Rightarrow> False)"

definition returned_err :: "'r call_phase \<Rightarrow> bool" where
  "returned_err ph = (case ph of Returned r \<Rightarrow> \<not> is_ok r | _ \<Rightarrow> False)"

definition number_of :: "('r call_phase \<Rightarrow> bool) \<Rightarrow> 'r production_pool \<Rightarrow> u64" where
  "number_of P p = of_nat (length (filter P (pp_calls p)))"

lemma tally_number: "(\<And>ph. f ph = (if P ph then 1 else 0)) \<Longrightarrow> tally f p = number_of P p"
proof -
  assume f: "\<And>ph. f ph = (if P ph then 1 else 0)"
  have "sum_list (map f phs) = (of_nat (length (filter P phs)) :: u64)" for phs
    by (induction phs) (simp_all add: f)
  then show ?thesis by (simp add: tally_def number_of_def)
qed

lemma tally_in_flight: "tally in_flight p = number_of in_progress p + number_of was_dropped p"
proof -
  have "sum_list (map in_flight phs)
      = (of_nat (length (filter in_progress phs)) + of_nat (length (filter was_dropped phs)) :: u64)" for phs
    by (induction phs) (simp_all add: in_flight_def in_progress_def was_dropped_def split: call_phase.split)
  then show ?thesis by (simp add: tally_def number_of_def)
qed

text \<open>
  C15. The counters of the pool. However calls, batches, time-outs, dropped calls and the closing of
  the pool interleave, the counters (modulo two to the 64) are: the calls that were let in, the
  calls that returned a response, those that returned an error from the client or a time-out, and
  as active the calls in progress together with every call that was ever dropped by its caller, which
  stay counted. The number of openings of the breaker stays zero.
\<close>

theorem pool_accounting:
  assumes "reachable (\<lambda>p. p = pool_with_config config) pool_step p"
  shows "pm_total_requests (pp_metrics p) = number_of was_admitted p
    \<and> pm_successful_requests (pp_metrics p) = number_of returned_ok p
    \<and> pm_failed_requests (pp_metrics p) = number_of returned_err p
    \<and> pm_active_requests (pp_metrics p) = number_of in_progress p + number_of was_dropped p
    \<and> pm_circuit_breaker_opens (pp_metrics p) = 0"
proof -
  have "counters_ok p" using pool.reachable_inv [OF assms] by simp
  moreover have "tally admitted p = number_of was_admitted p"
    by (rule tally_number) (simp add: admitted_def was_admitted_def split: call_phase.split)
  moreover have "tally succeeded p = number_of returned_ok p"
    by (rule tally_number) (simp add: succeeded_def returned_ok_def split: call_phase.split sum.split)
  moreover have "tally failed p = number_of returned_err p"
    by (rule tally_number) (simp add: failed_def returned_err_def split: call_phase.split sum.split)
  ultimately show ?thesis by (simp add: counters_ok_def tally_in_flight)
qed

text \<open>A run of one call that its caller drops while it waits for the answer.\<close>

definition dropped_run :: "nat production_pool" where
  "dropped_run = set_phase 0 Dropped ((acquire 0 (enter 0 0 (pool_batch 1 pool_new)))
     \<lparr>pp_permits := 100\<rparr>)"

lemmas run_defs = pool_new_def pool_with_config_def pool_config_default_def metrics_zero_def pool_batch_def
  enter_def acquire_def finish_def pool_close_def count_active_def set_phase_def cb_can_execute_def cb_get_state_def
  cb_new_def cb_with_timeout_def Let_def

lemma running_reachable:
  "reachable (\<lambda>p. p = pool_with_config pool_config_default) pool_step
     (acquire 0 (enter 0 0 (pool_batch 1 (pool_new :: nat production_pool))))"
proof -
  have "reachable (\<lambda>p. p = pool_with_config pool_config_default) pool_step (pool_new :: nat production_pool)"
    by (rule reach_init) (simp add: pool_new_def)
  from reach_step [OF reach_step [OF reach_step [OF this new_batch [of _ 1]] enters [of 0 _ 0]] acquires [of 0]]
  show ?thesis by (simp add: run_defs)
qed

lemma dropped_reachable: "reachable (\<lambda>p. p = pool_with_config pool_config_default) pool_step dropped_run"
  using reach_step [OF running_reachable dropped_running [of 0 _ 0]] by (simp add: dropped_run_def run_defs)

lemma pool_accounting_witness: "pm_active_requests (pp_metrics dropped_run) = 1"
  using pool_accounting [OF dropped_reachable]
  by (simp add: number_of_def in_progress_def was_dropped_def) (simp add: dropped_run_def run_defs in_progress_def was_dropped_def)

fun running_of :: "'r call_phase \<Rightarrow> nat list" where
  "running_of (Running c) = [c]"
| "running_of _ = []"

definition running :: "'r production_pool \<Rightarrow> nat list" where
  "running p = concat (map running_of (pp_calls p))"

lemma held_running:
  fixes p :: "'r production_pool"
  shows "tally held p = mset (running p)"
proof -
  have "held = (\<lambda>ph :: 'r call_phase. mset (running_of ph))"
    by (rule ext, case_tac ph) (simp_all add: held_def)
  moreover have "sum_list (map (\<lambda>ph. mset (running_of ph)) phs) = mset (concat (map running_of phs))" for phs :: "'r call_phase list"
    by (induction phs) simp_all
  ultimately show ?thesis by (simp add: tally_def running_def)
qed

text \<open>
  C13. Clients are not shared. In every reachable state of a pool the running calls and the free permits
  make up the configured limit, and all clients, those of running calls and the idle ones, are
  different: no two calls ever use one client at the same time. Running calls and idle clients together
  are never more than the limit.
\<close>

theorem pool_exclusive_clients:
  assumes "reachable (\<lambda>p. p = pool_with_config config) pool_step p"
  shows "pp_permits p + length (running p) = pc_max_concurrent config
    \<and> distinct (pp_clients p @ running p)
    \<and> length (pp_clients p @ running p) \<le> pc_max_concurrent config"
proof -
  have ok: "clients_ok p" and max: "pp_max p = pc_max_concurrent config"
    using pool.reachable_inv [OF assms] by simp_all
  have "count (mset (pp_clients p @ running p)) c \<le> 1" for c
    using order_trans [OF clients_okD(3) [OF ok, of c], of 1] by (simp add: held_running)
  then have "distinct (pp_clients p @ running p)"
    by (metis count_mset distinct_count_atmost_1 One_nat_def count_mset_0_iff le_less less_one)
  then show ?thesis
    using clients_okD(1,2) [OF ok] max by (simp add: held_running)
qed

lemma pool_exclusive_clients_witness:
  "pp_permits (acquire 0 (enter 0 0 (pool_batch 1 (pool_new :: nat production_pool)))) = 99"
  using pool_exclusive_clients [OF running_reachable]
  by (simp add: running_def) (simp add: run_defs)

section \<open>Closing\<close>

definition running_calls :: "'r production_pool \<Rightarrow> (nat \<times> nat) set" where
  "running_calls p = {(i, c). i < length (pp_calls p) \<and> pp_calls p ! i = Running c}"

definition draining :: "'r production_pool \<Rightarrow> 'r production_pool \<Rightarrow> bool" where
  "draining p0 p \<longleftrightarrow> pp_shutdown p \<and> pp_closed p \<and> running_calls p \<subseteq> running_calls p0
     \<and> mset (pp_clients p) + tally held p \<subseteq># tally held p0
     \<and> pm_total_requests (pp_metrics p) = pm_total_requests (pp_metrics p0)"

lemma running_calls_set_phase:
  "running_of ph = [] \<Longrightarrow> running_calls (set_phase i ph p) \<subseteq> running_calls p"
proof -
  assume ph: "running_of ph = []"
  have "(pp_calls p)[i := ph] ! j = Running c \<Longrightarrow> j < length (pp_calls p) \<Longrightarrow> pp_calls p ! j = Running c" for j c
    using ph by (cases "j = i") auto
  then show ?thesis by (auto simp: running_calls_def set_phase_def)
qed

lemma draining_enter:
  assumes "i < length (pp_calls p)" and "pp_calls p ! i = Entering" and d: "draining p0 p"
  shows "draining p0 (enter now i p)"
proof -
  have "enter now i p = set_phase i (Rejected (Server ''pool is shutting down'')) p"
    using d by (simp add: enter_def draining_def)
  moreover have "tally held (set_phase i (Rejected (Server ''pool is shutting down'')) p) = tally held p"
    using assms(1,2) held_set_phase [of i p] by (simp add: held_def)
  ultimately show ?thesis
    using d running_calls_set_phase [of "Rejected (Server ''pool is shutting down'')" i p]
    by (auto simp: draining_def) (simp add: set_phase_def)
qed

lemma draining_refused:
  assumes "i < length (pp_calls p)" and "pp_calls p ! i = Waiting" and d: "draining p0 p"
  shows "draining p0 (refused i p)"
proof -
  define q where "q = count_active (\<lambda>n. n - 1) p"
  have "tally held (set_phase i (Refused (ResourceExhausted ''pool exhausted'')) q) = tally held p"
    using assms(1,2) held_set_phase [of i q] tally_cong [of q p held] by (simp add: q_def held_def)
  moreover have "running_calls q = running_calls p" by (simp add: q_def running_calls_def)
  ultimately show ?thesis
    using d running_calls_set_phase [of "Refused (ResourceExhausted ''pool exhausted'')" i q]
    by (auto simp: draining_def refused_def q_def) (simp_all add: set_phase_def count_active_def)
qed

text \<open>A running call that ends, answered or dropped: its client goes back to the stack, or is gone.\<close>

lemma draining_release:
  assumes "i < length (pp_calls p)" and "pp_calls p ! i = Running c" and d: "draining p0 p"
    and q: "pp_calls q = pp_calls p" "pp_clients q = pp_clients p \<or> pp_clients q = c # pp_clients p"
      "pp_shutdown q = pp_shutdown p" "pp_closed q = pp_closed p"
      "pm_total_requests (pp_metrics q) = pm_total_requests (pp_metrics p)"
    and ph: "held ph = {#}" "running_of ph = []"
  shows "draining p0 (set_phase i ph q)"
proof -
  have "tally held p = add_mset c (tally held (set_phase i ph q))"
    using held_release [of i q c ph] tally_cong [of q p held] assms(1,2) q(1) ph(1) by simp
  then have "mset (pp_clients q) + tally held (set_phase i ph q) \<subseteq># tally held p0"
    using d q(2) by (auto simp: draining_def intro: subset_mset.order_trans [rotated])
  moreover have "running_calls (set_phase i ph q) \<subseteq> running_calls p"
    using running_calls_set_phase [OF ph(2), of i q] q(1) by (simp add: running_calls_def)
  ultimately show ?thesis
    using d q(3-5) by (auto simp: draining_def) (simp_all add: set_phase_def)
qed

lemma draining_step:
  assumes "pool_step p p'" and d: "draining p0 p"
  shows "draining p0 p'"
  using assms(1)
proof cases
  case new_call
  then show ?thesis
    using d by (auto simp: draining_def running_calls_def tally_def held_def nth_append less_Suc_eq split: if_splits)
next
  case (new_batch n)
  have "tally held (pool_batch n p) = tally held p" by (simp add: tally_batch held_def)
  moreover have "running_calls (pool_batch n p) = running_calls p"
    by (auto simp: running_calls_def pool_batch_def nth_append split: if_splits)
  ultimately show ?thesis using new_batch d by (simp add: draining_def pool_batch_def)
next
  case (acquires i)
  then show ?thesis using d by (simp add: draining_def)
next
  case (finishes i c now result)
  obtain q r where q: "finish now i c result p = set_phase i (Returned r) q" "pp_calls q = pp_calls p"
    "pp_clients q = c # pp_clients p" "pp_shutdown q = pp_shutdown p" "pp_closed q = pp_closed p"
    "pm_total_requests (pp_metrics q) = pm_total_requests (pp_metrics p)"
    by (cases result; cases "the result") (auto simp: finish_def Let_def count_active_def)
  then show ?thesis
    using draining_release [OF finishes(2,3) d, of q "Returned r"] finishes(1) by (simp add: held_def)
next
  case (dropped_waiting i)
  then have "tally held p' = tally held p" by (simp add: held_set_phase held_def)
  with dropped_waiting d running_calls_set_phase [of Dropped i p] show ?thesis
    by (auto simp: draining_def) (simp add: set_phase_def)
next
  case (dropped_running i c)
  then show ?thesis
    using draining_release [OF dropped_running(2,3) d, of "p\<lparr>pp_permits := pp_permits p + 1\<rparr>" Dropped] by (simp add: held_def)
next
  case closes
  then show ?thesis
    using d tally_cong [of "pool_close p" p held]
    by (auto simp: draining_def pool_close_def running_calls_def intro: subset_mset.order_trans [rotated])
qed (use d draining_enter draining_refused in auto)

lemma draining_close: "draining p0 (pool_close p0)"
  using tally_cong [of "pool_close p0" p0 held] by (simp add: draining_def pool_close_def running_calls_def)

interpretation closed_pool: invariant_system "\<lambda>p. p = pool_close p0" pool_step "draining p0"
  by unfold_locales (auto intro: draining_close draining_step)

text \<open>
  C37. Closing a pool. After \<^verbatim>\<open>close\<close>, whatever happens, the pool reports that it is shutting down,
  no call that was not already running gets a client, and the total stays as it was. Closing does not
  wait: the calls that were running go on, and their clients, and no others, can come back to the
  stack, where nothing closes them.
\<close>

theorem pool_close_drains:
  assumes "pool_step\<^sup>*\<^sup>* (pool_close p0) p"
  shows "is_shutting_down p \<and> running_calls p \<subseteq> running_calls p0
    \<and> mset (pp_clients p @ running p) \<subseteq># mset (running p0)
    \<and> pm_total_requests (pp_metrics p) = pm_total_requests (pp_metrics p0)"
  using closed_pool.steps_inv [OF assms draining_close]
  by (simp add: draining_def is_shutting_down_def held_running)

lemma pool_close_drains_witness:
  fixes p0 :: "nat production_pool"
  defines "p0 \<equiv> acquire 0 (enter 0 0 (pool_batch 1 pool_new))"
  shows "is_shutting_down (finish 0 0 0 (Some (Ok 7)) (pool_close p0))
    \<and> pp_clients (finish 0 0 0 (Some (Ok 7)) (pool_close p0)) = [0] \<and> running p0 = [0]"
proof -
  have "pool_step (pool_close p0) (finish 0 0 0 (Some (Ok 7)) (pool_close p0))"
    by (rule finishes) (simp_all add: p0_def run_defs)
  from pool_close_drains [OF r_into_rtranclp, of p0, OF this]
  show ?thesis by (simp add: p0_def) (simp add: run_defs running_def cb_record_success_def)
qed

section \<open>Answers that come too late\<close>

text \<open>
  A call on a connected client, dropped by its caller, the timer of the pool for example, while it
  waits for the answer: the request has been sent, and the stream stays in the client.
\<close>

definition uds_call_dropped :: "json_codec \<Rightarrow> 's peer \<Rightarrow> service_request \<Rightarrow> 's uds_client \<Rightarrow> 's uds_client" where
  "uds_call_dropped cd peer request cl =
     snd (with_stream (uds_write peer MSG_REQUEST (jc_to_vec cd (rq_to_json request))) cl)"

lemma do_call_pending:
  assumes "us_peer st = Some s" and "us_unread st = (MSG_RESPONSE, b) # ms"
    and "fits (jc_to_vec cd (rq_to_json r))"
  shows "fst (do_call_internal cd peer False r st) = from_slice cd rs_of_json ''ServiceResponse'' b"
proof -
  obtain replies s' where p: "peer MSG_REQUEST (jc_to_vec cd (rq_to_json r)) s = (replies, s')" by force
  have "uds_write peer MSG_REQUEST (jc_to_vec cd (rq_to_json r)) st
      = (Ok (), \<lparr>us_peer = s', us_unread = us_unread st @ replies\<rparr>)"
    using assms(1,3) p by (simp add: uds_write_def write_message_open open_sink_def)
  then show ?thesis
    using assms(2) by (simp add: do_call_internal_def action_simps uds_read_def lift_result_def)
qed

lemma connecting_result:
  "uc_stream cl = Some st \<Longrightarrow> fst (connecting cd peer dial late0 work cl) = fst (work st)"
  by (simp add: connecting_def with_stream_def action_simps split: prod.split sum.split)

text \<open>
  C14. Answers reach the wrong caller. When the timer of the pool ends a call, the client goes back on
  the stack, and the next call to get a permit runs on it. If the server answers the abandoned
  request, that answer is what the next call on the client returns as its own, whatever it asked for:
  neither the pool nor the client compares request identifiers.
\<close>

theorem late_answer_reaches_next_call:
  assumes "i < length (pp_calls p)" and "j < length (pp_calls p)" and "j \<noteq> i"
    and "codec_law (en_codec en)" and "uc_stream cl = Some (idle_stream cid c)"
    and "acceptable en r1" and "fits (snd (request_message en r1))"
    and "sh_handle h r1 (cn_handler c) = (x1, s)" and "deliverable en x1"
    and "fits (snd (request_message en r2))"
  shows "pp_calls (acquire j (finish now i client None p)) ! j = Running client
    \<and> fst (uds_call (en_codec en) (server_peer en h) dial late0 False r2
            (uds_call_dropped (en_codec en) (server_peer en h) r1 cl)) = Ok x1"
proof -
  have gets: "pp_calls (acquire j (finish now i client None p)) ! j = Running client"
    using assms(1-3) by (simp add: acquire_def finish_def Let_def set_phase_def count_active_def)
  obtain c' where "server_peer en h MSG_REQUEST (snd (request_message en r1)) (Some cid, c)
      = ([response_message en x1], Some (Some cid, c'))"
    using server_peer_request [OF assms(4,6,9,8), of cid] by blast
  moreover have decoded: "from_slice (en_codec en) rs_of_json ''ServiceResponse'' (snd (response_message en x1)) = Ok x1"
    using assms(4,9) unfolding response_message_def snd_conv deliverable_def
    by (intro service_response.from_slice_to_vec) auto
  moreover define cl1 where "cl1 = uds_call_dropped (en_codec en) (server_peer en h) r1 cl"
  ultimately have "uc_stream cl1 = Some \<lparr>us_peer = Some (Some cid, c'), us_unread = [response_message en x1]\<rparr>"
    using assms(5,7) by (simp add: uds_call_dropped_def with_stream_def idle_stream_def uds_write_def
        write_message_open open_sink_def request_message_def)
  then have "fst (uds_call (en_codec en) (server_peer en h) dial late0 False r2 cl1) = Ok x1"
    using assms(10) decoded
    by (simp add: uds_call_def connecting_result do_call_pending response_message_def request_message_def)
  with gets show ?thesis by (simp add: cl1_def)
qed

theorem late_answer_reaches_next_call_witness:
  "\<exists>cl :: (string option \<times> nat connection) uds_client.
     fst (uds_call tagged (server_peer sample_surroundings sample_handler) (Err Timeout) False False (sample_request ''2'')
       (uds_call_dropped tagged (server_peer sample_surroundings sample_handler) (sample_request ''1'') cl))
     = Ok (response_success (sample_request ''1'') (JStr ''hi''))"
proof -
  let ?p = "set_phase 0 (Running 7) (pool_batch 2 pool_new) :: nat production_pool"
  let ?cl = "uds_client_new\<lparr>uc_connected := True, uc_stream := Some (idle_stream ''c'' sample_connection)\<rparr>"
  let ?x = "response_success (sample_request ''1'') (JStr ''hi'')"
  have cd: "en_codec sample_surroundings = tagged" by (simp add: sample_surroundings_def)
  have law: "codec_law (en_codec sample_surroundings)" unfolding cd by (rule tagged_law)
  have calls: "0 < length (pp_calls ?p)" "1 < length (pp_calls ?p)" "(1 :: nat) \<noteq> 0"
    by (simp_all add: set_phase_def pool_batch_def)
  have st: "uc_stream ?cl = Some (idle_stream ''c'' sample_connection)" by simp
  have acc: "acceptable sample_surroundings (sample_request ''1'')"
    "fits (snd (request_message sample_surroundings (sample_request ''1'')))"
    "fits (snd (request_message sample_surroundings (sample_request ''2'')))"
    by (simp_all add: sample_acceptable sample_fits utf8_def)
  have del: "deliverable sample_surroundings ?x"
    by (simp add: deliverable_def sample_defs readable_def rs_to_json_def some_or_null_def utf8_def fits_short)
  have run: "sh_handle sample_handler (sample_request ''1'') (cn_handler sample_connection) = (?x, 0)"
    by (simp add: sample_defs)
  from late_answer_reaches_next_call [OF calls law st acc(1,2) run del acc(3)]
  show ?thesis unfolding cd by blast
qed

end
