(* ===== verification/Client_Pool.thy ===== *)
theory Client_Pool
  imports Client Conformance
begin

text \<open>
  \<^verbatim>\<open>UdsClientPool\<close> and \<^verbatim>\<open>TopicBasedPool\<close> of \<^verbatim>\<open>src/src/pool.rs\<close>. Calls run at the same
  time; each is a phase, and each step is what one call does between two points at which others can
  come in between, the reads and writes of the atomic counter included. A call owns its client while it
  runs. Stacks are lists with the top first.
\<close>

section \<open>The pool of clients\<close>

text \<open>The boolean says that the call is one of \<^verbatim>\<open>call_batch\<close>, which does not poll.\<close>

datatype 's cp_phase =
    Queued bool
  | Holding bool \<comment> \<open>has a permit\<close>
  | Missed bool \<comment> \<open>found no idle client\<close>
  | Overdrawn bool \<comment> \<open>counted a client over the limit\<close>
  | Polling nat \<comment> \<open>retries left\<close>
  | Calling "'s uds_client"
  | Answered "service_response result"
  | Cancelled

record 's client_pool =
  up_max_concurrent :: nat
  up_permits :: nat
  up_pool :: "'s uds_client list"
  up_max_pool_size :: u64
  up_created_clients :: u64
  up_calls :: "'s cp_phase list"

definition with_max_pool_size :: "nat \<Rightarrow> u64 \<Rightarrow> 's client_pool" where
  "with_max_pool_size max_concurrent max_pool_size =
     \<lparr>up_max_concurrent = max_concurrent, up_permits = max_concurrent, up_pool = [],
      up_max_pool_size = max_pool_size, up_created_clients = 0, up_calls = []\<rparr>"

definition client_pool_new :: "u64 \<Rightarrow> 's client_pool" where
  "client_pool_new max_concurrent = with_max_pool_size (unat max_concurrent) max_concurrent"

definition cp_phase_to :: "nat \<Rightarrow> 's cp_phase \<Rightarrow> 's client_pool \<Rightarrow> 's client_pool" where
  "cp_phase_to i ph p = p\<lparr>up_calls := (up_calls p)[i := ph]\<rparr>"

text \<open>\<^verbatim>\<open>pool.pop()\<close>\<close>

definition pop_client :: "nat \<Rightarrow> 's cp_phase \<Rightarrow> 's client_pool \<Rightarrow> 's client_pool" where
  "pop_client i missed p =
     (case up_pool p of
        c # cs \<Rightarrow> cp_phase_to i (Calling c) (p\<lparr>up_pool := cs\<rparr>)
      | [] \<Rightarrow> cp_phase_to i missed p)"

text \<open>\<^verbatim>\<open>created_clients.fetch_add\<close> and the comparison, and \<^verbatim>\<open>fetch_sub\<close>.\<close>

definition count_client :: "nat \<Rightarrow> bool \<Rightarrow> 's client_pool \<Rightarrow> 's client_pool" where
  "count_client i batch p =
     (let created = up_created_clients p; p = p\<lparr>up_created_clients := created + 1\<rparr> in
      if created < up_max_pool_size p then cp_phase_to i (Calling uds_client_new) p
      else cp_phase_to i (Overdrawn batch) p)"

definition uncount_client :: "nat \<Rightarrow> bool \<Rightarrow> 's client_pool \<Rightarrow> 's client_pool" where
  "uncount_client i batch p =
     cp_phase_to i (if batch then Calling uds_client_new else Polling 3)
       (p\<lparr>up_created_clients := up_created_clients p - 1\<rparr>)"

text \<open>The loop over the retries; the call sleeps between them.\<close>

definition poll_client :: "nat \<Rightarrow> nat \<Rightarrow> 's client_pool \<Rightarrow> 's client_pool" where
  "poll_client i retries p =
     (if retries > 0 then pop_client i (Polling (retries - 1)) p
      else cp_phase_to i (Calling uds_client_new) p)"

definition should_pool :: "'a result \<Rightarrow> bool" where
  "should_pool result = (is_ok result \<or>
     (case result of Inl ConnectionClosed \<Rightarrow> True | Inl (ConnectionFailed _) \<Rightarrow> True | _ \<Rightarrow> False))"

definition return_client :: "'s uds_client \<Rightarrow> 'a result \<Rightarrow> 's client_pool \<Rightarrow> 's client_pool" where
  "return_client client result p =
     (if should_pool result \<and> length (up_pool p) < unat (up_max_pool_size p)
      then p\<lparr>up_pool := client # up_pool p\<rparr> else p)"

definition finish_call :: "nat \<Rightarrow> service_response result \<Rightarrow> 's uds_client \<Rightarrow> 's client_pool \<Rightarrow> 's client_pool" where
  "finish_call i result client p =
     (let p = return_client client result p in
      cp_phase_to i (Answered result) (p\<lparr>up_permits := up_permits p + 1\<rparr>))"

definition client_pool_close :: "'s client_pool \<Rightarrow> 's client_pool" where
  "client_pool_close p = p\<lparr>up_pool := [], up_created_clients := 0\<rparr>"

definition pooled_count :: "'s client_pool \<Rightarrow> u64" where
  "pooled_count p = up_created_clients p"

text \<open>
  All calls together. The codec and the server at the other end are fixed; requests, connection
  attempts (which give a stream with nothing on it yet) and timers are arbitrary. A call can be
  dropped wherever it waits; its permit is then free again and its client gone.
\<close>

definition new_stream :: "'s uds_stream result \<Rightarrow> bool" where
  "new_stream dial = (case dial of Inl _ \<Rightarrow> True | Inr st \<Rightarrow> us_unread st = [])"

inductive cp_step :: "json_codec \<Rightarrow> 's peer \<Rightarrow> 's client_pool \<Rightarrow> 's client_pool \<Rightarrow> bool" for cd peer where
  cp_arrive: "cp_step cd peer p (p\<lparr>up_calls := up_calls p @ replicate n (Queued batch)\<rparr>)"
| cp_permit: "i < length (up_calls p) \<Longrightarrow> up_calls p ! i = Queued batch \<Longrightarrow> 0 < up_permits p
    \<Longrightarrow> cp_step cd peer p (cp_phase_to i (Holding batch) (p\<lparr>up_permits := up_permits p - 1\<rparr>))"
| cp_pop: "i < length (up_calls p) \<Longrightarrow> up_calls p ! i = Holding batch
    \<Longrightarrow> cp_step cd peer p (pop_client i (Missed batch) p)"
| cp_count: "i < length (up_calls p) \<Longrightarrow> up_calls p ! i = Missed batch
    \<Longrightarrow> cp_step cd peer p (count_client i batch p)"
| cp_uncount: "i < length (up_calls p) \<Longrightarrow> up_calls p ! i = Overdrawn batch
    \<Longrightarrow> cp_step cd peer p (uncount_client i batch p)"
| cp_poll: "i < length (up_calls p) \<Longrightarrow> up_calls p ! i = Polling retries
    \<Longrightarrow> cp_step cd peer p (poll_client i retries p)"
| cp_finish: "i < length (up_calls p) \<Longrightarrow> up_calls p ! i = Calling c \<Longrightarrow> new_stream dial
    \<Longrightarrow> uds_call cd peer dial late0 late request c = (result, c')
    \<Longrightarrow> cp_step cd peer p (finish_call i result c' p)"
| cp_cancel_queued: "i < length (up_calls p) \<Longrightarrow> up_calls p ! i = Queued batch
    \<Longrightarrow> cp_step cd peer p (cp_phase_to i Cancelled p)"
| cp_cancel: "i < length (up_calls p) \<Longrightarrow>
    (case up_calls p ! i of Holding _ \<Rightarrow> True | Polling _ \<Rightarrow> True | Calling _ \<Rightarrow> True | _ \<Rightarrow> False)
    \<Longrightarrow> cp_step cd peer p (cp_phase_to i Cancelled (p\<lparr>up_permits := up_permits p + 1\<rparr>))"
| cp_close: "cp_step cd peer p (client_pool_close p)"

inductive_cases cp_stepE: "cp_step cd peer p p'"

section \<open>Clients with nothing outstanding\<close>

definition quiet :: "'s uds_client \<Rightarrow> bool" where
  "quiet cl = (case uc_stream cl of None \<Rightarrow> True | Some st \<Rightarrow> us_unread st = [])"

lemma uds_write_unread:
  "uds_write peer t p st = (Inr u, st1) \<Longrightarrow> \<exists>s. us_unread st1 = us_unread st @ fst (peer t p s)"
  by (auto simp: uds_write_def split: prod.splits sum.splits option.splits) (metis fst_conv)

text \<open>
  The interface to a server that never answers a handshake or a request with more than one message.
  On such a server a call that returns has read all there was to read.
\<close>

locale single_reply =
  fixes peer :: "'s peer"
  assumes one_ack: "length (fst (peer MSG_HANDSHAKE p s)) \<le> 1"
    and one_response: "length (fst (peer MSG_REQUEST p s)) \<le> 1"
begin

lemma exchange_quiet:
  assumes "us_unread st = []" and t: "t = MSG_HANDSHAKE \<or> t = MSG_REQUEST"
    and "and_then (uds_write peer t p) (\<lambda>_. uds_read late) st = (Inr m, st')"
  shows "us_unread st' = []"
  using assms(3)
proof (cases rule: and_then_cases)
  case (continue u st1)
  obtain s where "us_unread st1 = fst (peer t p s)"
    using uds_write_unread [OF continue(1)] assms(1) by auto
  moreover have "length (fst (peer t p s)) \<le> 1"
    using t one_ack one_response by auto
  ultimately show ?thesis
    using continue(2) by (auto simp: uds_read_def split: if_splits list.splits)
qed simp

lemma connect_quiet:
  assumes "uds_connect cd peer dial late cl = (r, cl')" and "new_stream dial" and "quiet cl"
  shows "quiet cl'"
proof (cases "is_ok r")
  case False
  then show ?thesis using assms uds_connect_cases [OF assms(1)] by auto
next
  case True
  then obtain st m st' where "dial = Inr st" "uc_stream cl' = Some st'"
    "and_then (uds_write peer MSG_HANDSHAKE (jc_to_vec cd (hq_to_json uds_hello))) (\<lambda>_. uds_read late) st = (Inr m, st')"
    using assms(1) by (auto simp: uds_connect_def Let_def split: sum.splits prod.splits if_splits)
  with exchange_quiet [of st MSG_HANDSHAKE] assms(2) show ?thesis
    by (auto simp: quiet_def new_stream_def)
qed

lemma call_quiet:
  assumes "uds_call cd peer dial late0 late request cl = (r, cl')" and "new_stream dial" and "quiet cl"
  shows "quiet cl'"
proof -
  obtain r0 cl0 where first: "(if uc_stream cl = None then uds_connect cd peer dial late0 cl else (Ok (), cl)) = (r0, cl0)"
    by force
  then have quiet: "quiet cl0"
    using connect_quiet [of cd dial late0 cl r0 cl0] assms(2,3) by (auto split: if_splits)
  have work: "us_unread st' = []"
    if "do_call_internal cd peer late request st = (Inr x, st')" "us_unread st = []" for st x st'
  proof -
    have "and_then (and_then (uds_write peer MSG_REQUEST (jc_to_vec cd (rq_to_json request))) (\<lambda>_. uds_read late))
          (\<lambda>(msg_type, payload). if msg_type \<noteq> MSG_RESPONSE then fail (Protocol ''invalid response type'')
             else lift_result (from_slice cd rs_of_json ''ServiceResponse'' payload)) st = (Inr x, st')"
      using that(1) by (simp add: do_call_internal_def and_then_assoc)
    then show ?thesis
    proof (cases rule: and_then_cases)
      case (continue m st1)
      then have "st' = st1" by (auto simp: lift_result_def split: prod.splits if_splits)
      then show ?thesis using exchange_quiet [OF that(2) _ continue(1)] by blast
    qed simp
  qed
  show ?thesis
    using assms(1) first quiet work
    by (auto simp: uds_call_def connecting_def and_then_def with_stream_def quiet_def set_disconnected_def
        split: prod.splits sum.splits option.splits if_splits)
qed

end

section \<open>The server answers once\<close>

lemma emitted_length:
  assumes "emits G m" and "sk_room (cn_sink c) = None" and "sk_out (cn_sink c) = []" and "m c = (r, c')"
    and "\<And>ok ts. G ok ts \<Longrightarrow> length ts \<le> n"
  shows "length (fst (read_all (sk_out (cn_sink c')))) \<le> n"
proof -
  obtain ms where "all_fit ms" "sk_out (cn_sink c') = framed ms" "G (is_ok r) (map fst ms)"
    using emitsE [OF assms(1,2,4)] assms(3) by (metis append_Nil)
  then show ?thesis using assms(5) [of "is_ok r" "map fst ms"] by (simp add: read_all_framed)
qed

lemma shake_length:
  "sk_room (cn_sink c) = None \<Longrightarrow> sk_out (cn_sink c) = [] \<Longrightarrow> shake en h t p c = (r, c')
    \<Longrightarrow> length (fst (read_all (sk_out (cn_sink c')))) \<le> 1"
  by (rule emitted_length [OF emits_shake]) (auto split: if_splits)

lemma dispatch_length:
  "t = MSG_HANDSHAKE \<or> t = MSG_REQUEST \<Longrightarrow> sk_room (cn_sink c) = None \<Longrightarrow> sk_out (cn_sink c) = []
    \<Longrightarrow> dispatch en h client_id t p c = (r, c') \<Longrightarrow> length (fst (read_all (sk_out (cn_sink c')))) \<le> 1"
  by (rule emitted_length [OF emits_dispatch]) (auto simp: answer_def msg_defs split: if_splits)

interpretation server_replies: single_reply "server_peer en (h :: 'h service_handler)"
proof
  fix p :: bytes and s :: "string option \<times> 'h connection"
  obtain phase c where s: "s = (phase, c)" by force
  define c0 where "c0 = c\<lparr>cn_sink := open_sink\<rparr>"
  have c0: "sk_room (cn_sink c0) = None" "sk_out (cn_sink c0) = []" by (simp_all add: c0_def open_sink_def)
  have "length (fst (server_peer en h t p s)) \<le> 1" if "t = MSG_HANDSHAKE \<or> t = MSG_REQUEST" for t
    using shake_length [OF c0] dispatch_length [OF that c0]
    by (auto simp: s server_peer_def Let_def c0_def [symmetric] split: option.split prod.split)
  then show "length (fst (server_peer en h MSG_HANDSHAKE p s)) \<le> 1" "length (fst (server_peer en h MSG_REQUEST p s)) \<le> 1"
    by simp_all
qed

section \<open>Limits and clean clients\<close>

definition has_permit :: "'s cp_phase \<Rightarrow> bool" where
  "has_permit ph = (case ph of Queued _ \<Rightarrow> False | Answered _ \<Rightarrow> False | Cancelled \<Rightarrow> False | _ \<Rightarrow> True)"

definition clean_phase :: "'s cp_phase \<Rightarrow> bool" where
  "clean_phase ph = (case ph of Calling c \<Rightarrow> quiet c | _ \<Rightarrow> True)"

definition cp_ok :: "nat \<Rightarrow> u64 \<Rightarrow> 's client_pool \<Rightarrow> bool" where
  "cp_ok n m p \<longleftrightarrow> up_max_pool_size p = m
     \<and> up_permits p + length (filter has_permit (up_calls p)) = n
     \<and> length (up_pool p) \<le> unat m
     \<and> list_all quiet (up_pool p) \<and> list_all clean_phase (up_calls p)"

lemma cp_okD:
  assumes "cp_ok n m p" and "i < length (up_calls p)"
  shows "clean_phase (up_calls p ! i)"
  using assms by (auto simp: cp_ok_def list_all_length)

text \<open>A step that takes call \<open>i\<close> to another phase and moves at most its own permit.\<close>

lemma cp_ok_phase:
  assumes ok: "cp_ok n m p" and i: "i < length (up_calls p)"
    and q: "up_calls q = (up_calls p)[i := ph]" "up_max_pool_size q = up_max_pool_size p"
    and permits: "up_permits q + (if has_permit ph then 1 else 0) = up_permits p + (if has_permit (up_calls p ! i) then 1 else 0)"
    and pool: "list_all quiet (up_pool q)" "length (up_pool q) \<le> unat m"
    and ph: "clean_phase ph"
  shows "cp_ok n m q"
proof -
  have "up_permits q + length (filter has_permit (up_calls q)) = n"
    using length_filter_update [OF i, of has_permit ph] permits ok q(1) by (simp add: cp_ok_def split: if_splits)
  then show ?thesis using ok q pool ph by (simp add: cp_ok_def list_all_update)
qed

lemma quiet_new: "quiet uds_client_new"
  by (simp add: quiet_def uds_client_new_def)

lemma pop_client_ok:
  assumes "cp_ok n m p" and "i < length (up_calls p)" and "has_permit (up_calls p ! i)"
    and "has_permit missed" and "clean_phase missed"
  shows "cp_ok n m (pop_client i missed p)"
proof (rule cp_ok_phase [OF assms(1,2), where ph = "case up_pool p of c # _ \<Rightarrow> Calling c | [] \<Rightarrow> missed"])
qed (use assms in \<open>auto simp: pop_client_def cp_phase_to_def has_permit_def clean_phase_def cp_ok_def split: list.splits\<close>)

context single_reply begin

lemma cp_step_ok:
  assumes "cp_step cd peer p p'" and ok: "cp_ok n m p"
  shows "cp_ok n m p'"
  using assms(1)
proof cases
  case (cp_arrive k batch)
  moreover have "list_all clean_phase (replicate k (Queued batch))"
    by (simp add: clean_phase_def list_all_iff)
  ultimately show ?thesis using ok by (simp add: cp_ok_def has_permit_def)
next
  case (cp_permit i batch)
  show ?thesis
    by (rule cp_ok_phase [OF ok cp_permit(2), where ph = "Holding batch"])
      (use cp_permit ok in \<open>auto simp: cp_phase_to_def has_permit_def clean_phase_def cp_ok_def\<close>)
next
  case (cp_pop i batch)
  then show ?thesis using pop_client_ok [OF ok] by (simp add: has_permit_def clean_phase_def)
next
  case (cp_count i batch)
  show ?thesis
    by (rule cp_ok_phase [OF ok cp_count(2),
          where ph = "if up_created_clients p < up_max_pool_size p then Calling uds_client_new else Overdrawn batch"])
      (use cp_count ok in \<open>auto simp: cp_phase_to_def count_client_def Let_def has_permit_def clean_phase_def
          cp_ok_def quiet_new\<close>)
next
  case (cp_uncount i batch)
  show ?thesis
    by (rule cp_ok_phase [OF ok cp_uncount(2), where ph = "if batch then Calling uds_client_new else Polling 3"])
      (use cp_uncount ok in \<open>auto simp: cp_phase_to_def uncount_client_def has_permit_def clean_phase_def
          cp_ok_def quiet_new\<close>)
next
  case (cp_poll i retries)
  show ?thesis
  proof (cases "retries > 0")
    case True
    then show ?thesis
      using cp_poll pop_client_ok [OF ok] by (simp add: poll_client_def has_permit_def clean_phase_def)
  next
    case False
    show ?thesis
      by (rule cp_ok_phase [OF ok cp_poll(2), where ph = "Calling uds_client_new"])
        (use cp_poll ok False in \<open>auto simp: cp_phase_to_def poll_client_def has_permit_def clean_phase_def
            cp_ok_def quiet_new\<close>)
  qed
next
  case (cp_finish i c dial late0 late request result c')
  have "quiet c'"
    using call_quiet [OF cp_finish(5,4)] cp_okD [OF ok cp_finish(2)] cp_finish(3) by (simp add: clean_phase_def)
  then show ?thesis
    by (intro cp_ok_phase [OF ok cp_finish(2), where ph = "Answered result"])
      (use cp_finish ok in \<open>auto simp: cp_phase_to_def finish_call_def return_client_def has_permit_def
          clean_phase_def cp_ok_def\<close>)
next
  case (cp_cancel_queued i batch)
  show ?thesis
    by (rule cp_ok_phase [OF ok cp_cancel_queued(2), where ph = Cancelled])
      (use cp_cancel_queued ok in \<open>auto simp: cp_phase_to_def has_permit_def clean_phase_def cp_ok_def\<close>)
next
  case (cp_cancel i)
  show ?thesis
    by (rule cp_ok_phase [OF ok cp_cancel(2), where ph = Cancelled])
      (use cp_cancel ok in \<open>auto simp: cp_phase_to_def has_permit_def clean_phase_def cp_ok_def
          split: cp_phase.splits\<close>)
next
  case cp_close
  then show ?thesis using ok by (simp add: cp_ok_def client_pool_close_def)
qed

end

lemma cp_ok_start: "cp_ok n m (with_max_pool_size n m)"
  by (simp add: cp_ok_def with_max_pool_size_def)

interpretation client_pool: invariant_system "\<lambda>p. p = with_max_pool_size n m" "cp_step cd (server_peer en (h :: 'h service_handler))"
    "cp_ok n m"
  by unfold_locales (auto intro: cp_ok_start server_replies.cp_step_ok)

section \<open>What a call returns\<close>

text \<open>The first call of a client: it shakes hands, then the request is answered.\<close>

definition fresh_stream :: "'s connection \<Rightarrow> (string option \<times> 's connection) uds_stream" where
  "fresh_stream c = \<lparr>us_peer = Some (None, c), us_unread = []\<rparr>"

definition welcomes :: "surroundings \<Rightarrow> 's service_handler \<Rightarrow> 's connection \<Rightarrow> handshake_response \<Rightarrow> 's \<Rightarrow> bool" where
  "welcomes en h c y s \<longleftrightarrow> sh_on_handshake h uds_hello (cn_handler c) = (y, s)
     \<and> fst (al_check (hq_client_id uds_hello) (en_now en) (cn_limiter c))
     \<and> length (jc_to_vec (en_codec en) (hq_to_json uds_hello)) \<le> cf_max_request_size (en_config en)
     \<and> fits (jc_to_vec (en_codec en) (hq_to_json uds_hello)) \<and> readable (hq_to_json uds_hello)
     \<and> hr_success y \<and> readable (hr_to_json y) \<and> fits (jc_to_vec (en_codec en) (hr_to_json y))"

lemma connect_welcome:
  assumes law: "codec_law (en_codec en)" and w: "welcomes en h c y s"
  shows "\<exists>cl' c'. uds_connect (en_codec en) (server_peer en h) (Ok (fresh_stream c)) False cl = (Ok (), cl')
    \<and> uc_stream cl' = Some (idle_stream (hq_client_id uds_hello) c') \<and> cn_handler c' = s"
proof -
  let ?hello = "jc_to_vec (en_codec en) (hq_to_json uds_hello)" and ?ack = "jc_to_vec (en_codec en) (hr_to_json y)"
  let ?c = "c\<lparr>cn_sink := open_sink\<rparr>"
  have hello: "from_slice (en_codec en) hq_of_json ''HandshakeRequest'' ?hello = Ok uds_hello"
    using law w by (intro handshake_request.from_slice_to_vec) (simp_all add: welcomes_def)
  have ack: "from_slice (en_codec en) hr_of_json ''HandshakeResponse'' ?ack = Ok y"
    using law w by (intro handshake_response.from_slice_to_vec) (simp_all add: welcomes_def)
  obtain l where l: "al_check (hq_client_id uds_hello) (en_now en) (cn_limiter c) = (True, l)"
    using w by (cases "al_check (hq_client_id uds_hello) (en_now en) (cn_limiter c)") (simp add: welcomes_def)
  obtain c' where c': "shake en h MSG_HANDSHAKE ?hello ?c = (Ok (hq_client_id uds_hello), c')"
    "sk_out (cn_sink c') = frame_bytes 1 MSG_HANDSHAKE_ACK ?ack" "cn_handler c' = s"
    using w hello l
    by (auto simp: shake_def Let_def welcomes_def server_simps rate_check_def run_on_handshake_def open_sink_def)
  have "read_all (sk_out (cn_sink c')) = ([(MSG_HANDSHAKE_ACK, ?ack)], ConnectionFailed early_eof)"
    using read_all_frame [of ?ack 1 MSG_HANDSHAKE_ACK "[]"] w c'(2) by (simp add: welcomes_def)
  then have "server_peer en h MSG_HANDSHAKE ?hello (None, c)
      = ([(MSG_HANDSHAKE_ACK, ?ack)], Some (Some (hq_client_id uds_hello), c'))"
    using c'(1) by (simp add: server_peer_def Let_def)
  then show ?thesis
    using w ack c'(3)
    by (simp add: uds_connect_def fresh_stream_def uds_write_def uds_read_def action_simps welcomes_def
        write_message_open open_sink_def idle_stream_def Let_def set_connected_def)
qed

lemma first_call_answered:
  assumes law: "codec_law (en_codec en)" and w: "welcomes en h c y s0" and "uc_stream cl = None"
    and "acceptable en r" and "fits (snd (request_message en r))"
    and "sh_handle h r s0 = (x, s)" and "deliverable en x"
  shows "\<exists>cl' c'. uds_call (en_codec en) (server_peer en h) (Ok (fresh_stream c)) False False r cl = (Ok x, cl')
    \<and> uc_stream cl' = Some (idle_stream (hq_client_id uds_hello) c') \<and> cn_handler c' = s"
proof -
  obtain cl1 c1 where c1: "uds_connect (en_codec en) (server_peer en h) (Ok (fresh_stream c)) False cl = (Ok (), cl1)"
    "uc_stream cl1 = Some (idle_stream (hq_client_id uds_hello) c1)" "cn_handler c1 = s0"
    using connect_welcome [OF law w] by blast
  obtain c2 where "do_call_internal (en_codec en) (server_peer en h) False r (idle_stream (hq_client_id uds_hello) c1)
      = (Ok x, idle_stream (hq_client_id uds_hello) c2)" "cn_handler c2 = s"
    using do_call_answered [OF law assms(4,7) _ assms(5), of h c1 s] assms(6) c1(3) by auto
  with c1 assms(3) show ?thesis
    by (auto simp: uds_call_def connecting_def with_stream_def action_simps)
qed

text \<open>
  C12. Pooled clients answer for themselves. In every reachable state of a \<open>UdsClientPool\<close> in front of
  a server, however calls and batches interleave, fail, time out or are dropped, the running calls and
  free permits make up the limit, the idle clients are no more than the maximal pool size, and a
  running call whose client is connected gets the service handler's response to its own request: no
  late answer of another call can be waiting on its stream.
\<close>

theorem client_pool_answers:
  assumes "reachable (\<lambda>p. p = with_max_pool_size n m) (cp_step (en_codec en) (server_peer en h)) p"
    and "i < length (up_calls p)" and "up_calls p ! i = Calling cl"
    and "uc_stream cl = Some st" and "us_peer st = Some (Some cid, c)"
    and "codec_law (en_codec en)" and "acceptable en r" and "fits (snd (request_message en r))"
    and "sh_handle h r (cn_handler c) = (x, s)" and "deliverable en x"
  shows "up_permits p + length (filter has_permit (up_calls p)) = n
    \<and> length (up_pool p) \<le> unat m
    \<and> fst (uds_call (en_codec en) (server_peer en h) dial late0 False r cl) = Ok x"
proof -
  have ok: "cp_ok n m p" by (rule client_pool.reachable_inv [OF assms(1)])
  then have "quiet cl" using cp_okD [OF ok assms(2)] assms(3) by (simp add: clean_phase_def)
  then have "st = idle_stream cid c" using assms(4,5) by (simp add: quiet_def idle_stream_def)
  then obtain c' where "do_call_internal (en_codec en) (server_peer en h) False r st = (Ok x, idle_stream cid c')"
    using do_call_answered [OF assms(6,7,10,9,8), of cid] by blast
  with assms(4) have "fst (uds_call (en_codec en) (server_peer en h) dial late0 False r cl) = Ok x"
    by (simp add: uds_call_def connecting_def with_stream_def action_simps)
  with ok show ?thesis by (simp add: cp_ok_def)
qed

lemma sample_welcomes:
  "welcomes sample_surroundings sample_handler sample_connection
     \<lparr>hr_server_id = ''echo'', hr_session_id = ''s1'', hr_success = True, hr_encoding = ''json''\<rparr> 1"
proof -
  have "fits (jc_to_vec tagged (hq_to_json uds_hello))" "length (jc_to_vec tagged (hq_to_json uds_hello)) \<le> 1000"
    by (simp_all add: fits_def MAX_MESSAGE_SIZE_def hq_to_json_def uds_hello_def tagged_def)
  moreover have "fits (jc_to_vec tagged (hr_to_json
      \<lparr>hr_server_id = ''echo'', hr_session_id = ''s1'', hr_success = True, hr_encoding = ''json''\<rparr>))"
    by (simp add: fits_def MAX_MESSAGE_SIZE_def hr_to_json_def tagged_def)
  ultimately show ?thesis
    unfolding welcomes_def by (intro conjI) (simp_all add: welcomes_def sample_surroundings_def sample_handler_def fn_handler_def default_on_handshake_def
        sample_connection_def server_config_default_def server_limiter_def readable_def hq_to_json_def hr_to_json_def
        utf8_def uds_hello_def al_check_def al_new_def or_default_def Let_def)
qed

lemmas cp_defs = with_max_pool_size_def pop_client_def cp_phase_to_def count_client_def finish_call_def
  return_client_def should_pool_def

theorem client_pool_answers_witness:
  "\<exists>p cl. up_calls (p :: (string option \<times> nat connection) client_pool)
        = [Answered (Ok (response_success (sample_request ''1'') (JStr ''hi''))), Calling cl]
    \<and> fst (uds_call tagged (server_peer sample_surroundings sample_handler) (Err Timeout) False False (sample_request ''2'') cl)
      = Ok (response_success (sample_request ''2'') (JStr ''hi''))"
proof -
  let ?en = sample_surroundings and ?h = sample_handler
  let ?x = "\<lambda>i. response_success (sample_request i) (JStr ''hi'')"
  let ?step = "cp_step (en_codec ?en) (server_peer ?en ?h)"
  let ?reach = "reachable (\<lambda>p. p = with_max_pool_size 1 1) ?step"
  have cd: "en_codec ?en = tagged" by (simp add: sample_surroundings_def)
  have law: "codec_law (en_codec ?en)" unfolding cd by (rule tagged_law)
  have acc: "acceptable ?en (sample_request ''1'')" "acceptable ?en (sample_request ''2'')"
    "fits (snd (request_message ?en (sample_request ''1'')))" "fits (snd (request_message ?en (sample_request ''2'')))"
    by (simp_all add: sample_acceptable sample_fits utf8_def)
  have del: "deliverable ?en (?x ''1'')" "deliverable ?en (?x ''2'')"
    by (simp_all add: deliverable_def sample_defs readable_def rs_to_json_def some_or_null_def utf8_def fits_short)
  have run: "sh_handle ?h (sample_request i) s = (?x i, s)" for i s
    by (simp add: sample_defs)
  have new: "uc_stream uds_client_new = None" by (simp add: uds_client_new_def)
  obtain cl c where cl: "uds_call (en_codec ?en) (server_peer ?en ?h) (Ok (fresh_stream sample_connection)) False False
      (sample_request ''1'') uds_client_new = (Ok (?x ''1''), cl)"
    "uc_stream cl = Some (idle_stream (hq_client_id uds_hello) c)"
    using first_call_answered [OF law sample_welcomes new acc(1,3) run del(1)] by blast
  define p0 :: "(string option \<times> nat connection) client_pool" where "p0 = with_max_pool_size 1 1"
  define p1 where "p1 = p0\<lparr>up_calls := up_calls p0 @ replicate 2 (Queued False)\<rparr>"
  define p2 where "p2 = cp_phase_to 0 (Holding False) (p1\<lparr>up_permits := up_permits p1 - 1\<rparr>)"
  define p3 where "p3 = pop_client 0 (Missed False) p2"
  define p4 where "p4 = count_client 0 False p3"
  define p5 where "p5 = finish_call 0 (Ok (?x ''1'')) cl p4"
  define p6 where "p6 = cp_phase_to 1 (Holding False) (p5\<lparr>up_permits := up_permits p5 - 1\<rparr>)"
  define p7 where "p7 = pop_client 1 (Missed False) p6"
  note defs = p0_def p1_def p2_def p3_def p4_def p5_def p6_def p7_def cp_defs replicate_two
  have "?reach p0" by (rule reach_init) (simp add: p0_def)
  then have "?reach p1" by (rule reach_step) (simp only: p1_def, rule cp_arrive)
  then have "?reach p2" by (rule reach_step) (simp only: p2_def, rule cp_permit, simp_all add: defs)
  then have "?reach p3" by (rule reach_step) (simp only: p3_def, rule cp_pop, simp_all add: defs)
  then have "?reach p4" by (rule reach_step) (simp only: p4_def, rule cp_count, simp_all add: defs)
  then have "?reach p5"
    by (rule reach_step) (simp only: p5_def, rule cp_finish [OF _ _ _ cl(1)], simp_all add: defs new_stream_def fresh_stream_def)
  then have "?reach p6" by (rule reach_step) (simp only: p6_def, rule cp_permit, simp_all add: defs)
  then have reach: "?reach p7" by (rule reach_step) (simp only: p7_def, rule cp_pop, simp_all add: defs)
  have calls: "up_calls p7 = [Answered (Ok (?x ''1'')), Calling cl]" by (simp add: defs)
  then have at: "1 < length (up_calls p7)" "up_calls p7 ! 1 = Calling cl" by simp_all
  have peer: "us_peer (idle_stream (hq_client_id uds_hello) c) = Some (Some (hq_client_id uds_hello), c)"
    by (simp add: idle_stream_def)
  from client_pool_answers [OF reach at cl(2) peer law acc(2,4) run del(2)]
  have "fst (uds_call (en_codec ?en) (server_peer ?en ?h) (Err Timeout) False False (sample_request ''2'') cl) = Ok (?x ''2'')"
    by blast
  with calls show ?thesis unfolding cd by blast
qed

text \<open>
  The counter of clients can wrap around: \<^verbatim>\<open>close\<close> may come between the addition and the subtraction
  of a call over the limit.
\<close>

lemma close_race:
  "\<exists>p. reachable (\<lambda>p. p = with_max_pool_size 1 0) (cp_step cd peer) p \<and> pooled_count p = - 1"
proof -
  let ?reach = "reachable (\<lambda>p. p = with_max_pool_size 1 0) (cp_step cd peer)"
  define p0 :: "'a client_pool" where "p0 = with_max_pool_size 1 0"
  define p1 where "p1 = p0\<lparr>up_calls := up_calls p0 @ replicate 1 (Queued False)\<rparr>"
  define p2 where "p2 = cp_phase_to 0 (Holding False) (p1\<lparr>up_permits := up_permits p1 - 1\<rparr>)"
  define p3 where "p3 = pop_client 0 (Missed False) p2"
  define p4 where "p4 = count_client 0 False p3"
  define p5 where "p5 = client_pool_close p4"
  define p6 where "p6 = uncount_client 0 False p5"
  note defs = p0_def p1_def p2_def p3_def p4_def p5_def p6_def cp_defs client_pool_close_def uncount_client_def pooled_count_def
  have "?reach p0" by (rule reach_init) (simp add: p0_def)
  then have "?reach p1" by (rule reach_step) (simp only: p1_def, rule cp_arrive)
  then have "?reach p2" by (rule reach_step) (simp only: p2_def, rule cp_permit, simp_all add: defs)
  then have "?reach p3" by (rule reach_step) (simp only: p3_def, rule cp_pop, simp_all add: defs)
  then have "?reach p4" by (rule reach_step) (simp only: p4_def, rule cp_count, simp_all add: defs)
  then have "?reach p5" by (rule reach_step) (simp only: p5_def, rule cp_close)
  then have "?reach p6" by (rule reach_step) (simp only: p6_def, rule cp_uncount, simp_all add: defs)
  moreover have "pooled_count p6 = - 1" by (simp add: defs)
  ultimately show ?thesis by blast
qed

section \<open>Topics\<close>

text \<open>
  \<^verbatim>\<open>TopicBasedPool\<close>: calls with a topic share one client per topic and hold its lock from beginning
  to end, so that each is one step on that client; calls without go to a \<open>UdsClientPool\<close>, where they
  queue. A topic call comes with what its connection attempt and its timers do.
\<close>

record 's topic_pool =
  tb_default_pool :: "'s client_pool"
  tb_topic_clients :: "string \<rightharpoonup> 's uds_client"

record 's topic_call =
  tq_topic :: "string option"
  tq_dial :: "'s uds_stream result"
  tq_late0 :: bool
  tq_late :: bool
  tq_request :: service_request

definition topic_pool_new :: "u64 \<Rightarrow> 's topic_pool" where
  "topic_pool_new max_concurrent =
     \<lparr>tb_default_pool = client_pool_new max_concurrent, tb_topic_clients = (\<lambda>_. None)\<rparr>"

definition topic_client :: "string \<Rightarrow> 's topic_pool \<Rightarrow> 's uds_client" where
  "topic_client t tb = (case tb_topic_clients tb t of None \<Rightarrow> uds_client_new | Some client \<Rightarrow> client)"

definition call_on :: "json_codec \<Rightarrow> 's peer \<Rightarrow> 's topic_call \<Rightarrow> ('s uds_client, service_response) action" where
  "call_on cd peer q = uds_call cd peer (tq_dial q) (tq_late0 q) (tq_late q) (tq_request q)"

definition call_serial :: "json_codec \<Rightarrow> 's peer \<Rightarrow> string \<Rightarrow> 's topic_call \<Rightarrow> ('s topic_pool, service_response) action" where
  "call_serial cd peer t q tb =
     (case call_on cd peer q (topic_client t tb) of
        (r, client) \<Rightarrow> (r, tb\<lparr>tb_topic_clients := (tb_topic_clients tb)(t \<mapsto> client)\<rparr>))"

definition route :: "'s topic_call \<Rightarrow> string option" where
  "route q = (case tq_topic q of Some t \<Rightarrow> if t \<noteq> [] then Some t else None | None \<Rightarrow> None)"

text \<open>\<open>None\<close>: the call is in the default pool now and its result comes from there.\<close>

definition call_with_topic :: "json_codec \<Rightarrow> 's peer \<Rightarrow> 's topic_call \<Rightarrow> 's topic_pool
    \<Rightarrow> service_response result option \<times> 's topic_pool" where
  "call_with_topic cd peer q tb =
     (case route q of
        Some t \<Rightarrow> (case call_serial cd peer t q tb of (r, tb) \<Rightarrow> (Some r, tb))
      | None \<Rightarrow> (None, tb\<lparr>tb_default_pool := (tb_default_pool tb)
          \<lparr>up_calls := up_calls (tb_default_pool tb) @ [Queued False]\<rparr>\<rparr>))"

definition topic_pool_call :: "json_codec \<Rightarrow> 's peer \<Rightarrow> 's topic_call \<Rightarrow> 's topic_pool
    \<Rightarrow> service_response result option \<times> 's topic_pool" where
  "topic_pool_call cd peer q tb = call_with_topic cd peer (q\<lparr>tq_topic := None\<rparr>) tb"


definition topic_pool_close :: "'s topic_pool \<Rightarrow> 's topic_pool" where
  "topic_pool_close tb = tb\<lparr>tb_default_pool := client_pool_close (tb_default_pool tb),
     tb_topic_clients := map_option uds_close \<circ> tb_topic_clients tb\<rparr>"







end
