(* ===== verification/Connection_Pool.thy ===== *)
theory Connection_Pool
  imports Reliable "HOL-Library.Multiset"
begin

text \<open>
  \<^verbatim>\<open>UdsConnectionPool\<close> of \<^verbatim>\<open>src/src/pool.rs\<close>: calls on bare connections, which are put aside for
  the next call in a pool of the crate \<^verbatim>\<open>pingora_pool\<close>. That pool is a parameter with a law: it gives
  back connections that were put into it and not yet taken, and may drop some.
\<close>

section \<open>Metadata and metrics\<close>

record pooled_meta =
  ptm_id :: u64
  ptm_path :: string
  ptm_created_at :: instant
  ptm_last_used_at :: instant
  ptm_use_count :: u64

definition meta_new :: "u64 \<Rightarrow> string \<Rightarrow> instant \<Rightarrow> pooled_meta" where
  "meta_new ident path now = \<lparr>ptm_id = ident, ptm_path = path, ptm_created_at = now, ptm_last_used_at = now, ptm_use_count = 0\<rparr>"

definition record_use :: "instant \<Rightarrow> pooled_meta \<Rightarrow> pooled_meta" where
  "record_use now m = m\<lparr>ptm_use_count := ptm_use_count m + 1, ptm_last_used_at := now\<rparr>"

definition is_idle_timeout :: "instant \<Rightarrow> nat \<Rightarrow> pooled_meta \<Rightarrow> bool" where
  "is_idle_timeout now max_idle_secs m = ((now - ptm_last_used_at m) div from_secs 1 > max_idle_secs)"

record connection_pool_metrics =
  km_total_requests :: u64
  km_connections_created :: u64
  km_connections_reused :: u64
  km_pool_hits :: u64
  km_pool_misses :: u64
  km_connections_evicted :: u64

definition km_zero :: connection_pool_metrics where
  "km_zero = \<lparr>km_total_requests = 0, km_connections_created = 0, km_connections_reused = 0,
     km_pool_hits = 0, km_pool_misses = 0, km_connections_evicted = 0\<rparr>"

text \<open>A percentage, as an exact number.\<close>

definition reuse_rate :: "connection_pool_metrics \<Rightarrow> rat" where
  "reuse_rate m =
     (let created = of_nat (unat (km_connections_created m)); reused = of_nat (unat (km_connections_reused m));
          total = created + reused
      in if total = 0 then 0 else (reused / total) * 100)"

section \<open>The pool\<close>

record ('p, 'st) idle_pool =
  ip_new :: "nat \<Rightarrow> 'p"
  ip_get :: "'p \<Rightarrow> ('st \<times> 'p) option"
  ip_put :: "u32 \<Rightarrow> 'st \<Rightarrow> 'p \<Rightarrow> 'p"
  ip_pop_closed :: "u32 \<Rightarrow> 'p \<Rightarrow> 'p"
  ip_contents :: "'p \<Rightarrow> 'st multiset"

definition idle_law :: "('p, 'st) idle_pool \<Rightarrow> bool" where
  "idle_law lib \<longleftrightarrow>
     (\<forall>n. ip_contents lib (ip_new lib n) = {#})
     \<and> (\<forall>p. case ip_get lib p of
           None \<Rightarrow> ip_contents lib p = {#}
         | Some (st, p') \<Rightarrow> ip_contents lib p = add_mset st (ip_contents lib p'))
     \<and> (\<forall>ident st p. ip_contents lib (ip_put lib ident st p) \<subseteq># add_mset st (ip_contents lib p))
     \<and> (\<forall>ident p. ip_contents lib (ip_pop_closed lib ident p) \<subseteq># ip_contents lib p)"

record 'p connection_pool =
  kp_pool :: 'p
  kp_max_idle_secs :: nat
  kp_connection_id :: u64
  kp_metrics :: connection_pool_metrics

definition connection_pool_new :: "('p, 'st) idle_pool \<Rightarrow> nat \<Rightarrow> 'p connection_pool" where
  "connection_pool_new lib max_connections =
     \<lparr>kp_pool = ip_new lib max_connections, kp_max_idle_secs = 300, kp_connection_id = 0, kp_metrics = km_zero\<rparr>"

definition with_max_idle_secs :: "nat \<Rightarrow> 'p connection_pool \<Rightarrow> 'p connection_pool" where
  "with_max_idle_secs secs kp = kp\<lparr>kp_max_idle_secs := secs\<rparr>"

definition conn_get :: "('p, 'st) idle_pool \<Rightarrow> 'p connection_pool \<Rightarrow> 'st option \<times> 'p connection_pool" where
  "conn_get lib kp = (case ip_get lib (kp_pool kp) of
       None \<Rightarrow> (None, kp)
     | Some (st, p) \<Rightarrow> (Some st, kp\<lparr>kp_pool := p\<rparr>))"

text \<open>The identifier is truncated to 32 bits.\<close>

definition conn_put :: "('p, 'st) idle_pool \<Rightarrow> 'st \<Rightarrow> 'p connection_pool \<Rightarrow> 'p connection_pool" where
  "conn_put lib st kp =
     (let ident = kp_connection_id kp in
      kp\<lparr>kp_connection_id := ident + 1, kp_pool := ip_put lib (ucast ident) st (kp_pool kp)\<rparr>)"

definition conn_cleanup :: "('p, 'st) idle_pool \<Rightarrow> 'p connection_pool \<Rightarrow> 'p connection_pool" where
  "conn_cleanup lib kp = kp\<lparr>kp_pool := ip_pop_closed lib 0 (kp_pool kp)\<rparr>"

definition conn_close :: "'p connection_pool \<Rightarrow> 'p connection_pool" where
  "conn_close kp = kp"

definition counting :: "(connection_pool_metrics \<Rightarrow> connection_pool_metrics) \<Rightarrow> 'p connection_pool \<Rightarrow> 'p connection_pool" where
  "counting f kp = kp\<lparr>kp_metrics := f (kp_metrics kp)\<rparr>"

section \<open>A call\<close>

text \<open>
  Each call has a reader of its own, which may take bytes beyond the message with it; a server answers
  a request with one message, so that there are none. The read has no timer: without a message and with the peer still there it never returns, \<open>None\<close>.
\<close>

definition do_call :: "json_codec \<Rightarrow> 's peer \<Rightarrow> service_request \<Rightarrow> 's uds_stream
    \<Rightarrow> (service_response result \<times> 's uds_stream) option" where
  "do_call cd peer request st =
     (case uds_write peer MSG_REQUEST (jc_to_vec cd (rq_to_json request)) st of
        (Inl e, st) \<Rightarrow> Some (Inl e, st)
      | (Inr _, st) \<Rightarrow>
          (case uds_read False st of
             (Inl e, st) \<Rightarrow> if us_peer st = None then Some (Inl e, st) else None
           | (Inr (msg_type, payload), st) \<Rightarrow>
               if msg_type \<noteq> MSG_RESPONSE then
                 Some (Err (Protocol (''invalid response type: expected '' @ show_nat (unat MSG_RESPONSE)
                   @ '', got '' @ show_nat (unat msg_type))), st)
               else Some (from_slice cd rs_of_json ''ServiceResponse'' payload, st)))"

text \<open>\<open>dial\<close>: what an attempt to connect comes to, should one be made.\<close>

definition conn_call :: "('p, 's uds_stream) idle_pool \<Rightarrow> json_codec \<Rightarrow> 's peer \<Rightarrow> string + 's uds_stream
    \<Rightarrow> service_request \<Rightarrow> 'p connection_pool \<Rightarrow> (service_response result \<times> 'p connection_pool) option" where
  "conn_call lib cd peer dial request kp =
     (let kp = counting (\<lambda>m. m\<lparr>km_total_requests := km_total_requests m + 1\<rparr>) kp in
      case (case conn_get lib kp of
          (Some s, kp) \<Rightarrow>
            (Inr s, counting (\<lambda>m. m\<lparr>km_pool_hits := km_pool_hits m + 1,
                                   km_connections_reused := km_connections_reused m + 1\<rparr>) kp)
        | (None, kp) \<Rightarrow>
            let kp = counting (\<lambda>m. m\<lparr>km_pool_misses := km_pool_misses m + 1,
                                    km_connections_created := km_connections_created m + 1\<rparr>) kp in
            (case dial of
               Inr s \<Rightarrow> (Inr s, kp)
             | Inl e \<Rightarrow>
                 (Inl (ConnectionFailed e),
                  counting (\<lambda>m. m\<lparr>km_connections_evicted := km_connections_evicted m + 1\<rparr>) kp))) of
        (Inl e, kp) \<Rightarrow> Some (Err e, kp)
      | (Inr st, kp) \<Rightarrow>
          (case do_call cd peer request st of
             None \<Rightarrow> None
           | Some (result, st) \<Rightarrow> Some (result, conn_put lib st kp)))"

fun conn_calls :: "('p, 's uds_stream) idle_pool \<Rightarrow> json_codec \<Rightarrow> 's peer \<Rightarrow> ((string + 's uds_stream) \<times> service_request) list
    \<Rightarrow> 'p connection_pool \<Rightarrow> (service_response result list \<times> 'p connection_pool) option" where
  "conn_calls lib cd peer [] kp = Some ([], kp)"
| "conn_calls lib cd peer ((dial, q) # qs) kp =
     Option.bind (conn_call lib cd peer dial q kp) (\<lambda>(r, kp).
       map_option (\<lambda>(rs, kp). (r # rs, kp)) (conn_calls lib cd peer qs kp))"

section \<open>Calls on a server\<close>

definition dials_server :: "string + (string option \<times> 's connection) uds_stream \<Rightarrow> bool" where
  "dials_server dial = (case dial of Inl _ \<Rightarrow> True | Inr st \<Rightarrow> (case us_peer st of Some (None, c) \<Rightarrow> st = unshaken c | _ \<Rightarrow> False))"

definition connection_failed :: "'a result \<Rightarrow> bool" where
  "connection_failed r = (case r of Inl (ConnectionFailed _) \<Rightarrow> True | _ \<Rightarrow> False)"

definition only_dead :: "('p, 's uds_stream) idle_pool \<Rightarrow> 'p connection_pool \<Rightarrow> bool" where
  "only_dead lib kp \<longleftrightarrow> set_mset (ip_contents lib (kp_pool kp)) \<subseteq> {dead_stream}"

lemma do_call_unshaken:
  "fits (jc_to_vec cd (rq_to_json q)) \<Longrightarrow>
    do_call cd (server_peer en h) q (unshaken c) = Some (Err (ConnectionFailed early_eof), dead_stream)"
  by (simp add: do_call_def first_request_refused dead_read) (simp add: dead_stream_def)

lemma do_call_dead:
  "fits (jc_to_vec cd (rq_to_json q)) \<Longrightarrow> do_call cd peer q dead_stream = Some (Err (ConnectionFailed broken_pipe), dead_stream)"
  by (simp add: do_call_def dead_write)

lemma conn_call_fails:
  assumes law: "idle_law lib" and dead: "only_dead lib kp" and dial: "dials_server dial"
    and fits: "fits (jc_to_vec cd (rq_to_json q))"
  shows "\<exists>r kp'. conn_call lib cd (server_peer en h) dial q kp = Some (r, kp') \<and> connection_failed r \<and> only_dead lib kp'
    \<and> km_total_requests (kp_metrics kp') = km_total_requests (kp_metrics kp) + 1
    \<and> km_pool_hits (kp_metrics kp') + km_pool_misses (kp_metrics kp') = km_pool_hits (kp_metrics kp) + km_pool_misses (kp_metrics kp) + 1"
proof -
  have put: "only_dead lib (conn_put lib dead_stream k)" if "only_dead lib k" for k
  proof -
    have "ip_contents lib (ip_put lib i dead_stream (kp_pool k)) \<subseteq># add_mset dead_stream (ip_contents lib (kp_pool k))" for i
      using law unfolding idle_law_def by blast
    from set_mset_mono [OF this] that show ?thesis
      unfolding only_dead_def conn_put_def Let_def by (simp, blast)
  qed
  show ?thesis
  proof (cases "ip_get lib (kp_pool kp)")
    case (Some sp)
    obtain st p where sp: "sp = (st, p)" by force
    have contents: "ip_contents lib (kp_pool kp) = add_mset st (ip_contents lib p)"
      using law Some sp unfolding idle_law_def by (metis (mono_tags, lifting) case_prod_conv option.simps(5))
    then have "st = dead_stream" "set_mset (ip_contents lib p) \<subseteq> {dead_stream}"
      using dead by (auto simp: only_dead_def)
    with Some sp show ?thesis
      using put by (simp add: conn_call_def conn_get_def counting_def Let_def do_call_dead [OF fits] connection_failed_def
          only_dead_def) (simp add: conn_put_def Let_def)
  next
    case None
    show ?thesis
    proof (cases dial)
      case (Inl e)
      with None dead show ?thesis
        by (simp add: conn_call_def conn_get_def counting_def Let_def connection_failed_def only_dead_def)
    next
      case (Inr st)
      then obtain c where "st = unshaken c" using dial by (auto simp: dials_server_def split: option.splits prod.splits)
      with None Inr dead show ?thesis
        using put by (simp add: conn_call_def conn_get_def counting_def Let_def do_call_unshaken [OF fits] connection_failed_def
            only_dead_def) (simp add: conn_put_def Let_def)
    qed
  qed
qed

text \<open>
  C32. A \<open>UdsConnectionPool\<close> is never served by a \<open>UdsServer\<close>. Whatever pool of idle connections it
  uses, and whether its attempts to connect fail or reach the server, every call returns a failed
  connection, since no handshake is made; the broken connections are put back and taken again. Every
  call is counted, as a hit or a miss.
\<close>

theorem connection_pool_never_served:
  assumes "idle_law lib" and "\<forall>(dial, q) \<in> set qs. dials_server dial \<and> fits (jc_to_vec cd (rq_to_json q))"
  shows "\<exists>rs kp. conn_calls lib cd (server_peer en h) qs (connection_pool_new lib n) = Some (rs, kp)
    \<and> length rs = length qs \<and> list_all connection_failed rs
    \<and> km_total_requests (kp_metrics kp) = of_nat (length qs)
    \<and> km_pool_hits (kp_metrics kp) + km_pool_misses (kp_metrics kp) = of_nat (length qs)"
proof -
  have "\<exists>rs kp'. conn_calls lib cd (server_peer en h) qs kp = Some (rs, kp')
      \<and> length rs = length qs \<and> list_all connection_failed rs
      \<and> km_total_requests (kp_metrics kp') = km_total_requests (kp_metrics kp) + of_nat (length qs)
      \<and> km_pool_hits (kp_metrics kp') + km_pool_misses (kp_metrics kp')
         = km_pool_hits (kp_metrics kp) + km_pool_misses (kp_metrics kp) + of_nat (length qs)"
    if "only_dead lib kp" "\<forall>(dial, q) \<in> set qs. dials_server dial \<and> fits (jc_to_vec cd (rq_to_json q))" for kp
    using that
  proof (induction qs arbitrary: kp)
    case (Cons dq qs)
    obtain dial q where dq: "dq = (dial, q)" by force
    obtain r kp1 where r: "conn_call lib cd (server_peer en h) dial q kp = Some (r, kp1)" "connection_failed r" "only_dead lib kp1"
      "km_total_requests (kp_metrics kp1) = km_total_requests (kp_metrics kp) + 1"
      "km_pool_hits (kp_metrics kp1) + km_pool_misses (kp_metrics kp1) = km_pool_hits (kp_metrics kp) + km_pool_misses (kp_metrics kp) + 1"
      using conn_call_fails [OF assms(1) Cons.prems(1), of dial cd q en h] Cons.prems(2) dq by auto
    from Cons.IH [OF r(3)] Cons.prems(2) r show ?case by (auto simp: dq add_ac)
  qed simp
  moreover have "only_dead lib (connection_pool_new lib n)"
    using assms(1) by (simp add: only_dead_def connection_pool_new_def idle_law_def)
  ultimately show ?thesis
    using assms(2) by (fastforce simp: connection_pool_new_def km_zero_def)
qed

text \<open>An idle pool of one thread: a stack without a limit.\<close>

definition stack_pool :: "('st list, 'st) idle_pool" where
  "stack_pool = \<lparr>ip_new = (\<lambda>_. []), ip_get = (\<lambda>p. case p of [] \<Rightarrow> None | st # p' \<Rightarrow> Some (st, p')),
     ip_put = (\<lambda>_ st p. st # p), ip_pop_closed = (\<lambda>_ p. p), ip_contents = mset\<rparr>"

lemma stack_pool_law: "idle_law stack_pool"
  by (simp add: idle_law_def stack_pool_def split: list.split)

lemma connection_pool_never_served_witness:
  "\<exists>rs kp. conn_calls stack_pool tagged (server_peer sample_surroundings sample_handler)
      [(Inr (unshaken sample_connection), sample_request ''1''), (Inl ''refused'', sample_request ''2'')]
      (connection_pool_new stack_pool 10) = Some (rs, kp)
    \<and> list_all connection_failed rs \<and> km_total_requests (kp_metrics kp) = 2"
proof -
  let ?qs = "[(Inr (unshaken sample_connection), sample_request ''1''), (Inl ''refused'', sample_request ''2'')]"
  have "\<forall>(dial, q) \<in> set ?qs. dials_server dial \<and> fits (jc_to_vec tagged (rq_to_json q))"
    using sample_fits [of "''1''"] sample_fits [of "''2''"]
    by (simp add: request_message_def sample_surroundings_def dials_server_def) (simp add: unshaken_def)
  from connection_pool_never_served [OF stack_pool_law this, of sample_surroundings sample_handler 10]
  show ?thesis by (auto simp del: conn_calls.simps)
qed

end
