(* ===== verification/Discovery.thy ===== *)
theory Discovery
  imports Webhook Queues
begin

text \<open>
  Service discovery, \<^verbatim>\<open>src/src/discovery.rs\<close>: a registry of endpoints by service name, with one
  load balancer of each kind per name, rebuilt after every change, and the background health checker.
  The balancers are those of the crate \<^verbatim>\<open>pingora_load_balancing\<close>, a parameter here with the law
  \<open>balancer_law\<close>: building resolves every address and fails when one does not resolve, selecting gives
  one of the backends.
\<close>

section \<open>Endpoints and balancers\<close>

record service_endpoint =
  se_name :: string
  se_address :: string
  se_weight :: nat
  se_metadata :: "string \<rightharpoonup> string"

definition endpoint_new :: "string \<Rightarrow> string \<Rightarrow> service_endpoint" where
  "endpoint_new name address =
     \<lparr>se_name = name, se_address = address, se_weight = 1, se_metadata = (\<lambda>_. None)\<rparr>"

definition with_weight :: "nat \<Rightarrow> service_endpoint \<Rightarrow> service_endpoint" where
  "with_weight w e = e\<lparr>se_weight := w\<rparr>"

definition with_endpoint_metadata :: "string \<Rightarrow> string \<Rightarrow> service_endpoint \<Rightarrow> service_endpoint" where
  "with_endpoint_metadata k v e = e\<lparr>se_metadata := (se_metadata e)(k \<mapsto> v)\<rparr>"

datatype strategy = RoundRobin | Random | ConsistentHash

record ('lb, 'addr) balancer_lib =
  bl_resolve :: "string \<Rightarrow> 'addr list option"
  bl_try_from_iter :: "strategy \<Rightarrow> string list \<Rightarrow> 'lb option"
  bl_backends :: "'lb \<Rightarrow> 'addr list"
  bl_select :: "bytes \<Rightarrow> nat \<Rightarrow> 'lb \<Rightarrow> 'addr option \<times> 'lb"

text \<open>The addresses that a list of endpoint addresses resolves to, when all of them do.\<close>

fun resolve_all :: "(string \<Rightarrow> 'addr list option) \<Rightarrow> string list \<Rightarrow> 'addr list option" where
  "resolve_all f [] = Some []"
| "resolve_all f (a # as) =
     (case (f a, resolve_all f as) of (Some bs, Some cs) \<Rightarrow> Some (bs @ cs) | _ \<Rightarrow> None)"

definition balancer_law :: "('lb, 'addr) balancer_lib \<Rightarrow> bool" where
  "balancer_law lib \<longleftrightarrow>
     (\<forall>s as. (case (bl_try_from_iter lib s as, resolve_all (bl_resolve lib) as) of
          (Some lb, Some bs) \<Rightarrow> set (bl_backends lib lb) = set bs
        | (None, None) \<Rightarrow> True
        | _ \<Rightarrow> False))
     \<and> (\<forall>key n lb. n > 0 \<longrightarrow> (case bl_select lib key n lb of (r, lb') \<Rightarrow>
          set (bl_backends lib lb') = set (bl_backends lib lb)
          \<and> (case r of Some b \<Rightarrow> b \<in> set (bl_backends lib lb) | None \<Rightarrow> bl_backends lib lb = [])))"

section \<open>The registry\<close>

record 'lb service_discovery =
  sd_endpoints :: "string \<rightharpoonup> service_endpoint list"
  sd_lbs :: "strategy \<Rightarrow> string \<rightharpoonup> 'lb"
  sd_strategy :: strategy

definition discovery_new :: "'lb service_discovery" where
  "discovery_new = \<lparr>sd_endpoints = (\<lambda>_. None), sd_lbs = (\<lambda>_ _. None), sd_strategy = RoundRobin\<rparr>"

definition with_strategy :: "strategy \<Rightarrow> 'lb service_discovery \<Rightarrow> 'lb service_discovery" where
  "with_strategy s sd = sd\<lparr>sd_strategy := s\<rparr>"

definition rebuild_load_balancers :: "('lb, 'addr) balancer_lib \<Rightarrow> string \<Rightarrow> 'lb service_discovery \<Rightarrow> 'lb service_discovery" where
  "rebuild_load_balancers lib name sd =
     (case sd_endpoints sd name of
        None \<Rightarrow> sd
      | Some eps \<Rightarrow>
          let addrs = map se_address eps in
          sd\<lparr>sd_lbs := (\<lambda>s. case bl_try_from_iter lib s addrs of
            Some lb \<Rightarrow> (sd_lbs sd s)(name \<mapsto> lb)
          | None \<Rightarrow> sd_lbs sd s)\<rparr>)"

definition register :: "('lb, 'addr) balancer_lib \<Rightarrow> service_endpoint \<Rightarrow> 'lb service_discovery \<Rightarrow> 'lb service_discovery" where
  "register lib endpoint sd =
     (let name = se_name endpoint;
          eps = (case sd_endpoints sd name of None \<Rightarrow> [] | Some eps \<Rightarrow> eps)
      in rebuild_load_balancers lib name (sd\<lparr>sd_endpoints := (sd_endpoints sd)(name \<mapsto> eps @ [endpoint])\<rparr>))"

definition unregister :: "('lb, 'addr) balancer_lib \<Rightarrow> string \<Rightarrow> string \<Rightarrow> 'lb service_discovery \<Rightarrow> 'lb service_discovery" where
  "unregister lib name address sd =
     rebuild_load_balancers lib name
       (case sd_endpoints sd name of
          Some eps \<Rightarrow> sd\<lparr>sd_endpoints := (sd_endpoints sd)(name \<mapsto> filter (\<lambda>e. se_address e \<noteq> address) eps)\<rparr>
        | None \<Rightarrow> sd)"

definition discover :: "string \<Rightarrow> 'lb service_discovery \<Rightarrow> service_endpoint list" where
  "discover name sd = (case sd_endpoints sd name of Some eps \<Rightarrow> eps | None \<Rightarrow> [])"

definition get_load_balancer :: "string \<Rightarrow> 'lb service_discovery \<Rightarrow> 'lb option" where
  "get_load_balancer name sd = sd_lbs sd RoundRobin name"

text \<open>The balancers are shared: what selecting changes in one stays changed.\<close>

definition select_with_key :: "('lb, 'addr) balancer_lib \<Rightarrow> string \<Rightarrow> bytes \<Rightarrow> 'lb service_discovery
    \<Rightarrow> 'addr option \<times> 'lb service_discovery" where
  "select_with_key lib name key sd =
     (case sd_lbs sd (sd_strategy sd) name of
        None \<Rightarrow> (None, sd)
      | Some lb \<Rightarrow> (case bl_select lib key 256 lb of (r, lb') \<Rightarrow>
          (r, sd\<lparr>sd_lbs := (sd_lbs sd)(sd_strategy sd := (sd_lbs sd (sd_strategy sd))(name \<mapsto> lb'))\<rparr>)))"

definition select :: "('lb, 'addr) balancer_lib \<Rightarrow> string \<Rightarrow> 'lb service_discovery
    \<Rightarrow> 'addr option \<times> 'lb service_discovery" where
  "select lib name sd = select_with_key lib name [] sd"

definition set_backend_health :: "string \<Rightarrow> string \<Rightarrow> bool \<Rightarrow> 'lb service_discovery \<Rightarrow> 'lb service_discovery" where
  "set_backend_health name address healthy sd = sd"

definition get_backend_health :: "string \<Rightarrow> string \<Rightarrow> 'lb service_discovery \<Rightarrow> bool" where
  "get_backend_health name address sd = True"

definition service_listed :: "'lb service_discovery \<Rightarrow> string \<Rightarrow> bool" where
  "service_listed sd name = (sd_endpoints sd name \<noteq> None)"

section \<open>The background health checker\<close>

record background_health_checker =
  bh_interval :: duration
  bh_timeout :: duration
  bh_running :: bool

definition checker_new :: background_health_checker where
  "checker_new = \<lparr>bh_interval = from_secs 30, bh_timeout = from_secs 5, bh_running = False\<rparr>"

definition with_interval :: "duration \<Rightarrow> background_health_checker \<Rightarrow> background_health_checker" where
  "with_interval d bh = bh\<lparr>bh_interval := d\<rparr>"

definition with_check_timeout :: "duration \<Rightarrow> background_health_checker \<Rightarrow> background_health_checker" where
  "with_check_timeout d bh = bh\<lparr>bh_timeout := d\<rparr>"

text \<open>The boolean says whether a task was started.\<close>

definition start :: "background_health_checker \<Rightarrow> bool \<times> background_health_checker" where
  "start bh = (if bh_running bh then (False, bh) else (True, bh\<lparr>bh_running := True\<rparr>))"

definition is_running :: "background_health_checker \<Rightarrow> bool" where
  "is_running bh = bh_running bh"

text \<open>One round over the services, listed in some order, with the outcomes of the connections.\<close>

definition check_all_services :: "(string \<Rightarrow> connect_outcome) \<Rightarrow> string list \<Rightarrow> 'lb service_discovery \<Rightarrow> 'lb service_discovery" where
  "check_all_services connect services sd =
     fold (\<lambda>service_name sd.
       fold (\<lambda>endpoint sd.
         let healthy = background_check (connect (se_address endpoint))
         in set_backend_health service_name (se_address endpoint) healthy sd)
       (discover service_name sd) sd) services sd"

lemma fold_same: "fold (\<lambda>_ x. x) xs x = x"
  by (induction xs) simp_all

lemma check_all_services_same: "check_all_services connect services sd = sd"
  by (simp add: check_all_services_def set_backend_health_def fold_same)

text \<open>
  The task of the checker: at each tick of its timer one round, until the token is found cancelled. When both are
  there at once either is taken. What is left of the events when the task ends is for nobody.
\<close>

datatype checker_event = Token_Cancelled | Interval_Tick "string \<Rightarrow> connect_outcome" "string list"

fun checker_loop :: "checker_event list \<Rightarrow> 'lb service_discovery \<Rightarrow> 'lb service_discovery" where
  "checker_loop [] sd = sd"
| "checker_loop (Token_Cancelled # events) sd = sd"
| "checker_loop (Interval_Tick connect services # events) sd = checker_loop events (check_all_services connect services sd)"

text \<open>Whatever it finds, the checker changes nothing that selection looks at.\<close>

lemma checker_loop_same: "checker_loop events sd = sd"
  by (induction events sd rule: checker_loop.induct) (simp_all add: check_all_services_same)

section \<open>Any sequence of operations\<close>

datatype sd_op =
    Register service_endpoint
  | Unregister string string
  | Select string bytes
  | Check_Health "string \<Rightarrow> connect_outcome" "string list"

fun sd_step :: "('lb, 'addr) balancer_lib \<Rightarrow> sd_op \<Rightarrow> 'lb service_discovery \<Rightarrow> 'lb service_discovery" where
  "sd_step lib (Register e) sd = register lib e sd"
| "sd_step lib (Unregister name address) sd = unregister lib name address sd"
| "sd_step lib (Select name key) sd = snd (select_with_key lib name key sd)"
| "sd_step lib (Check_Health connect services) sd = check_all_services connect services sd"

definition sd_run :: "('lb, 'addr) balancer_lib \<Rightarrow> sd_op list \<Rightarrow> 'lb service_discovery \<Rightarrow> 'lb service_discovery" where
  "sd_run lib ops sd = fold (sd_step lib) ops sd"

text \<open>The specification: the addresses registered under a name, in order.\<close>

fun registered_step :: "string \<Rightarrow> sd_op \<Rightarrow> string list \<Rightarrow> string list" where
  "registered_step name (Register e) as = (if se_name e = name then as @ [se_address e] else as)"
| "registered_step name (Unregister n a) as = (if n = name then filter (\<lambda>b. b \<noteq> a) as else as)"
| "registered_step name _ as = as"

definition registered :: "string \<Rightarrow> sd_op list \<Rightarrow> string list" where
  "registered name ops = fold (registered_step name) ops []"

lemma rebuild_endpoints [simp]:
  "sd_endpoints (rebuild_load_balancers lib name sd) = sd_endpoints sd"
  "sd_strategy (rebuild_load_balancers lib name sd) = sd_strategy sd"
  by (simp_all add: rebuild_load_balancers_def Let_def split: option.split)

lemma select_endpoints [simp]: "sd_endpoints (snd (select_with_key lib name key sd)) = sd_endpoints sd"
  by (simp add: select_with_key_def split: option.split prod.split)

lemma step_endpoints:
  "map se_address (discover name (sd_step lib oper sd)) = registered_step name oper (map se_address (discover name sd))"
proof (cases oper)
  case (Unregister n a)
  then show ?thesis
    by (auto simp: discover_def unregister_def filter_map comp_def split: option.split)
qed (auto simp: discover_def register_def Let_def check_all_services_same split: option.split)

lemma run_endpoints: "map se_address (discover name (sd_run lib ops sd)) = fold (registered_step name) ops (map se_address (discover name sd))"
  unfolding sd_run_def by (induction ops arbitrary: sd) (simp_all add: step_endpoints)

section \<open>Balancers in step with the registry\<close>

definition built_from :: "('lb, 'addr) balancer_lib \<Rightarrow> service_endpoint list option \<Rightarrow> 'lb option \<Rightarrow> bool" where
  "built_from lib oeps olb = (case oeps of
       None \<Rightarrow> olb = None
     | Some eps \<Rightarrow> (case (resolve_all (bl_resolve lib) (map se_address eps), olb) of
           (Some bs, Some lb) \<Rightarrow> set (bl_backends lib lb) = set bs
         | _ \<Rightarrow> False))"

definition in_step :: "('lb, 'addr) balancer_lib \<Rightarrow> 'lb service_discovery \<Rightarrow> bool" where
  "in_step lib sd \<longleftrightarrow> (\<forall>s name. built_from lib (sd_endpoints sd name) (sd_lbs sd s name))"

lemma in_stepD: "in_step lib sd \<Longrightarrow> built_from lib (sd_endpoints sd name) (sd_lbs sd s name)"
  by (simp add: in_step_def)

lemma built_from_resolves: "built_from lib (Some eps) olb \<Longrightarrow> resolve_all (bl_resolve lib) (map se_address eps) \<noteq> None"
  by (auto simp: built_from_def split: option.splits)

definition all_resolve :: "('lb, 'addr) balancer_lib \<Rightarrow> sd_op list \<Rightarrow> bool" where
  "all_resolve lib ops \<longleftrightarrow> list_all (\<lambda>oper. case oper of Register e \<Rightarrow> bl_resolve lib (se_address e) \<noteq> None | _ \<Rightarrow> True) ops"

lemma resolve_all_append:
  "resolve_all f (as @ bs) = (case (resolve_all f as, resolve_all f bs) of (Some x, Some y) \<Rightarrow> Some (x @ y) | _ \<Rightarrow> None)"
  by (induction as) (auto split: option.split)

lemma resolve_all_None: "resolve_all f as = None \<longleftrightarrow> (\<exists>a \<in> set as. f a = None)"
  by (induction as) (auto split: option.split)

lemma resolve_all_filter: "resolve_all f as \<noteq> None \<Longrightarrow> resolve_all f (filter P as) \<noteq> None"
  by (auto simp: resolve_all_None)

lemma build_law:
  assumes "balancer_law lib" and "resolve_all (bl_resolve lib) as = Some bs"
  obtains lb where "bl_try_from_iter lib s as = Some lb" "set (bl_backends lib lb) = set bs"
proof -
  from assms(1) have "case (bl_try_from_iter lib s as, resolve_all (bl_resolve lib) as) of
      (Some lb, Some bs) \<Rightarrow> set (bl_backends lib lb) = set bs | (None, None) \<Rightarrow> True | _ \<Rightarrow> False"
    unfolding balancer_law_def by blast
  then show ?thesis using assms(2) that by (cases "bl_try_from_iter lib s as") auto
qed

lemma select_law:
  assumes "balancer_law lib" and "bl_select lib key 256 lb = (r, lb')"
  shows "set (bl_backends lib lb') = set (bl_backends lib lb)
    \<and> (case r of Some b \<Rightarrow> b \<in> set (bl_backends lib lb) | None \<Rightarrow> bl_backends lib lb = [])"
proof -
  from assms(1) have "case bl_select lib key 256 lb of (r, lb') \<Rightarrow>
      set (bl_backends lib lb') = set (bl_backends lib lb)
      \<and> (case r of Some b \<Rightarrow> b \<in> set (bl_backends lib lb) | None \<Rightarrow> bl_backends lib lb = [])"
    unfolding balancer_law_def by simp
  then show ?thesis using assms(2) by simp
qed

text \<open>A rebuild after the endpoints of one name have become \<open>eps\<close>.\<close>

lemma rebuild_in_step:
  assumes law: "balancer_law lib" and sync: "in_step lib sd"
    and eps: "resolve_all (bl_resolve lib) (map se_address eps) \<noteq> None"
  shows "in_step lib (rebuild_load_balancers lib name (sd\<lparr>sd_endpoints := (sd_endpoints sd)(name \<mapsto> eps)\<rparr>))"
proof -
  obtain bs where bs: "resolve_all (bl_resolve lib) (map se_address eps) = Some bs" using eps by blast
  have "\<exists>lb. bl_try_from_iter lib s (map se_address eps) = Some lb \<and> set (bl_backends lib lb) = set bs" for s
    by (rule build_law [OF law bs]) blast
  then obtain lb where lb: "\<And>s. bl_try_from_iter lib s (map se_address eps) = Some (lb s)"
    "\<And>s. set (bl_backends lib (lb s)) = set bs" by metis
  let ?sd = "rebuild_load_balancers lib name (sd\<lparr>sd_endpoints := (sd_endpoints sd)(name \<mapsto> eps)\<rparr>)"
  have lbs: "sd_lbs ?sd s n = (if n = name then Some (lb s) else sd_lbs sd s n)" for s n
    by (simp add: rebuild_load_balancers_def lb(1))
  have eps: "sd_endpoints ?sd n = (if n = name then Some eps else sd_endpoints sd n)" for n by simp
  show ?thesis
    unfolding in_step_def lbs eps using bs lb(2) in_stepD [OF sync] by (simp add: built_from_def)
qed

lemma register_in_step:
  assumes law: "balancer_law lib" and sync: "in_step lib sd" and "bl_resolve lib (se_address e) \<noteq> None"
  shows "in_step lib (register lib e sd)"
proof -
  have "resolve_all (bl_resolve lib) (map se_address (discover (se_name e) sd)) \<noteq> None"
    using in_stepD [OF sync, of "se_name e" RoundRobin]
    by (cases "sd_endpoints sd (se_name e)") (simp_all add: discover_def built_from_resolves)
  with assms(3) have "resolve_all (bl_resolve lib) (map se_address (discover (se_name e) sd @ [e])) \<noteq> None"
    by (auto simp: resolve_all_None)
  from rebuild_in_step [OF law sync this, of "se_name e"] show ?thesis
    by (simp add: register_def Let_def discover_def)
qed

lemma unregister_in_step:
  assumes law: "balancer_law lib" and sync: "in_step lib sd"
  shows "in_step lib (unregister lib name a sd)"
proof (cases "sd_endpoints sd name")
  case None
  with sync show ?thesis by (simp add: unregister_def rebuild_load_balancers_def)
next
  case (Some eps)
  have "resolve_all (bl_resolve lib) (map se_address eps) \<noteq> None"
    using built_from_resolves in_stepD [OF sync, of name] Some by metis
  then have "resolve_all (bl_resolve lib) (map se_address (filter (\<lambda>e. se_address e \<noteq> a) eps)) \<noteq> None"
    by (auto simp: resolve_all_None)
  from rebuild_in_step [OF law sync this, of name] Some show ?thesis
    by (simp add: unregister_def)
qed

lemma select_in_step:
  assumes law: "balancer_law lib" and sync: "in_step lib sd"
  shows "in_step lib (snd (select_with_key lib name key sd))"
proof (cases "sd_lbs sd (sd_strategy sd) name")
  case None
  with sync show ?thesis by (simp add: select_with_key_def)
next
  case (Some lb)
  obtain r lb' where s: "bl_select lib key 256 lb = (r, lb')" by force
  have same: "set (bl_backends lib lb') = set (bl_backends lib lb)" using select_law [OF law s] by simp
  have "sd_lbs (snd (select_with_key lib name key sd)) st n =
      (if st = sd_strategy sd \<and> n = name then Some lb' else sd_lbs sd st n)" for st n
    using Some s by (simp add: select_with_key_def)
  then show ?thesis
    using in_stepD [OF sync] in_stepD [OF sync, of name "sd_strategy sd"] Some same
    by (auto simp: in_step_def built_from_def split: option.splits)
qed

lemma run_in_step:
  "balancer_law lib \<Longrightarrow> in_step lib sd \<Longrightarrow> all_resolve lib ops \<Longrightarrow> in_step lib (sd_run lib ops sd)"
proof (induction ops arbitrary: sd)
  case (Cons oper ops)
  have "in_step lib (sd_step lib oper sd)"
    using Cons.prems
    by (cases oper) (auto simp: all_resolve_def check_all_services_same register_in_step unregister_in_step select_in_step)
  moreover have "all_resolve lib ops" using Cons.prems(3) by (simp add: all_resolve_def)
  ultimately show ?case using Cons.IH Cons.prems(1) by (simp add: sd_run_def)
qed (simp add: sd_run_def)

text \<open>
  C27. Selection follows the registry. When every address that is registered resolves, then after any
  operations, with any strategy, \<^verbatim>\<open>select\<close> gives a backend of an endpoint that is registered under
  the name at that moment, and gives none exactly when the endpoints registered have no backend. The
  health checks have no influence.
\<close>

theorem select_registered:
  assumes "balancer_law lib" and "all_resolve lib ops"
  shows "\<exists>bs. resolve_all (bl_resolve lib) (registered name ops) = Some bs
    \<and> (case fst (select_with_key lib name key (sd_run lib ops (with_strategy st discovery_new))) of
         Some b \<Rightarrow> b \<in> set bs | None \<Rightarrow> bs = [])"
proof -
  let ?sd = "sd_run lib ops (with_strategy st discovery_new)"
  have sync: "in_step lib ?sd"
    by (rule run_in_step [OF assms(1) _ assms(2)]) (simp add: in_step_def built_from_def with_strategy_def discovery_new_def)
  have reg: "registered name ops = map se_address (discover name ?sd)"
    by (simp add: registered_def run_endpoints) (simp add: discover_def with_strategy_def discovery_new_def)
  let ?lb = "sd_lbs ?sd (sd_strategy ?sd) name"
  have built: "built_from lib (sd_endpoints ?sd name) ?lb" by (rule in_stepD [OF sync])
  show ?thesis
  proof (cases "sd_endpoints ?sd name")
    case None
    with built reg show ?thesis by (simp add: built_from_def discover_def select_with_key_def)
  next
    case (Some eps)
    then obtain bs lb where lb: "resolve_all (bl_resolve lib) (map se_address eps) = Some bs"
      "?lb = Some lb" "set (bl_backends lib lb) = set bs"
      using built by (auto simp: built_from_def split: option.splits)
    obtain r lb' where s: "bl_select lib key 256 lb = (r, lb')" by force
    from select_law [OF assms(1) s] lb s Some reg show ?thesis
      by (auto simp: discover_def select_with_key_def split: option.splits)
  qed
qed

section \<open>An address that does not resolve\<close>

definition backends_of :: "('lb, 'addr) balancer_lib \<Rightarrow> strategy \<Rightarrow> string \<Rightarrow> 'lb service_discovery \<Rightarrow> 'addr set option" where
  "backends_of lib s name sd = map_option (\<lambda>lb. set (bl_backends lib lb)) (sd_lbs sd s name)"

lemma rebuild_other: "n \<noteq> name \<Longrightarrow> sd_lbs (rebuild_load_balancers lib name sd) s n = sd_lbs sd s n"
  by (simp add: rebuild_load_balancers_def Let_def split: option.split)

lemma rebuild_fails:
  assumes law: "balancer_law lib" and "bad \<in> set (map se_address (discover name sd))" and "bl_resolve lib bad = None"
  shows "rebuild_load_balancers lib name sd = sd"
proof -
  obtain eps where eps: "sd_endpoints sd name = Some eps" "bad \<in> set (map se_address eps)"
    using assms(2) by (cases "sd_endpoints sd name") (auto simp: discover_def)
  then have "resolve_all (bl_resolve lib) (map se_address eps) = None"
    using assms(3) unfolding resolve_all_None by blast
  then have "bl_try_from_iter lib s (map se_address eps) = None" for s
    using law unfolding balancer_law_def by (metis (mono_tags, lifting) case_prod_conv option.exhaust option.simps(4) option.simps(5))
  then show ?thesis using eps(1) by (simp add: rebuild_load_balancers_def)
qed

lemma stuck_step:
  assumes law: "balancer_law lib" and bad: "bad \<in> set (map se_address (discover name sd))" "bl_resolve lib bad = None"
    and op: "oper \<noteq> Unregister name bad"
  shows "backends_of lib s name (sd_step lib oper sd) = backends_of lib s name sd
    \<and> bad \<in> set (map se_address (discover name (sd_step lib oper sd)))"
proof
  show in_reg: "bad \<in> set (map se_address (discover name (sd_step lib oper sd)))"
    unfolding step_endpoints using bad(1) op by (cases oper) auto
  show "backends_of lib s name (sd_step lib oper sd) = backends_of lib s name sd"
  proof (cases oper)
    case (Register e)
    show ?thesis
    proof (cases "se_name e = name")
      case True
      obtain eps where "sd_endpoints sd name = Some eps" "bad \<in> se_address ` set eps"
        using bad(1) by (cases "sd_endpoints sd name") (auto simp: discover_def)
      then show ?thesis
        using rebuild_fails [OF law _ bad(2), of name "sd\<lparr>sd_endpoints := (sd_endpoints sd)(name \<mapsto> eps @ [e])\<rparr>"]
        by (simp add: Register True register_def Let_def backends_of_def discover_def)
    next
      case False
      then show ?thesis by (simp add: Register register_def Let_def backends_of_def rebuild_other)
    qed
  next
    case (Unregister n a)
    show ?thesis
    proof (cases "n = name")
      case True
      then obtain eps where eps: "sd_endpoints sd name = Some eps" "bad \<in> se_address ` set eps"
        using bad(1) by (cases "sd_endpoints sd name") (auto simp: discover_def)
      moreover have "bad \<noteq> a" using op Unregister True by simp
      ultimately show ?thesis
        using rebuild_fails [OF law _ bad(2), of name
            "sd\<lparr>sd_endpoints := (sd_endpoints sd)(name \<mapsto> filter (\<lambda>e. se_address e \<noteq> a) eps)\<rparr>"]
        by (auto simp: Unregister True unregister_def backends_of_def discover_def)
    next
      case False
      then show ?thesis
        by (simp add: Unregister unregister_def backends_of_def rebuild_other split: option.split)
    qed
  next
    case (Select n key)
    then show ?thesis
      using select_law [OF law]
      by (auto simp: backends_of_def select_with_key_def split: option.split prod.split)
  next
    case (Check_Health connect services)
    then show ?thesis by (simp add: check_all_services_same)
  qed
qed

text \<open>
  C28. One bad address freezes a service. While an endpoint whose address does not resolve is
  registered under a name, nothing that is registered or unregistered under that name has an effect
  on selection: the balancers keep the backends they had, endpoints since unregistered among them,
  and none of the new ones. No error is reported.
\<close>

theorem bad_address_freezes:
  assumes "balancer_law lib" and "bad \<in> set (map se_address (discover name sd))" and "bl_resolve lib bad = None"
    and "Unregister name bad \<notin> set ops"
  shows "backends_of lib s name (sd_run lib ops sd) = backends_of lib s name sd"
  using assms(2,4) unfolding sd_run_def
proof (induction ops arbitrary: sd)
  case (Cons oper ops)
  have "backends_of lib s name (sd_step lib oper sd) = backends_of lib s name sd"
    "bad \<in> set (map se_address (discover name (sd_step lib oper sd)))"
    using stuck_step [OF assms(1) Cons.prems(1) assms(3), of oper s] Cons.prems(2) by auto
  with Cons.IH [of "sd_step lib oper sd"] Cons.prems(2) show ?case by simp
qed simp

section \<open>A sample instance\<close>

text \<open>Balancers that go round; every address but one resolves, to itself.\<close>

definition sample_resolve :: "string \<Rightarrow> string list option" where
  "sample_resolve a = (if a = ''bad'' then None else Some [a])"

definition sample_lib :: "(string list, string) balancer_lib" where
  "sample_lib = \<lparr>bl_resolve = sample_resolve, bl_try_from_iter = (\<lambda>_. resolve_all sample_resolve),
     bl_backends = (\<lambda>lb. lb),
     bl_select = (\<lambda>key n lb. case lb of [] \<Rightarrow> (None, lb) | b # bs \<Rightarrow> (Some b, bs @ [b]))\<rparr>"

lemma sample_lib_law: "balancer_law sample_lib"
  by (auto simp: balancer_law_def sample_lib_def split: option.split list.split)

lemma select_registered_witness:
  "fst (select_with_key sample_lib ''s'' [] (sd_run sample_lib
      [Register (endpoint_new ''s'' ''a:1''), Register (endpoint_new ''s'' ''b:1''), Unregister ''s'' ''a:1'']
      (with_strategy ConsistentHash discovery_new))) = Some ''b:1''"
proof -
  have "all_resolve sample_lib
      [Register (endpoint_new ''s'' ''a:1''), Register (endpoint_new ''s'' ''b:1''), Unregister ''s'' ''a:1'']"
    by (simp add: all_resolve_def sample_lib_def sample_resolve_def endpoint_new_def)
  from select_registered [OF sample_lib_law this, of "''s''" "[]" ConsistentHash] show ?thesis
    by (simp add: registered_def endpoint_new_def sample_lib_def sample_resolve_def split: option.splits)
qed

text \<open>The endpoint \<open>a:1\<close> has been unregistered and is the only one that is selected.\<close>

lemma bad_address_freezes_witness:
  "backends_of sample_lib RoundRobin ''s'' (sd_run sample_lib [Register (endpoint_new ''s'' ''b:1''), Unregister ''s'' ''a:1'']
      (sd_run sample_lib [Register (endpoint_new ''s'' ''a:1''), Register (endpoint_new ''s'' ''bad'')] discovery_new))
    = Some {''a:1''}"
proof -
  let ?sd = "sd_run sample_lib [Register (endpoint_new ''s'' ''a:1''), Register (endpoint_new ''s'' ''bad'')] discovery_new"
  have "''bad'' \<in> set (map se_address (discover ''s'' ?sd))"
    by (simp add: run_endpoints del: set_map) (simp add: endpoint_new_def discover_def discovery_new_def)
  moreover have "backends_of sample_lib RoundRobin ''s'' ?sd = Some {''a:1''}"
    by (simp add: sd_run_def register_def rebuild_load_balancers_def discovery_new_def endpoint_new_def
        backends_of_def sample_lib_def sample_resolve_def Let_def)
  ultimately show ?thesis
    using bad_address_freezes [OF sample_lib_law, of "''bad''" "''s''" ?sd
        "[Register (endpoint_new ''s'' ''b:1''), Unregister ''s'' ''a:1'']" RoundRobin]
    by (simp add: sample_lib_def sample_resolve_def)
qed

end
