(* ===== verification/Grpc.thy ===== *)
theory Grpc
  imports Server
begin

text \<open>
  The gRPC bridge, \<^verbatim>\<open>src/src/grpc.rs\<close>: its configuration with the TLS settings from the environment,
  the start of the server, the service that translates between the generated message types of
  \<^verbatim>\<open>src/src/xprotocol.v1.rs\<close> and the messages of the framework, and the client. The transport
  (the crates \<^verbatim>\<open>tonic\<close> and \<^verbatim>\<open>prost\<close>) is a parameter: it carries calls to the service and
  their outcome back, when neither message is longer than the configured size.
\<close>

section \<open>Configuration\<close>

definition GRPC_MAX_MESSAGE_SIZE :: nat where "GRPC_MAX_MESSAGE_SIZE = 4 * 1024 * 1024"
definition HTTP2_KEEPALIVE_INTERVAL_SECS :: nat where "HTTP2_KEEPALIVE_INTERVAL_SECS = 10"
definition HTTP2_KEEPALIVE_TIMEOUT_SECS :: nat where "HTTP2_KEEPALIVE_TIMEOUT_SECS = 20"
definition TCP_KEEPALIVE_SECS :: nat where "TCP_KEEPALIVE_SECS = 60"
definition INITIAL_CONNECTION_WINDOW_SIZE :: nat where "INITIAL_CONNECTION_WINDOW_SIZE = 1024 * 1024"
definition INITIAL_STREAM_WINDOW_SIZE :: nat where "INITIAL_STREAM_WINDOW_SIZE = 512 * 1024"
definition MAX_CONCURRENT_STREAMS :: nat where "MAX_CONCURRENT_STREAMS = 200"

record grpc_config =
  gc_max_message_size :: nat
  gc_http2_keepalive_interval_secs :: nat
  gc_http2_keepalive_timeout_secs :: nat
  gc_tcp_keepalive_secs :: nat
  gc_tcp_nodelay :: bool
  gc_initial_connection_window_size :: nat
  gc_initial_stream_window_size :: nat
  gc_max_concurrent_streams :: nat

definition grpc_config_default :: grpc_config where
  "grpc_config_default =
     \<lparr>gc_max_message_size = GRPC_MAX_MESSAGE_SIZE,
      gc_http2_keepalive_interval_secs = HTTP2_KEEPALIVE_INTERVAL_SECS,
      gc_http2_keepalive_timeout_secs = HTTP2_KEEPALIVE_TIMEOUT_SECS,
      gc_tcp_keepalive_secs = TCP_KEEPALIVE_SECS, gc_tcp_nodelay = True,
      gc_initial_connection_window_size = INITIAL_CONNECTION_WINDOW_SIZE,
      gc_initial_stream_window_size = INITIAL_STREAM_WINDOW_SIZE,
      gc_max_concurrent_streams = MAX_CONCURRENT_STREAMS\<rparr>"

record grpc_tls_config =
  tls_enabled :: bool
  tls_cert_path :: "string option"
  tls_key_path :: "string option"

text \<open>From the variables of the environment.\<close>

definition tls_from_env :: "(string \<rightharpoonup> string) \<Rightarrow> grpc_tls_config" where
  "tls_from_env var =
     \<lparr>tls_enabled = (case var ''GRPC_TLS_ENABLED'' of
         Some v \<Rightarrow> v = ''true'' \<or> v = ''1'' \<or> v = ''yes'' | None \<Rightarrow> False),
      tls_cert_path = var ''GRPC_TLS_CERT_PATH'',
      tls_key_path = var ''GRPC_TLS_KEY_PATH''\<rparr>"

definition tls_validate :: "grpc_tls_config \<Rightarrow> unit result" where
  "tls_validate tls =
     (if tls_enabled tls then
        if tls_cert_path tls = None then
          Err (InvalidMessage ''GRPC_TLS_CERT_PATH is required when GRPC_TLS_ENABLED=true'')
        else if tls_key_path tls = None then
          Err (InvalidMessage ''GRPC_TLS_KEY_PATH is required when GRPC_TLS_ENABLED=true'')
        else Ok ()
      else Ok ())"

text \<open>
  The start of the server: the address is parsed, the TLS settings are validated, the listener is
  bound. The result is the listener with what the accepted connections are served with.
\<close>

definition serve_with_config :: "(string \<Rightarrow> string + 'addr) \<Rightarrow> ('addr \<Rightarrow> string + 'listener) \<Rightarrow> string
    \<Rightarrow> grpc_config \<Rightarrow> grpc_tls_config \<Rightarrow> ('listener \<times> grpc_config) result" where
  "serve_with_config parse bind addr config tls_config =
     (case parse addr of
        Inl e \<Rightarrow> Err (InvalidMessage e)
      | Inr addr \<Rightarrow>
          (case tls_validate tls_config of
             Inl e \<Rightarrow> Err e
           | Inr _ \<Rightarrow>
               (case bind addr of
                  Inl e \<Rightarrow> Err (ConnectionFailed e)
                | Inr listener \<Rightarrow> Ok (listener, config))))"

definition grpc_serve :: "(string \<rightharpoonup> string) \<Rightarrow> (string \<Rightarrow> string + 'addr) \<Rightarrow> ('addr \<Rightarrow> string + 'listener) \<Rightarrow> string
    \<Rightarrow> ('listener \<times> grpc_config) result" where
  "grpc_serve var parse bind addr = serve_with_config parse bind addr grpc_config_default (tls_from_env var)"

text \<open>
  What an accepted connection is served with, and what a client connects with: the settings
  handed to the library, times in seconds.
\<close>

record server_settings =
  ss_max_decoding_message_size :: nat
  ss_max_encoding_message_size :: nat
  ss_initial_connection_window_size :: nat
  ss_initial_stream_window_size :: nat
  ss_max_concurrent_streams :: nat
  ss_http2_keepalive_interval :: nat
  ss_http2_keepalive_timeout :: nat
  ss_tcp_keepalive :: nat
  ss_tcp_nodelay :: bool

definition connection_settings :: "grpc_config \<Rightarrow> server_settings" where
  "connection_settings config =
     \<lparr>ss_max_decoding_message_size = gc_max_message_size config,
      ss_max_encoding_message_size = gc_max_message_size config,
      ss_initial_connection_window_size = gc_initial_connection_window_size config,
      ss_initial_stream_window_size = gc_initial_stream_window_size config,
      ss_max_concurrent_streams = gc_max_concurrent_streams config,
      ss_http2_keepalive_interval = gc_http2_keepalive_interval_secs config,
      ss_http2_keepalive_timeout = gc_http2_keepalive_timeout_secs config,
      ss_tcp_keepalive = gc_tcp_keepalive_secs config, ss_tcp_nodelay = gc_tcp_nodelay config\<rparr>"

record endpoint_settings =
  es_uri :: string
  es_connect_timeout :: nat
  es_tcp_keepalive :: nat
  es_http2_adaptive_window :: bool
  es_initial_connection_window_size :: nat
  es_initial_stream_window_size :: nat

definition endpoint_of :: "string \<Rightarrow> grpc_config \<Rightarrow> endpoint_settings" where
  "endpoint_of addr config =
     \<lparr>es_uri = ''http://'' @ addr, es_connect_timeout = 10, es_tcp_keepalive = gc_tcp_keepalive_secs config,
      es_http2_adaptive_window = True,
      es_initial_connection_window_size = gc_initial_connection_window_size config,
      es_initial_stream_window_size = gc_initial_stream_window_size config\<rparr>"

text \<open>The client: its channel with the limits for messages. Both errors of the library are given by their texts.\<close>

definition connect_with_config :: "(string \<Rightarrow> string + unit) \<Rightarrow> (endpoint_settings \<Rightarrow> string + 'channel)
    \<Rightarrow> string \<Rightarrow> grpc_config \<Rightarrow> ('channel \<times> nat \<times> nat) result" where
  "connect_with_config parse dial addr config =
     (case parse (es_uri (endpoint_of addr config)) of
        Inl e \<Rightarrow> Err (ConnectionFailed e)
      | Inr _ \<Rightarrow>
          (case dial (endpoint_of addr config) of
             Inl e \<Rightarrow> Err (ConnectionFailed e)
           | Inr channel \<Rightarrow> Ok (channel, gc_max_message_size config, gc_max_message_size config)))"

definition grpc_connect :: "(string \<Rightarrow> string + unit) \<Rightarrow> (endpoint_settings \<Rightarrow> string + 'channel) \<Rightarrow> string
    \<Rightarrow> ('channel \<times> nat \<times> nat) result" where
  "grpc_connect parse dial addr = connect_with_config parse dial addr grpc_config_default"

section \<open>Messages\<close>

record grpc_request =
  gq_request_id :: string
  gq_correlation_id :: string
  gq_service_name :: string
  gq_method :: string
  gq_payload :: bytes
  gq_topic :: "string option"
  gq_metadata :: "(string \<rightharpoonup> string) option"
  gq_timestamp :: u64

record grpc_response =
  gr_request_id :: string
  gr_correlation_id :: string
  gr_status :: string
  gr_payload :: bytes
  gr_error :: "string option"
  gr_error_code :: "string option"
  gr_timestamp :: u64

datatype grpc_status = Invalid_Argument string | Internal string | Unknown_Status string | Other_Status string

type_synonym 's grpc_service = "grpc_request \<Rightarrow> 's \<Rightarrow> (grpc_status + grpc_response) \<times> 's"

section \<open>The service\<close>

definition value_of_bytes :: "json_codec \<Rightarrow> bytes \<Rightarrow> string + json" where
  "value_of_bytes cd bs = decode cd (\<lambda>j. Some (value_of j)) ''Value'' bs"

text \<open>\<open>now\<close>: the time stamp of the response.\<close>

definition grpc_service_call :: "json_codec \<Rightarrow> 's service_handler \<Rightarrow> u64 \<Rightarrow> 's grpc_service" where
  "grpc_service_call cd h now req s =
     (case value_of_bytes cd (gq_payload req) of
        Inl e \<Rightarrow> (Inl (Invalid_Argument (''invalid payload: '' @ e)), s)
      | Inr payload \<Rightarrow>
          let internal_request =
                \<lparr>rq_request_id = gq_request_id req, rq_correlation_id = gq_correlation_id req,
                 rq_service_name = gq_service_name req, rq_method = gq_method req,
                 rq_payload = payload, rq_topic = gq_topic req\<rparr>
          in (case sh_handle h internal_request s of
                (response, s) \<Rightarrow>
                  (Inr \<lparr>gr_request_id = rs_request_id response,
                        gr_correlation_id = rs_correlation_id response,
                        gr_status = rs_status response,
                        gr_payload = jc_to_vec cd (rs_payload response),
                        gr_error = rs_error response, gr_error_code = None,
                        gr_timestamp = now\<rparr>, s)))"

text \<open>The two streaming calls answer with an empty stream.\<close>

definition grpc_call_stream :: "(grpc_status + grpc_request) list \<Rightarrow> (grpc_status + grpc_response) list" where
  "grpc_call_stream requests = []"

definition grpc_call_server_stream :: "grpc_request \<Rightarrow> (grpc_status + grpc_response) list" where
  "grpc_call_server_stream request = []"

section \<open>The client\<close>

text \<open>
  The transport: the length of messages on the wire, the text of a status, and the carrying of a call
  to a service under a limit on the length of messages.
\<close>

record 's transport =
  tr_request_len :: "grpc_request \<Rightarrow> nat"
  tr_response_len :: "grpc_response \<Rightarrow> nat"
  tr_status_text :: "grpc_status \<Rightarrow> string"
  tr_carry :: "nat \<Rightarrow> 's grpc_service \<Rightarrow> 's grpc_service"

definition transport_law :: "'s transport \<Rightarrow> bool" where
  "transport_law tr \<longleftrightarrow> (\<forall>limit service req s.
     (if tr_request_len tr req > limit then
        (\<exists>status. tr_carry tr limit service req s = (Inl status, s))
      else case service req s of
        (Inr resp, s') \<Rightarrow>
          if tr_response_len tr resp > limit then \<exists>status. tr_carry tr limit service req s = (Inl status, s')
          else tr_carry tr limit service req s = (Inr resp, s')
      | (Inl status, s') \<Rightarrow> tr_carry tr limit service req s = (Inl status, s')))"

definition grpc_request_of :: "json_codec \<Rightarrow> u64 \<Rightarrow> service_request \<Rightarrow> grpc_request" where
  "grpc_request_of cd now request =
     \<lparr>gq_request_id = rq_request_id request, gq_correlation_id = rq_correlation_id request,
      gq_service_name = rq_service_name request, gq_method = rq_method request,
      gq_payload = jc_to_vec cd (rq_payload request), gq_topic = rq_topic request,
      gq_metadata = None, gq_timestamp = now\<rparr>"

definition grpc_client_call :: "json_codec \<Rightarrow> 's transport \<Rightarrow> grpc_config \<Rightarrow> 's grpc_service \<Rightarrow> u64 \<Rightarrow> service_request
    \<Rightarrow> ('s, service_response) action" where
  "grpc_client_call cd tr config service now request s =
     (case tr_carry tr (gc_max_message_size config) service (grpc_request_of cd now request) s of
        (Inl status, s) \<Rightarrow> (Err (ConnectionFailed (tr_status_text tr status)), s)
      | (Inr resp, s) \<Rightarrow>
          (case value_of_bytes cd (gr_payload resp) of
             Inl e \<Rightarrow> (Err (Encoding e), s)
           | Inr payload \<Rightarrow>
               (Ok \<lparr>rs_request_id = gr_request_id resp, rs_correlation_id = gr_correlation_id resp,
                    rs_status = gr_status resp, rs_payload = payload, rs_error = gr_error resp\<rparr>, s)))"

section \<open>What a call comes to\<close>

lemma value_of_bytes_to_vec:
  "codec_law cd \<Longrightarrow> is_value j \<Longrightarrow> readable j \<Longrightarrow> value_of_bytes cd (jc_to_vec cd j) = Inr j"
  by (simp add: value_of_bytes_def decode_def codec_lawD)

definition grpc_response_of :: "json_codec \<Rightarrow> u64 \<Rightarrow> service_response \<Rightarrow> grpc_response" where
  "grpc_response_of cd now response =
     \<lparr>gr_request_id = rs_request_id response, gr_correlation_id = rs_correlation_id response,
      gr_status = rs_status response, gr_payload = jc_to_vec cd (rs_payload response),
      gr_error = rs_error response, gr_error_code = None, gr_timestamp = now\<rparr>"

lemma service_call_request:
  assumes "codec_law cd" and "is_value (rq_payload r)" and "readable (rq_payload r)" and "sh_handle h r s = (x, s')"
  shows "grpc_service_call cd h now (grpc_request_of cd sent r) s = (Inr (grpc_response_of cd now x), s')"
proof -
  have "value_of_bytes cd (gq_payload (grpc_request_of cd sent r)) = Inr (rq_payload r)"
    using assms(1-3) by (simp add: grpc_request_of_def value_of_bytes_to_vec)
  then show ?thesis
    using assms(4) by (cases r) (simp add: grpc_service_call_def grpc_request_of_def grpc_response_of_def Let_def)
qed

text \<open>
  A call over gRPC. With a payload and a response that JSON can carry, a call has one of three
  outcomes, decided by the lengths of the two messages: a request over the limit fails and the
  service handler is not run; a response over the limit fails after the handler has run; otherwise
  the call returns exactly what the handler returns for exactly this request, all six fields of it
  and all five of the response unchanged.
\<close>

theorem grpc_call_outcome:
  assumes "codec_law cd" and "transport_law tr"
    and "is_value (rq_payload r)" and "readable (rq_payload r)"
    and "sh_handle h r s = (x, s')" and "is_value (rs_payload x)" and "readable (rs_payload x)"
  shows "let limit = gc_max_message_size config;
             outcome = grpc_client_call cd tr config (grpc_service_call cd h now) sent r s
         in if tr_request_len tr (grpc_request_of cd sent r) > limit
              then \<exists>e. outcome = (Err (ConnectionFailed e), s)
            else if tr_response_len tr (grpc_response_of cd now x) > limit
              then \<exists>e. outcome = (Err (ConnectionFailed e), s')
            else outcome = (Ok x, s')"
proof -
  let ?limit = "gc_max_message_size config" and ?q = "grpc_request_of cd sent r" and ?y = "grpc_response_of cd now x"
  have service: "grpc_service_call cd h now ?q s = (Inr ?y, s')"
    using assms by (intro service_call_request)
  have payload: "value_of_bytes cd (gr_payload ?y) = Inr (rs_payload x)"
    using assms by (simp add: grpc_response_of_def value_of_bytes_to_vec)
  consider (long_request) status where "tr_request_len tr ?q > ?limit"
      "tr_carry tr ?limit (grpc_service_call cd h now) ?q s = (Inl status, s)"
    | (long_response) status where "\<not> tr_request_len tr ?q > ?limit" "tr_response_len tr ?y > ?limit"
      "tr_carry tr ?limit (grpc_service_call cd h now) ?q s = (Inl status, s')"
    | (carried) "\<not> tr_request_len tr ?q > ?limit" "\<not> tr_response_len tr ?y > ?limit"
      "tr_carry tr ?limit (grpc_service_call cd h now) ?q s = (Inr ?y, s')"
    using assms(2) [unfolded transport_law_def, rule_format, of ?limit ?q "grpc_service_call cd h now" s] service
    by (auto split: if_splits)
  then show ?thesis
  proof cases
    case long_request
    then show ?thesis by (simp add: grpc_client_call_def)
  next
    case long_response
    then show ?thesis by (simp add: grpc_client_call_def)
  next
    case carried
    then show ?thesis using payload by (simp add: grpc_client_call_def) (simp add: grpc_response_of_def)
  qed
qed

text \<open>A transport that obeys the law, on which the theorem is evaluated.\<close>

definition sample_transport :: "'s transport" where
  "sample_transport = \<lparr>tr_request_len = (\<lambda>q. length (gq_payload q)), tr_response_len = (\<lambda>y. length (gr_payload y)),
     tr_status_text = (\<lambda>_. ''status''),
     tr_carry = (\<lambda>limit service q s.
       if length (gq_payload q) > limit then (Inl (Other_Status ''too large''), s)
       else case service q s of
         (Inr y, s') \<Rightarrow> if length (gr_payload y) > limit then (Inl (Other_Status ''too large''), s') else (Inr y, s')
       | (Inl status, s') \<Rightarrow> (Inl status, s'))\<rparr>"

lemma sample_transport_law: "transport_law sample_transport"
  by (auto simp: transport_law_def sample_transport_def split: prod.split sum.split)

theorem grpc_call_outcome_witness:
  "grpc_client_call tagged sample_transport grpc_config_default (grpc_service_call tagged sample_handler 0) 0
      (sample_request ''1'') 0
    = (Ok (response_success (sample_request ''1'') (JStr ''hi'')), 0)"
proof -
  let ?r = "sample_request ''1''" and ?x = "response_success (sample_request ''1'') (JStr ''hi'')"
  have "is_value (rq_payload ?r)" "readable (rq_payload ?r)" "sh_handle sample_handler ?r 0 = (?x, 0)"
    "is_value (rs_payload ?x)" "readable (rs_payload ?x)"
    by (simp_all add: sample_defs readable_def utf8_def)
  from grpc_call_outcome [OF tagged_law sample_transport_law this, of grpc_config_default 0 0] show ?thesis
    by (simp add: sample_transport_def grpc_request_of_def grpc_response_of_def grpc_config_default_def
        GRPC_MAX_MESSAGE_SIZE_def sample_defs Let_def)
qed

section \<open>TLS\<close>

text \<open>
  TLS is never used. The settings are valid exactly when TLS is off or both paths are given. With
  valid settings the server starts exactly as it does with TLS off: nothing of the settings reaches the
  connections it accepts. With others it does not start.
\<close>

theorem grpc_tls_unused:
  "(is_ok (tls_validate tls) \<longleftrightarrow>
      (if tls_enabled tls then tls_cert_path tls \<noteq> None \<and> tls_key_path tls \<noteq> None else True))
   \<and> (if is_ok (tls_validate tls)
      then serve_with_config parse bind addr config tls
         = serve_with_config parse bind addr config \<lparr>tls_enabled = False, tls_cert_path = None, tls_key_path = None\<rparr>
      else \<exists>text. serve_with_config parse bind addr config tls = Err (InvalidMessage text))"
  by (auto simp: tls_validate_def serve_with_config_def split: sum.split)

end
