(* ===== verification/Grpc_Codegen.thy ===== *)
theory Grpc_Codegen
  imports Grpc
begin

text \<open>
  The code of \<^verbatim>\<open>src/src/xprotocol.v1.rs\<close>: message types, the client with its three methods, the server
  that routes the path of an HTTP request to a method of the service; and what \<^verbatim>\<open>src/src/grpc.rs\<close>
  makes of them: the service behind the wrapper, the server of each accepted connection, the client. The
  crate \<^verbatim>\<open>tonic\<close> is a parameter: its channel with the settings, its handling of a call on either
  side. What the code relies on is named: a call made through the one side and handled by the other,
  over the same path, is the call of the method, within the limits on the length of messages.
\<close>

section \<open>Message types\<close>

record stream_chunk =
  ck_request_id :: string
  ck_chunk_index :: u32
  ck_payload :: bytes
  ck_is_final :: bool

record grpc_stream_request =
  gs_initial_request :: "grpc_request option"
  gs_mode :: "32 word" \<comment> \<open>the number of a mode\<close>

datatype grpc_stream_message = Chunk stream_chunk | Final_Response grpc_response

record grpc_stream_response =
  gp_message :: "grpc_stream_message option"

datatype grpc_stream_mode = Unspecified | Mode_Messages | Mode_Values | Mode_Updates

definition mode_number :: "grpc_stream_mode \<Rightarrow> 32 word" where
  "mode_number m = (case m of Unspecified \<Rightarrow> 0 | Mode_Messages \<Rightarrow> 1 | Mode_Values \<Rightarrow> 2 | Mode_Updates \<Rightarrow> 3)"

definition as_str_name :: "grpc_stream_mode \<Rightarrow> string" where
  "as_str_name m = (case m of
       Unspecified \<Rightarrow> ''STREAM_MODE_UNSPECIFIED''
     | Mode_Messages \<Rightarrow> ''STREAM_MODE_MESSAGES''
     | Mode_Values \<Rightarrow> ''STREAM_MODE_VALUES''
     | Mode_Updates \<Rightarrow> ''STREAM_MODE_UPDATES'')"

definition from_str_name :: "string \<Rightarrow> grpc_stream_mode option" where
  "from_str_name s =
     (if s = ''STREAM_MODE_UNSPECIFIED'' then Some Unspecified
      else if s = ''STREAM_MODE_MESSAGES'' then Some Mode_Messages
      else if s = ''STREAM_MODE_VALUES'' then Some Mode_Values
      else if s = ''STREAM_MODE_UPDATES'' then Some Mode_Updates
      else None)"

lemma mode_name_round_trip: "from_str_name s = Some m \<longleftrightarrow> as_str_name m = s"
  by (cases m) (auto simp: from_str_name_def as_str_name_def)

section \<open>The library\<close>

record 'b http_request =
  ht_path :: string
  ht_body :: 'b

record 'b http_response =
  hp_status :: nat
  hp_headers :: "(string \<times> string) list"
  hp_body :: 'b

text \<open>An HTTP service, acting on the state of the world: what a channel leads to, and what a server is.\<close>

type_synonym ('b, 's) http_service = "'b http_request \<Rightarrow> 's \<Rightarrow> 'b http_response \<times> 's"

text \<open>The outcome of a method that answers with one message or with a stream of them.\<close>

type_synonym 's streamed = "'s \<Rightarrow> (grpc_status + (grpc_status + grpc_response) list) \<times> 's"

text \<open>
  The side of the client: \<open>'g\<close> is its \<^verbatim>\<open>Grpc\<close>, a channel with settings; each call names
  the path and the method. The side of the server: the enabled encodings \<open>'es\<close>, and its \<^verbatim>\<open>Grpc\<close>, which
  under given settings handles an HTTP request with a method.
\<close>

record 'es server_handling =
  hd_accept :: 'es
  hd_send :: 'es
  hd_max_decoding :: "nat option"
  hd_max_encoding :: "nat option"

record ('g, 'b, 's, 'es, 'e) tonic =
  tc_new :: "('b, 's) http_service \<Rightarrow> 'g"
  tc_with_origin :: "('b, 's) http_service \<Rightarrow> string \<Rightarrow> 'g"
  tc_send_compressed :: "'e \<Rightarrow> 'g \<Rightarrow> 'g"
  tc_accept_compressed :: "'e \<Rightarrow> 'g \<Rightarrow> 'g"
  tc_max_decoding :: "nat \<Rightarrow> 'g \<Rightarrow> 'g"
  tc_max_encoding :: "nat \<Rightarrow> 'g \<Rightarrow> 'g"
  tc_ready :: "'g \<Rightarrow> 's \<Rightarrow> (string + unit) \<times> 's"
  tc_unary :: "'g \<Rightarrow> string \<Rightarrow> string \<times> string \<Rightarrow> grpc_request \<Rightarrow> 's \<Rightarrow> (grpc_status + grpc_response) \<times> 's"
  tc_streaming :: "'g \<Rightarrow> string \<Rightarrow> string \<times> string \<Rightarrow> grpc_request list \<Rightarrow> 's streamed"
  tc_server_streaming :: "'g \<Rightarrow> string \<Rightarrow> string \<times> string \<Rightarrow> grpc_request \<Rightarrow> 's streamed"
  ts_none :: 'es
  ts_enable :: "'e \<Rightarrow> 'es \<Rightarrow> 'es"
  ts_unary :: "'es server_handling \<Rightarrow> 's grpc_service \<Rightarrow> ('b, 's) http_service"
  ts_streaming :: "'es server_handling \<Rightarrow> ((grpc_status + grpc_request) list \<Rightarrow> 's streamed) \<Rightarrow> ('b, 's) http_service"
  ts_server_streaming :: "'es server_handling \<Rightarrow> (grpc_request \<Rightarrow> 's streamed) \<Rightarrow> ('b, 's) http_service"
  ts_empty_body :: 'b
  tl_request_len :: "grpc_request \<Rightarrow> nat"
  tl_response_len :: "grpc_response \<Rightarrow> nat"

section \<open>The client\<close>

record 'g service_client =
  sc_inner :: 'g

definition client_new :: "('g, 'b, 's, 'es, 'e) tonic \<Rightarrow> ('b, 's) http_service \<Rightarrow> 'g service_client" where
  "client_new tn ch = \<lparr>sc_inner = tc_new tn ch\<rparr>"

definition client_with_origin :: "('g, 'b, 's, 'es, 'e) tonic \<Rightarrow> ('b, 's) http_service \<Rightarrow> string \<Rightarrow> 'g service_client" where
  "client_with_origin tn ch origin = \<lparr>sc_inner = tc_with_origin tn ch origin\<rparr>"

definition client_with_interceptor :: "('g, 'b, 's, 'es, 'e) tonic \<Rightarrow> (('b, 's) http_service \<Rightarrow> 'f \<Rightarrow> ('b, 's) http_service)
    \<Rightarrow> ('b, 's) http_service \<Rightarrow> 'f \<Rightarrow> 'g service_client" where
  "client_with_interceptor tn intercepted ch f = client_new tn (intercepted ch f)"

text \<open>\<^verbatim>\<open>connect\<close>: the endpoint from its destination, then its connection; both errors are the library's.\<close>

definition client_connect :: "('g, 'b, 's, 'es, 'e) tonic \<Rightarrow> ('d \<Rightarrow> 'err + 'ep) \<Rightarrow> ('ep \<Rightarrow> 'err + ('b, 's) http_service) \<Rightarrow> 'd
    \<Rightarrow> 'err + 'g service_client" where
  "client_connect tn endpoint dial dst =
     (case endpoint dst of Inl e \<Rightarrow> Inl e
      | Inr ep \<Rightarrow> (case dial ep of Inl e \<Rightarrow> Inl e | Inr conn \<Rightarrow> Inr (client_new tn conn)))"

definition client_send_compressed :: "('g, 'b, 's, 'es, 'e) tonic \<Rightarrow> 'e \<Rightarrow> 'g service_client \<Rightarrow> 'g service_client" where
  "client_send_compressed tn encoding c = c\<lparr>sc_inner := tc_send_compressed tn encoding (sc_inner c)\<rparr>"

definition client_accept_compressed :: "('g, 'b, 's, 'es, 'e) tonic \<Rightarrow> 'e \<Rightarrow> 'g service_client \<Rightarrow> 'g service_client" where
  "client_accept_compressed tn encoding c = c\<lparr>sc_inner := tc_accept_compressed tn encoding (sc_inner c)\<rparr>"

definition client_max_decoding :: "('g, 'b, 's, 'es, 'e) tonic \<Rightarrow> nat \<Rightarrow> 'g service_client \<Rightarrow> 'g service_client" where
  "client_max_decoding tn limit c = c\<lparr>sc_inner := tc_max_decoding tn limit (sc_inner c)\<rparr>"

definition client_max_encoding :: "('g, 'b, 's, 'es, 'e) tonic \<Rightarrow> nat \<Rightarrow> 'g service_client \<Rightarrow> 'g service_client" where
  "client_max_encoding tn limit c = c\<lparr>sc_inner := tc_max_encoding tn limit (sc_inner c)\<rparr>"

text \<open>Each method waits until the channel is ready, then makes its call on its path.\<close>

definition when_ready :: "('g, 'b, 's, 'es, 'e) tonic \<Rightarrow> 'g service_client
    \<Rightarrow> ('s \<Rightarrow> (grpc_status + 'a) \<times> 's) \<Rightarrow> 's \<Rightarrow> (grpc_status + 'a) \<times> 's" where
  "when_ready tn c go s =
     (case tc_ready tn (sc_inner c) s of
        (Inl e, s) \<Rightarrow> (Inl (Unknown_Status (''Service was not ready: '' @ e)), s)
      | (Inr _, s) \<Rightarrow> go s)"

definition client_call :: "('g, 'b, 's, 'es, 'e) tonic \<Rightarrow> 'g service_client \<Rightarrow> grpc_request \<Rightarrow> 's
    \<Rightarrow> (grpc_status + grpc_response) \<times> 's" where
  "client_call tn c request =
     when_ready tn c (tc_unary tn (sc_inner c) ''/xprotocol.v1.Service/Call'' (''xprotocol.v1.Service'', ''Call'') request)"

definition client_call_stream :: "('g, 'b, 's, 'es, 'e) tonic \<Rightarrow> 'g service_client \<Rightarrow> grpc_request list \<Rightarrow> 's streamed" where
  "client_call_stream tn c requests =
     when_ready tn c (tc_streaming tn (sc_inner c) ''/xprotocol.v1.Service/CallStream'' (''xprotocol.v1.Service'', ''CallStream'') requests)"

definition client_call_server_stream :: "('g, 'b, 's, 'es, 'e) tonic \<Rightarrow> 'g service_client \<Rightarrow> grpc_request \<Rightarrow> 's streamed" where
  "client_call_server_stream tn c request =
     when_ready tn c (tc_server_streaming tn (sc_inner c) ''/xprotocol.v1.Service/CallServerStream''
       (''xprotocol.v1.Service'', ''CallServerStream'') request)"

section \<open>The server\<close>

text \<open>The trait that a service implements.\<close>

record 's grpc_trait =
  gt_call :: "'s grpc_service"
  gt_call_stream :: "(grpc_status + grpc_request) list \<Rightarrow> 's streamed"
  gt_call_server_stream :: "grpc_request \<Rightarrow> 's streamed"

record ('s, 'es) service_server =
  sv_inner :: "'s grpc_trait"
  sv_accept :: 'es
  sv_send :: 'es
  sv_max_decoding :: "nat option"
  sv_max_encoding :: "nat option"

definition server_new :: "('g, 'b, 's, 'es, 'e) tonic \<Rightarrow> 's grpc_trait \<Rightarrow> ('s, 'es) service_server" where
  "server_new tn inner = \<lparr>sv_inner = inner, sv_accept = ts_none tn, sv_send = ts_none tn,
     sv_max_decoding = None, sv_max_encoding = None\<rparr>"

definition server_with_interceptor :: "('g, 'b, 's, 'es, 'e) tonic \<Rightarrow> (('s, 'es) service_server \<Rightarrow> 'f \<Rightarrow> 'i) \<Rightarrow> 's grpc_trait \<Rightarrow> 'f \<Rightarrow> 'i" where
  "server_with_interceptor tn intercepted inner f = intercepted (server_new tn inner) f"

definition server_accept_compressed :: "('g, 'b, 's, 'es, 'e) tonic \<Rightarrow> 'e \<Rightarrow> ('s, 'es) service_server \<Rightarrow> ('s, 'es) service_server" where
  "server_accept_compressed tn encoding sv = sv\<lparr>sv_accept := ts_enable tn encoding (sv_accept sv)\<rparr>"

definition server_send_compressed :: "('g, 'b, 's, 'es, 'e) tonic \<Rightarrow> 'e \<Rightarrow> ('s, 'es) service_server \<Rightarrow> ('s, 'es) service_server" where
  "server_send_compressed tn encoding sv = sv\<lparr>sv_send := ts_enable tn encoding (sv_send sv)\<rparr>"

definition server_max_decoding :: "nat \<Rightarrow> ('s, 'es) service_server \<Rightarrow> ('s, 'es) service_server" where
  "server_max_decoding limit sv = sv\<lparr>sv_max_decoding := Some limit\<rparr>"

definition server_max_encoding :: "nat \<Rightarrow> ('s, 'es) service_server \<Rightarrow> ('s, 'es) service_server" where
  "server_max_encoding limit sv = sv\<lparr>sv_max_encoding := Some limit\<rparr>"

definition server_poll_ready :: "('s, 'es) service_server \<Rightarrow> 'err + unit" where
  "server_poll_ready sv = Inr ()"

text \<open>The settings of the server are applied to the library's \<^verbatim>\<open>Grpc\<close> for each request.\<close>

definition handling_of :: "('s, 'es) service_server \<Rightarrow> 'es server_handling" where
  "handling_of sv = \<lparr>hd_accept = sv_accept sv, hd_send = sv_send sv,
     hd_max_decoding = sv_max_decoding sv, hd_max_encoding = sv_max_encoding sv\<rparr>"

definition server_call :: "('g, 'b, 's, 'es, 'e) tonic \<Rightarrow> ('s, 'es) service_server \<Rightarrow> ('b, 's) http_service" where
  "server_call tn sv req s =
     (if ht_path req = ''/xprotocol.v1.Service/Call'' then
        ts_unary tn (handling_of sv) (gt_call (sv_inner sv)) req s
      else if ht_path req = ''/xprotocol.v1.Service/CallStream'' then
        ts_streaming tn (handling_of sv) (gt_call_stream (sv_inner sv)) req s
      else if ht_path req = ''/xprotocol.v1.Service/CallServerStream'' then
        ts_server_streaming tn (handling_of sv) (gt_call_server_stream (sv_inner sv)) req s
      else
        (\<lparr>hp_status = 200, hp_headers = [(''grpc-status'', ''12''), (''content-type'', ''application/grpc'')],
          hp_body = ts_empty_body tn\<rparr>, s))"

definition SERVICE_NAME :: string where "SERVICE_NAME = ''xprotocol.v1.Service''"

section \<open>What the bridge makes of them\<close>

definition current_timestamp :: "duration option \<Rightarrow> u64" where
  "current_timestamp since_epoch = (case since_epoch of Some d \<Rightarrow> as_millis_u64 d | None \<Rightarrow> 0)"

text \<open>The service behind the wrapper; its two streaming methods answer with the empty stream.\<close>

definition grpc_wrapper :: "json_codec \<Rightarrow> 's service_handler \<Rightarrow> duration option \<Rightarrow> 's grpc_trait" where
  "grpc_wrapper cd h since_epoch =
     \<lparr>gt_call = grpc_service_call cd h (current_timestamp since_epoch),
      gt_call_stream = (\<lambda>requests s. (Inr (grpc_call_stream requests), s)),
      gt_call_server_stream = (\<lambda>request s. (Inr (grpc_call_server_stream request), s))\<rparr>"

definition bridge_server :: "('g, 'b, 's, 'es, 'e) tonic \<Rightarrow> grpc_config \<Rightarrow> 's grpc_trait \<Rightarrow> ('s, 'es) service_server" where
  "bridge_server tn config service =
     server_max_encoding (gc_max_message_size config) (server_max_decoding (gc_max_message_size config) (server_new tn service))"

definition bridge_client :: "('g, 'b, 's, 'es, 'e) tonic \<Rightarrow> grpc_config \<Rightarrow> ('b, 's) http_service \<Rightarrow> 'g service_client" where
  "bridge_client tn config channel =
     client_max_encoding tn (gc_max_message_size config) (client_max_decoding tn (gc_max_message_size config) (client_new tn channel))"

text \<open>The accept loop: each accepted stream is served by a server of its own; an error is logged.\<close>

fun grpc_accepts :: "('g, 'b, 's, 'es, 'e) tonic \<Rightarrow> grpc_config \<Rightarrow> 's grpc_trait \<Rightarrow> (string + 'stream) list
    \<Rightarrow> ('stream \<times> server_settings \<times> ('s, 'es) service_server) list" where
  "grpc_accepts tn config service [] = []"
| "grpc_accepts tn config service (Inr stream # rest) =
     (stream, connection_settings config, bridge_server tn config service) # grpc_accepts tn config service rest"
| "grpc_accepts tn config service (Inl e # rest) = grpc_accepts tn config service rest"

section \<open>What the code relies on\<close>

text \<open>
  Documented behaviour of the library, for a client and a server with the same limit on the length of messages and
  no compression: a connected channel is ready; a call on a path that the other end handles with a method
  is the call of the method, unless a message is over the limit.
\<close>

definition plain_client :: "('g, 'b, 's, 'es, 'e) tonic \<Rightarrow> nat \<Rightarrow> ('b, 's) http_service \<Rightarrow> 'g" where
  "plain_client tn limit ch = tc_max_encoding tn limit (tc_max_decoding tn limit (tc_new tn ch))"

definition plain_handling :: "('g, 'b, 's, 'es, 'e) tonic \<Rightarrow> nat \<Rightarrow> 'es server_handling" where
  "plain_handling tn limit = \<lparr>hd_accept = ts_none tn, hd_send = ts_none tn, hd_max_decoding = Some limit, hd_max_encoding = Some limit\<rparr>"

definition leads_to :: "('b, 's) http_service \<Rightarrow> string \<Rightarrow> ('b, 's) http_service \<Rightarrow> bool" where
  "leads_to ch path service \<longleftrightarrow> (\<forall>req s. ht_path req = path \<longrightarrow> ch req s = service req s)"

definition carried :: "('g, 'b, 's, 'es, 'e) tonic \<Rightarrow> nat \<Rightarrow> 's grpc_service \<Rightarrow> grpc_request \<Rightarrow> 's
    \<Rightarrow> (grpc_status + grpc_response) \<times> 's \<Rightarrow> bool" where
  "carried tn limit service req s outcome \<longleftrightarrow>
     (if tl_request_len tn req > limit then \<exists>status. outcome = (Inl status, s)
      else case service req s of
        (Inr resp, s') \<Rightarrow>
          if tl_response_len tn resp > limit then \<exists>status. outcome = (Inl status, s') else outcome = (Inr resp, s')
      | (Inl status, s') \<Rightarrow> outcome = (Inl status, s'))"

definition short_stream :: "('g, 'b, 's, 'es, 'e) tonic \<Rightarrow> nat \<Rightarrow> (grpc_status + (grpc_status + grpc_response) list) \<times> 's \<Rightarrow> bool" where
  "short_stream tn limit outcome = (case fst outcome of Inl _ \<Rightarrow> True
     | Inr items \<Rightarrow> list_all (\<lambda>i. case i of Inl _ \<Rightarrow> True | Inr y \<Rightarrow> tl_response_len tn y \<le> limit) items)"

definition tonic_law :: "('g, 'b, 's, 'es, 'e) tonic \<Rightarrow> bool" where
  "tonic_law tn \<longleftrightarrow>
     (\<forall>limit ch s. tc_ready tn (plain_client tn limit ch) s = (Inr (), s))
   \<and> (\<forall>limit ch path meth service q s. leads_to ch path (ts_unary tn (plain_handling tn limit) service) \<longrightarrow>
        carried tn limit service q s (tc_unary tn (plain_client tn limit ch) path meth q s))
   \<and> (\<forall>limit ch path meth service qs s. leads_to ch path (ts_streaming tn (plain_handling tn limit) service) \<longrightarrow>
        list_all (\<lambda>q. tl_request_len tn q \<le> limit) qs \<longrightarrow> short_stream tn limit (service (map Inr qs) s) \<longrightarrow>
        tc_streaming tn (plain_client tn limit ch) path meth qs s = service (map Inr qs) s)
   \<and> (\<forall>limit ch path meth service q s. leads_to ch path (ts_server_streaming tn (plain_handling tn limit) service) \<longrightarrow>
        tl_request_len tn q \<le> limit \<longrightarrow> short_stream tn limit (service q s) \<longrightarrow>
        tc_server_streaming tn (plain_client tn limit ch) path meth q s = service q s)"

section \<open>Client and server meet\<close>

lemma bridge_client_inner: "sc_inner (bridge_client tn config ch) = plain_client tn (gc_max_message_size config) ch"
  by (simp add: bridge_client_def client_max_encoding_def client_max_decoding_def client_new_def plain_client_def)

lemma bridge_server_handling:
  "handling_of (bridge_server tn config service) = plain_handling tn (gc_max_message_size config)"
  "sv_inner (bridge_server tn config service) = service"
  by (simp_all add: handling_of_def bridge_server_def server_max_encoding_def server_max_decoding_def server_new_def plain_handling_def)

lemma server_routes:
  "leads_to (server_call tn sv) ''/xprotocol.v1.Service/Call'' (ts_unary tn (handling_of sv) (gt_call (sv_inner sv)))"
  "leads_to (server_call tn sv) ''/xprotocol.v1.Service/CallStream'' (ts_streaming tn (handling_of sv) (gt_call_stream (sv_inner sv)))"
  "leads_to (server_call tn sv) ''/xprotocol.v1.Service/CallServerStream''
     (ts_server_streaming tn (handling_of sv) (gt_call_server_stream (sv_inner sv)))"
  by (simp_all add: leads_to_def server_call_def)

lemma when_ready_law: "tonic_law tn \<Longrightarrow> when_ready tn (bridge_client tn config ch) go s = go s"
  by (simp add: when_ready_def bridge_client_inner tonic_law_def)

lemma bridged_call:
  assumes "tonic_law tn"
  shows "carried tn (gc_max_message_size config) (gt_call service) q s
    (client_call tn (bridge_client tn config (server_call tn (bridge_server tn config service))) q s)"
  using server_routes(1) [of tn "bridge_server tn config service"] assms
  unfolding client_call_def when_ready_law [OF assms] bridge_client_inner bridge_server_handling
  by (simp add: tonic_law_def)

text \<open>A path of none of the three methods.\<close>

lemma other_path_unimplemented:
  "ht_path req \<notin> {''/xprotocol.v1.Service/Call'', ''/xprotocol.v1.Service/CallStream'', ''/xprotocol.v1.Service/CallServerStream''} \<Longrightarrow>
    snd (server_call tn sv req s) = s \<and> map_of (hp_headers (fst (server_call tn sv req s))) ''grpc-status'' = Some ''12''"
  by (simp add: server_call_def)

text \<open>
  C24. The three methods meet. Between a client and a server as the bridge makes them, with
  one limit on the length of messages, which no message of the calls exceeds, each of the client's three methods is the
  method of this name of the service, with the same messages: the paths, the kinds of calls and
  the settings of the two sides agree. A request for any other path is answered with the status for
  an unimplemented method, and the service is not called.
\<close>

theorem generated_methods_meet:
  assumes "tonic_law tn"
    and "list_all (\<lambda>q. tl_request_len tn q \<le> gc_max_message_size config) (q # qs)"
    and "case gt_call service q s of (r, _) \<Rightarrow> short_stream tn (gc_max_message_size config) (map_sum id (\<lambda>y. [Inr y]) r, s)"
    and "short_stream tn (gc_max_message_size config) (gt_call_stream service (map Inr qs) s)"
    and "short_stream tn (gc_max_message_size config) (gt_call_server_stream service q s)"
  shows "let sv = bridge_server tn config service; cl = bridge_client tn config (server_call tn sv) in
      client_call tn cl q s = gt_call service q s
      \<and> client_call_stream tn cl qs s = gt_call_stream service (map Inr qs) s
      \<and> client_call_server_stream tn cl q s = gt_call_server_stream service q s
      \<and> (ht_path other \<notin> {''/xprotocol.v1.Service/Call'', ''/xprotocol.v1.Service/CallStream'', ''/xprotocol.v1.Service/CallServerStream''} \<longrightarrow>
          snd (server_call tn sv other s) = s \<and> map_of (hp_headers (fst (server_call tn sv other s))) ''grpc-status'' = Some ''12'')"
proof -
  let ?sv = "bridge_server tn config service"
  let ?cl = "bridge_client tn config (server_call tn ?sv)"
  note sides = when_ready_law [OF assms(1)] bridge_client_inner bridge_server_handling
  have "client_call tn ?cl q s = gt_call service q s"
    using bridged_call [OF assms(1), of config service q s] assms(2,3)
    by (auto simp: carried_def short_stream_def split: prod.splits sum.splits)
  moreover have "client_call_stream tn ?cl qs s = gt_call_stream service (map Inr qs) s"
    using server_routes(2) [of tn ?sv] assms(1,2,4)
    unfolding client_call_stream_def sides by (simp add: tonic_law_def)
  moreover have "client_call_server_stream tn ?cl q s = gt_call_server_stream service q s"
    using server_routes(3) [of tn ?sv] assms(1,2,5)
    unfolding client_call_server_stream_def sides by (simp add: tonic_law_def)
  ultimately show ?thesis using other_path_unimplemented [of other tn ?sv s] by (simp add: Let_def)
qed

text \<open>The transport of \<open>Grpc\<close> made of the generated client and server obeys the law that is asked of it there.\<close>

definition bare_service :: "'s grpc_service \<Rightarrow> 's grpc_trait" where
  "bare_service call = \<lparr>gt_call = call, gt_call_stream = (\<lambda>_ s. (Inr [], s)), gt_call_server_stream = (\<lambda>_ s. (Inr [], s))\<rparr>"

definition generated_transport :: "('g, 'b, 's, 'es, 'e) tonic \<Rightarrow> (grpc_status \<Rightarrow> string) \<Rightarrow> 's transport" where
  "generated_transport tn shown =
     \<lparr>tr_request_len = tl_request_len tn, tr_response_len = tl_response_len tn, tr_status_text = shown,
      tr_carry = (\<lambda>limit service.
        let config = grpc_config_default\<lparr>gc_max_message_size := limit\<rparr> in
        client_call tn (bridge_client tn config (server_call tn (bridge_server tn config (bare_service service)))))\<rparr>"

lemma gt_call_bare [simp]: "gt_call (bare_service call) = call"
  by (simp add: bare_service_def)

lemma generated_transport_lens [simp]:
  "tr_request_len (generated_transport tn shown) = tl_request_len tn"
  "tr_response_len (generated_transport tn shown) = tl_response_len tn"
  by (simp_all add: generated_transport_def)

lemma generated_transport_carries:
  assumes "tonic_law tn"
  shows "carried tn limit service req s (tr_carry (generated_transport tn shown) limit service req s)"
  using bridged_call [OF assms, of "grpc_config_default\<lparr>gc_max_message_size := limit\<rparr>" "bare_service service" req s]
  by (simp add: generated_transport_def Let_def)

lemma generated_transport_law: "tonic_law tn \<Longrightarrow> transport_law (generated_transport tn shown)"
  using generated_transport_carries [of tn _ _ _ _ shown]
  unfolding transport_law_def carried_def by (simp only: generated_transport_lens) blast

text \<open>
  C25. A call over gRPC. Over the generated client and server, on a library that carries calls, a call with
  a payload and a response that JSON can carry has one of three
  outcomes, decided by the lengths of the two messages: a request over the limit fails and the
  service handler is not run; a response over the limit fails after the handler has run; otherwise
  the call returns exactly what the handler returns for exactly this request, all six fields of it
  and all five of the response unchanged.
\<close>

theorem grpc_call_end_to_end:
  assumes "codec_law cd" and "tonic_law tn"
    and "is_value (rq_payload r)" and "readable (rq_payload r)"
    and "sh_handle h r s = (x, s')" and "is_value (rs_payload x)" and "readable (rs_payload x)"
  shows "let limit = gc_max_message_size config;
             outcome = grpc_client_call cd (generated_transport tn shown) config
               (gt_call (grpc_wrapper cd h since_epoch)) sent r s
         in if tl_request_len tn (grpc_request_of cd sent r) > limit
              then \<exists>e. outcome = (Err (ConnectionFailed e), s)
            else if tl_response_len tn (grpc_response_of cd (current_timestamp since_epoch) x) > limit
              then \<exists>e. outcome = (Err (ConnectionFailed e), s')
            else outcome = (Ok x, s')"
  using grpc_call_outcome [OF assms(1) generated_transport_law [OF assms(2), of shown] assms(3-7), where config = config
      and now = "current_timestamp since_epoch" and sent = sent]
  unfolding generated_transport_lens grpc_wrapper_def grpc_trait.simps .

section \<open>A library that obeys the law\<close>

text \<open>Requests and answers are the bodies themselves; a message over a limit is refused on the side that meets it first.\<close>

datatype sample_body = Asks "grpc_request list" | Answers "(grpc_status + grpc_response) list" | Fails grpc_status

type_synonym 's sample_grpc = "(sample_body, 's) http_service \<times> nat option \<times> nat option"

definition fits_in :: "nat \<Rightarrow> nat option \<Rightarrow> bool" where
  "fits_in n limit = (case limit of None \<Rightarrow> True | Some m \<Rightarrow> n \<le> m)"

definition too_large :: grpc_status where "too_large = Other_Status ''too large''"

definition sample_answer :: "sample_body \<Rightarrow> sample_body http_response" where
  "sample_answer b = \<lparr>hp_status = 200, hp_headers = [], hp_body = b\<rparr>"

definition sample_ask :: "'s sample_grpc \<Rightarrow> string \<Rightarrow> grpc_request list \<Rightarrow> 's streamed" where
  "sample_ask g path qs s = (case g of (ch, maxd, maxe) \<Rightarrow>
     if list_all (\<lambda>q. fits_in (length (gq_payload q)) maxe) qs then
       (case ch \<lparr>ht_path = path, ht_body = Asks qs\<rparr> s of (resp, s') \<Rightarrow>
          (case hp_body resp of
             Answers items \<Rightarrow>
               (if list_all (\<lambda>i. case i of Inl _ \<Rightarrow> True | Inr y \<Rightarrow> fits_in (length (gr_payload y)) maxd) items
                then (Inr items, s') else (Inl too_large, s'))
           | Fails status \<Rightarrow> (Inl status, s')
           | Asks _ \<Rightarrow> (Inl too_large, s')))
     else (Inl too_large, s))"

definition sample_serve :: "nat option \<Rightarrow> nat option \<Rightarrow> (grpc_request list \<Rightarrow> 's streamed) \<Rightarrow> (sample_body, 's) http_service" where
  "sample_serve maxd maxe go req s = (case ht_body req of
       Asks qs \<Rightarrow>
         (if list_all (\<lambda>q. fits_in (length (gq_payload q)) maxd) qs then
            (case go qs s of
               (Inr items, s') \<Rightarrow>
                 (if list_all (\<lambda>i. case i of Inl _ \<Rightarrow> True | Inr y \<Rightarrow> fits_in (length (gr_payload y)) maxe) items
                  then (sample_answer (Answers items), s') else (sample_answer (Fails too_large), s'))
             | (Inl status, s') \<Rightarrow> (sample_answer (Fails status), s'))
          else (sample_answer (Fails too_large), s))
     | _ \<Rightarrow> (sample_answer (Fails too_large), s))"

definition sample_tonic :: "('s sample_grpc, sample_body, 's, unit, unit) tonic" where
  "sample_tonic =
     \<lparr>tc_new = (\<lambda>ch. (ch, None, None)), tc_with_origin = (\<lambda>ch _. (ch, None, None)),
      tc_send_compressed = (\<lambda>_ g. g), tc_accept_compressed = (\<lambda>_ g. g),
      tc_max_decoding = (\<lambda>n (ch, _, maxe). (ch, Some n, maxe)), tc_max_encoding = (\<lambda>n (ch, maxd, _). (ch, maxd, Some n)),
      tc_ready = (\<lambda>_ s. (Inr (), s)),
      tc_unary = (\<lambda>g path _ q s. case sample_ask g path [q] s of
          (Inr [Inr y], s') \<Rightarrow> (Inr y, s') | (Inr [Inl status], s') \<Rightarrow> (Inl status, s')
        | (Inr _, s') \<Rightarrow> (Inl too_large, s') | (Inl status, s') \<Rightarrow> (Inl status, s')),
      tc_streaming = (\<lambda>g path _. sample_ask g path), tc_server_streaming = (\<lambda>g path _ q. sample_ask g path [q]),
      ts_none = (), ts_enable = (\<lambda>_ _. ()),
      ts_unary = (\<lambda>sd service. sample_serve (hd_max_decoding sd) (hd_max_encoding sd)
        (\<lambda>qs s. case service (hd qs) s of (Inr y, s') \<Rightarrow> (Inr [Inr y], s') | (Inl status, s') \<Rightarrow> (Inl status, s'))),
      ts_streaming = (\<lambda>sd service. sample_serve (hd_max_decoding sd) (hd_max_encoding sd) (\<lambda>qs. service (map Inr qs))),
      ts_server_streaming = (\<lambda>sd service. sample_serve (hd_max_decoding sd) (hd_max_encoding sd) (\<lambda>qs. service (hd qs))),
      ts_empty_body = Fails too_large,
      tl_request_len = (\<lambda>q. length (gq_payload q)), tl_response_len = (\<lambda>y. length (gr_payload y))\<rparr>"

lemma leads_to_sample:
  "leads_to ch path service \<Longrightarrow> ch \<lparr>ht_path = path, ht_body = b\<rparr> s = service \<lparr>ht_path = path, ht_body = b\<rparr> s"
  by (simp add: leads_to_def)

lemma sample_meets:
  assumes "leads_to ch path (sample_serve (Some limit) (Some limit) go)"
  shows "sample_ask (ch, Some limit, Some limit) path qs s =
    (if list_all (\<lambda>q. length (gq_payload q) \<le> limit) qs then
       (case go qs s of
          (Inr items, s') \<Rightarrow>
            (if list_all (\<lambda>i. case i of Inl _ \<Rightarrow> True | Inr y \<Rightarrow> length (gr_payload y) \<le> limit) items
             then (Inr items, s') else (Inl too_large, s'))
        | (Inl status, s') \<Rightarrow> (Inl status, s'))
     else (Inl too_large, s))"
  unfolding sample_ask_def
  by (simp add: leads_to_sample [OF assms] sample_serve_def sample_answer_def fits_in_def split: prod.split sum.split)

lemma sample_tonic_law: "tonic_law sample_tonic"
  unfolding tonic_law_def
proof (intro conjI allI impI)
  fix limit ch path meth and service :: "'a grpc_service" and q s
  assume "leads_to ch path (ts_unary sample_tonic (plain_handling sample_tonic limit) service)"
  then have "leads_to ch path (sample_serve (Some limit) (Some limit)
      (\<lambda>qs s. case service (hd qs) s of (Inr y, s') \<Rightarrow> (Inr [Inr y], s') | (Inl status, s') \<Rightarrow> (Inl status, s')))"
    by (simp add: sample_tonic_def plain_handling_def)
  from sample_meets [OF this, of "[q]" s]
  show "carried sample_tonic limit service q s (tc_unary sample_tonic (plain_client sample_tonic limit ch) path meth q s)"
    by (auto simp: carried_def sample_tonic_def plain_client_def split: prod.split sum.split)
next
  fix limit ch path meth qs s and service :: "(grpc_status + grpc_request) list \<Rightarrow> 'a streamed"
  assume "leads_to ch path (ts_streaming sample_tonic (plain_handling sample_tonic limit) service)"
    and "list_all (\<lambda>q. tl_request_len (sample_tonic :: ('a sample_grpc, sample_body, 'a, unit, unit) tonic) q \<le> limit) qs"
    and "short_stream sample_tonic limit (service (map Inr qs) s)"
  then show "tc_streaming sample_tonic (plain_client sample_tonic limit ch) path meth qs s = service (map Inr qs) s"
    using sample_meets [of ch path limit "\<lambda>qs. service (map Inr qs)" qs s]
    by (cases "service (map Inr qs) s"; cases "fst (service (map Inr qs) s)")
      (simp_all add: sample_tonic_def plain_client_def plain_handling_def short_stream_def)
next
  fix limit ch path meth q s and service :: "grpc_request \<Rightarrow> 'a streamed"
  assume "leads_to ch path (ts_server_streaming sample_tonic (plain_handling sample_tonic limit) service)"
    and "tl_request_len (sample_tonic :: ('a sample_grpc, sample_body, 'a, unit, unit) tonic) q \<le> limit"
    and "short_stream sample_tonic limit (service q s)"
  then show "tc_server_streaming sample_tonic (plain_client sample_tonic limit ch) path meth q s = service q s"
    using sample_meets [of ch path limit "\<lambda>qs. service (hd qs)" "[q]" s]
    by (cases "service q s"; cases "fst (service q s)")
      (simp_all add: sample_tonic_def plain_client_def plain_handling_def short_stream_def)
qed (simp add: sample_tonic_def)

abbreviation sample_wrapper :: "nat grpc_trait" where
  "sample_wrapper \<equiv> grpc_wrapper tagged sample_handler None"

abbreviation sample_grpc_request :: grpc_request where
  "sample_grpc_request \<equiv> grpc_request_of tagged 0 (sample_request ''1'')"

lemma sample_wrapper_call:
  "gt_call sample_wrapper sample_grpc_request s = (Inr (grpc_response_of tagged 0 (response_success (sample_request ''1'') (JStr ''hi''))), s)"
  using service_call_request [of tagged "sample_request ''1''" sample_handler s _ _ 0 0]
  by (simp add: grpc_wrapper_def current_timestamp_def tagged_law sample_request_def request_new_def sample_handler_def fn_handler_def
      readable_def utf8_def)

theorem generated_methods_meet_witness:
  "let sv = bridge_server sample_tonic grpc_config_default sample_wrapper;
       cl = bridge_client sample_tonic grpc_config_default (server_call sample_tonic sv) in
    fst (client_call sample_tonic cl sample_grpc_request 0) = Inr (grpc_response_of tagged 0 (response_success (sample_request ''1'') (JStr ''hi'')))
    \<and> fst (client_call_stream sample_tonic cl [] 0) = Inr []
    \<and> fst (client_call_server_stream sample_tonic cl sample_grpc_request 0) = Inr []
    \<and> snd (server_call sample_tonic sv \<lparr>ht_path = ''/xprotocol.v1.Service/Other'', ht_body = Asks []\<rparr> 0) = 0"
proof -
  let ?limit = "gc_max_message_size grpc_config_default"
  let ?tn = "sample_tonic :: (nat sample_grpc, sample_body, nat, unit, unit) tonic"
  have law: "tonic_law ?tn" by (rule sample_tonic_law)
  have len: "tl_request_len ?tn sample_grpc_request \<le> ?limit"
    "tl_response_len ?tn (grpc_response_of tagged 0 (response_success (sample_request ''1'') (JStr ''hi''))) \<le> ?limit"
    by (simp_all add: sample_tonic_def grpc_request_of_def grpc_response_of_def grpc_config_default_def GRPC_MAX_MESSAGE_SIZE_def sample_defs)
  have streams: "gt_call_stream sample_wrapper [] s = (Inr [], s)" "gt_call_server_stream sample_wrapper q s = (Inr [], s)" for q s
    by (simp_all add: grpc_wrapper_def grpc_call_stream_def grpc_call_server_stream_def)
  show ?thesis
    using generated_methods_meet [where tn = sample_tonic and config = grpc_config_default and q = sample_grpc_request and qs = "[]"
        and service = sample_wrapper and s = 0
        and other = "\<lparr>ht_path = ''/xprotocol.v1.Service/Other'', ht_body = Asks []\<rparr>"] law len
    by (simp add: streams sample_wrapper_call short_stream_def Let_def)
qed

theorem grpc_call_end_to_end_witness:
  "grpc_client_call tagged (generated_transport sample_tonic (\<lambda>_. ''status'')) grpc_config_default (gt_call sample_wrapper) 0
      (sample_request ''1'') 0
    = (Ok (response_success (sample_request ''1'') (JStr ''hi'')), 0)"
proof -
  let ?r = "sample_request ''1''" and ?x = "response_success (sample_request ''1'') (JStr ''hi'')"
  have ok: "is_value (rq_payload ?r)" "readable (rq_payload ?r)" "sh_handle sample_handler ?r 0 = (?x, 0)"
    "is_value (rs_payload ?x)" "readable (rs_payload ?x)"
    by (simp_all add: sample_defs readable_def utf8_def)
  show ?thesis
    using grpc_call_end_to_end [OF tagged_law sample_tonic_law ok, of grpc_config_default "\<lambda>_. ''status''" None 0]
    by (simp add: sample_tonic_def grpc_request_of_def grpc_response_of_def grpc_config_default_def
        GRPC_MAX_MESSAGE_SIZE_def sample_defs Let_def)
qed

end
