(* ===== verification/Socket_Path.thy ===== *)
theory Socket_Path
  imports Prelude
begin

text \<open>
  Socket paths, \<^verbatim>\<open>src/src/socket.rs\<close>: a path for a socket in a temporary directory of its own, and what is
  removed when the value is dropped. The file system is the set of the paths there are; the crates
  \<^verbatim>\<open>tempfile\<close> and \<^verbatim>\<open>uuid\<close> are parameters: the directory made for a prefix and a suffix, or the
  panic of \<^verbatim>\<open>expect\<close>, and the text of the identifier.
\<close>

section \<open>Paths\<close>

text \<open>\<^verbatim>\<open>Path::join\<close> with a relative name.\<close>

definition path_join :: "string \<Rightarrow> string \<Rightarrow> string" where
  "path_join dir name = (if dir = [] \<or> last dir = CHR ''/'' then dir @ name else dir @ ''/'' @ name)"

text \<open>What lies in a directory, at any depth.\<close>

definition inside :: "string \<Rightarrow> string \<Rightarrow> bool" where
  "inside dir p \<longleftrightarrow> take (length (dir @ ''/'')) p = dir @ ''/''"

lemma inside_join: "dir \<noteq> [] \<Longrightarrow> last dir \<noteq> CHR ''/'' \<Longrightarrow> inside dir (path_join dir name)"
  by (simp add: inside_def path_join_def)

section \<open>The value\<close>

type_synonym file_system = "string set"

record socket_path =
  sp_path :: string
  sp_temp_dir :: "string option"

definition socket_new :: "(string \<Rightarrow> string \<Rightarrow> string option) \<Rightarrow> string \<Rightarrow> file_system \<Rightarrow> (socket_path \<times> file_system) option" where
  "socket_new mkdir name fs =
     (case mkdir name ''.sock'' of
        None \<Rightarrow> None
      | Some dir \<Rightarrow> Some (\<lparr>sp_path = path_join dir ''socket.sock'', sp_temp_dir = Some dir\<rparr>, insert dir fs))"

definition in_dir :: "string \<Rightarrow> string \<Rightarrow> socket_path \<Rightarrow> socket_path" where
  "in_dir uuid dir s = s\<lparr>sp_path := path_join dir (uuid @ ''.sock'')\<rparr>"

definition socket_as_str :: "socket_path \<Rightarrow> string" where
  "socket_as_str s = sp_path s"

text \<open>
  Dropping: the file at the path is removed, if there is one (\<open>removable\<close> says whether the removal succeeds, its error is
  ignored); then the temporary directory goes, with all that is in it.
\<close>

definition drop_temp_dir :: "string option \<Rightarrow> file_system \<Rightarrow> file_system" where
  "drop_temp_dir d fs = (case d of None \<Rightarrow> fs | Some dir \<Rightarrow> Set.filter (\<lambda>p. p \<noteq> dir \<and> \<not> inside dir p) fs)"

definition socket_drop :: "(string \<Rightarrow> bool) \<Rightarrow> socket_path \<Rightarrow> file_system \<Rightarrow> file_system" where
  "socket_drop removable s fs =
     drop_temp_dir (sp_temp_dir s) (if sp_path s \<in> fs \<and> removable (sp_path s) then fs - {sp_path s} else fs)"

section \<open>What is left\<close>

text \<open>
  Nothing is left behind. Whatever was put into the directory of a new socket path, its drop
  leaves the file system as it was before, when the directory was new; and when the socket was moved into
  another directory, its file there is gone too, provided it can be removed, and nothing else of that directory.
\<close>

lemma socket_drop_cleans:
  assumes "socket_new mkdir name fs = Some (s, fs1)" and "sp_temp_dir s = Some tmp"
    and "\<And>p. p \<in> fs \<Longrightarrow> p \<noteq> tmp \<and> \<not> inside tmp p" and "\<And>p. p \<in> extra \<Longrightarrow> inside tmp p"
    and "tmp \<noteq> []" and "last tmp \<noteq> CHR ''/''"
  shows "socket_drop removable s (fs1 \<union> extra) = fs"
proof -
  have s: "sp_path s = path_join tmp ''socket.sock''" "fs1 = insert tmp fs"
    using assms(1,2) by (auto simp: socket_new_def split: option.splits)
  then have "inside tmp (sp_path s)" using inside_join [OF assms(5,6)] by simp
  then have "sp_path s \<notin> fs" using assms(3) by blast
  then show ?thesis
    using assms(2-4) s(2) by (auto simp: socket_drop_def drop_temp_dir_def)
qed

lemma moved_socket_drop_cleans:
  assumes "socket_new mkdir name fs = Some (s, fs1)" and "sp_temp_dir s = Some tmp"
    and "\<And>p. p \<in> fs \<Longrightarrow> p \<noteq> tmp \<and> \<not> inside tmp p"
    and "path_join dir (uuid @ ''.sock'') \<notin> fs" and "removable (path_join dir (uuid @ ''.sock''))"
  shows "socket_drop removable (in_dir uuid dir s) (insert (path_join dir (uuid @ ''.sock'')) fs1) = fs"
proof -
  have s: "fs1 = insert tmp fs" using assms(1,2) by (auto simp: socket_new_def split: option.splits)
  then show ?thesis using assms(2-5) by (auto simp: socket_drop_def drop_temp_dir_def in_dir_def)
qed

end
