(* ===== verification/System_Metrics.thy ===== *)
theory System_Metrics
  imports Server_System
begin

text \<open>
  The metrics of a whole server of \<^verbatim>\<open>src/src/server.rs\<close>: what the collector that all connections
  share has counted, against the messages the connections took and the way they ended.
\<close>

section \<open>What a message does to the metrics\<close>









section \<open>All connections\<close>












section \<open>The invariant\<close>








section \<open>A run of the sample\<close>





end
