(* ===== verification/Simulation.thy ===== *)
theory Simulation
  imports Prelude
begin

text \<open>
  Labelled runs and simulation: the interface between a detailed system and the abstract one that
  it implements. A step shows a list of events, empty for an internal step; a run shows those of its
  steps in order.
\<close>

inductive runs :: "('s \<Rightarrow> 'e list \<Rightarrow> 's \<Rightarrow> bool) \<Rightarrow> 's \<Rightarrow> 'e list \<Rightarrow> 's \<Rightarrow> bool"
  for step :: "'s \<Rightarrow> 'e list \<Rightarrow> 's \<Rightarrow> bool" and s :: 's where
  runs_none: "runs step s [] s"
| runs_more: "runs step s es t \<Longrightarrow> step t fs u \<Longrightarrow> runs step s (es @ fs) u"

lemma runs_silent: "runs step s es t \<Longrightarrow> step t [] u \<Longrightarrow> runs step s es u"
  using runs_more [of step s es t "[]" u] by simp

lemma runs_one: "step s es t \<Longrightarrow> runs step s es t"
  using runs_more [OF runs_none] by fastforce

lemma runs_append: "runs step s es t \<Longrightarrow> runs step t fs u \<Longrightarrow> runs step s (es @ fs) u"
  by (rotate_tac, induction rule: runs.induct) (auto intro: runs_more simp flip: append_assoc)

text \<open>
  \<open>holds\<close>: a property of the events shown so far and the state, kept by every step.
\<close>

locale history_system =
  fixes step :: "'s \<Rightarrow> 'e list \<Rightarrow> 's \<Rightarrow> bool"
    and start :: 's
    and holds :: "'e list \<Rightarrow> 's \<Rightarrow> bool"
  assumes holds_start: "holds [] start"
    and holds_step: "holds es s \<Longrightarrow> step s fs t \<Longrightarrow> holds (es @ fs) t"
begin

lemma runs_holds: "runs step start es s \<Longrightarrow> holds es s"
  by (induction rule: runs.induct) (auto intro: holds_start holds_step)

end

text \<open>Forward simulation: each step of the detailed system is matched by one of the abstract system with the same events.\<close>

locale forward_simulation =
  fixes cstep :: "'c \<Rightarrow> 'e list \<Rightarrow> 'c \<Rightarrow> bool"
    and astep :: "'a \<Rightarrow> 'e list \<Rightarrow> 'a \<Rightarrow> bool"
    and cstart :: 'c
    and astart :: 'a
    and related :: "'c \<Rightarrow> 'a \<Rightarrow> bool"
  assumes starts: "related cstart astart"
    and steps: "related c a \<Longrightarrow> cstep c es c' \<Longrightarrow> \<exists>a'. astep a es a' \<and> related c' a'"
begin

lemma refines: "runs cstep cstart es c \<Longrightarrow> \<exists>a. runs astep astart es a \<and> related c a"
proof (induction rule: runs.induct)
  case (runs_more es c fs c')
  then obtain a a' where "runs astep astart es a" "astep a fs a'" "related c' a'" using steps by blast
  then show ?case by (blast intro: runs.runs_more)
qed (blast intro: runs.runs_none starts)

text \<open>Whatever holds of all runs of the abstract system and is read off the events holds of the detailed one.\<close>

lemma events_of_abstract:
  "runs cstep cstart es c \<Longrightarrow> (\<And>a. runs astep astart es a \<Longrightarrow> related c a \<Longrightarrow> P es c) \<Longrightarrow> P es c"
  using refines by blast

end

end
