(* ===== verification/Atomic_Service.thy ===== *)
theory Atomic_Service
  imports Simulation Protocol
begin

text \<open>
  The abstract specification of what many clients see of one service: an atomic object. Each call
  takes effect at one moment between its invocation and its return, by one application of the service
  handler (\<^verbatim>\<open>src/src/handler.rs\<close>) to the state the previous effect left. A call that returns an error may have
  taken effect before, may still take effect once, or never does.
\<close>

section \<open>The object\<close>

datatype call_event = Invokes nat service_request | Returns nat "service_response result"

datatype call_phase =
    Resting
  | Asked service_request
  | Settled service_request service_response
  | Adrift service_request \<comment> \<open>failed for the client, and may still take effect\<close>
  | Gone

record 's atomic_service =
  at_state :: 's
  at_calls :: "nat \<rightharpoonup> call_phase"

definition atomic_start :: "'s \<Rightarrow> 's atomic_service" where
  "atomic_start state = \<lparr>at_state = state, at_calls = Map.empty\<rparr>"

definition set_call :: "nat \<Rightarrow> call_phase \<Rightarrow> 's \<Rightarrow> 's atomic_service \<Rightarrow> 's atomic_service" where
  "set_call i ph s a = \<lparr>at_state = s, at_calls = (at_calls a)(i \<mapsto> ph)\<rparr>"

lemma set_call_simps [simp]:
  "at_state (set_call i ph s a) = s" "at_calls (set_call i ph s a) = (at_calls a)(i \<mapsto> ph)"
  by (simp_all add: set_call_def)

text \<open>What others may do to the state at any moment: nothing, a request or a handshake.\<close>

definition foreign :: "'s service_handler \<Rightarrow> 's \<Rightarrow> 's \<Rightarrow> bool" where
  "foreign h s s' \<longleftrightarrow> s' = s \<or> (\<exists>r. s' = snd (sh_handle h r s)) \<or> (\<exists>q. s' = snd (sh_on_handshake h q s))"

inductive atomic_step :: "'s service_handler \<Rightarrow> 's atomic_service \<Rightarrow> call_event list \<Rightarrow> 's atomic_service \<Rightarrow> bool"
  for h :: "'s service_handler" where
  at_join: "at_calls a i = None \<Longrightarrow> atomic_step h a [] (set_call i Resting (at_state a) a)"
| at_invoke: "at_calls a i = Some Resting \<Longrightarrow> atomic_step h a [Invokes i r] (set_call i (Asked r) (at_state a) a)"
| at_refuse: "at_calls a i = Some Resting \<Longrightarrow>
    atomic_step h a [Invokes i r, Returns i (Err e)] (set_call i Gone (at_state a) a)"
| at_effect: "at_calls a i = Some (Asked r) \<Longrightarrow> sh_handle h r (at_state a) = (x, s) \<Longrightarrow>
    atomic_step h a [] (set_call i (Settled r x) s a)"
| at_return: "at_calls a i = Some (Settled r x) \<Longrightarrow>
    atomic_step h a [Returns i (Ok x)] (set_call i Resting (at_state a) a)"
| at_lose: "at_calls a i = Some (Asked r) \<Longrightarrow>
    atomic_step h a [Returns i (Err e)] (set_call i (Adrift r) (at_state a) a)"
| at_lose_answer: "at_calls a i = Some (Settled r x) \<Longrightarrow>
    atomic_step h a [Returns i (Err e)] (set_call i Gone (at_state a) a)"
| at_late: "at_calls a i = Some (Adrift r) \<Longrightarrow> sh_handle h r (at_state a) = (x, s) \<Longrightarrow>
    atomic_step h a [] (set_call i Gone s a)"
| at_leave: "at_calls a i = Some Resting \<Longrightarrow> atomic_step h a [] (set_call i Gone (at_state a) a)"
| at_other: "foreign h (at_state a) s \<Longrightarrow> atomic_step h a [] (a\<lparr>at_state := s\<rparr>)"

inductive_cases atomic_stepE: "atomic_step h a es a'"

lemma at_idle: "atomic_step h a [] a"
  using at_other [of h a "at_state a"] by (simp add: foreign_def)

section \<open>The log behind a history\<close>

text \<open>The operations of the handler, one after the other; those of the clients with what they answered.\<close>

datatype handler_op = Call nat service_request service_response | Other_Call service_request | Greet handshake_request

fun replay :: "'s service_handler \<Rightarrow> handler_op list \<Rightarrow> 's \<Rightarrow> 's option" where
  "replay h [] s = Some s"
| "replay h (Call i r x # ops) s = (case sh_handle h r s of (y, s') \<Rightarrow> if y = x then replay h ops s' else None)"
| "replay h (Other_Call r # ops) s = replay h ops (snd (sh_handle h r s))"
| "replay h (Greet q # ops) s = replay h ops (snd (sh_on_handshake h q s))"

lemma replay_append: "replay h (ops @ ops') s = Option.bind (replay h ops s) (replay h ops')"
  by (induction h ops s rule: replay.induct) (auto split: prod.split)

fun calls_of :: "nat \<Rightarrow> handler_op list \<Rightarrow> (service_request \<times> service_response) list" where
  "calls_of i [] = []"
| "calls_of i (Call j r x # ops) = (if j = i then (r, x) # calls_of i ops else calls_of i ops)"
| "calls_of i (Other_Call r # ops) = calls_of i ops"
| "calls_of i (Greet q # ops) = calls_of i ops"

lemma calls_of_append [simp]: "calls_of i (ops @ ops') = calls_of i ops @ calls_of i ops'"
  by (induction i ops rule: calls_of.induct) auto

fun event_of :: "nat \<Rightarrow> call_event \<Rightarrow> bool" where
  "event_of i (Invokes j r) = (j = i)"
| "event_of i (Returns j x) = (j = i)"

definition told :: "nat \<Rightarrow> (service_request \<times> service_response) list \<Rightarrow> call_event list" where
  "told i done = concat (map (\<lambda>(r, x). [Invokes i r, Returns i (Ok x)]) done)"

lemma told_simps [simp]: "told i [] = []" "told i (d @ [(r, x)]) = told i d @ [Invokes i r, Returns i (Ok x)]"
  by (simp_all add: told_def)

text \<open>
  The events of a client against the calls of its that the handler has run: each call but the last
  has run exactly once and returned what the handler answered; the last may be pending or have failed,
  and has run at most once.
\<close>

definition accounts :: "nat \<Rightarrow> call_event list \<Rightarrow> (service_request \<times> service_response) list \<Rightarrow> bool" where
  "accounts i es run \<longleftrightarrow> (es = told i run)
     \<or> (\<exists>r e. es = told i run @ [Invokes i r] \<or> es = told i run @ [Invokes i r, Returns i (Err e)])
     \<or> (\<exists>d r x e. run = d @ [(r, x)] \<and> (es = told i d @ [Invokes i r] \<or> es = told i d @ [Invokes i r, Returns i (Err e)]))"

lemma told_one: "told i run = [Invokes i r, Returns i (Ok x)] \<longleftrightarrow> run = [(r, x)]"
  by (auto simp: told_def Cons_eq_append_conv concat_eq_append_conv split: prod.splits) (cases run; cases "tl run"; auto)

lemma accounts_one: "accounts i [Invokes i r, Returns i (Ok x)] run \<Longrightarrow> run = [(r, x)]"
proof -
  have no: "[Invokes i r, Returns i (Ok x)] \<noteq> told i d @ [Invokes i r']"
    "[Invokes i r, Returns i (Ok x)] \<noteq> told i d @ [Invokes i r', Returns i (Err e)]" for d r' e
    by (cases d; auto simp: told_def)+
  assume "accounts i [Invokes i r, Returns i (Ok x)] run"
  with no show ?thesis using told_one [of i run r x] by (auto simp: accounts_def)
qed

fun story :: "nat \<Rightarrow> call_phase option \<Rightarrow> call_event list \<Rightarrow> (service_request \<times> service_response) list \<Rightarrow> bool" where
  "story i None es run = (es = [] \<and> run = [])"
| "story i (Some Resting) es run = (es = told i run)"
| "story i (Some (Asked r)) es run = (es = told i run @ [Invokes i r])"
| "story i (Some (Settled r x)) es run = (\<exists>d. run = d @ [(r, x)] \<and> es = told i d @ [Invokes i r])"
| "story i (Some (Adrift r)) es run = (\<exists>e. es = told i run @ [Invokes i r, Returns i (Err e)])"
| "story i (Some Gone) es run = accounts i es run"

lemma story_accounts: "story i ph es run \<Longrightarrow> accounts i es run"
  by (induction i ph es run rule: story.induct) (auto simp: accounts_def)

definition logged :: "'s service_handler \<Rightarrow> 's \<Rightarrow> call_event list \<Rightarrow> 's atomic_service \<Rightarrow> bool" where
  "logged h state es a \<longleftrightarrow> (\<exists>ops. replay h ops state = Some (at_state a)
     \<and> (\<forall>i. story i (at_calls a i) (filter (event_of i) es) (calls_of i ops)))"

lemma loggedI:
  assumes "replay h ops state = Some (at_state a)"
    and "\<And>i. story i (at_calls a i) (filter (event_of i) es) (calls_of i ops)"
  shows "logged h state es a"
  using assms by (auto simp: logged_def)

lemma logged_step:
  assumes "logged h state es a" and "atomic_step h a fs a'"
  shows "logged h state (es @ fs) a'"
proof -
  obtain ops where ops: "replay h ops state = Some (at_state a)"
    and st: "\<And>i. story i (at_calls a i) (filter (event_of i) es) (calls_of i ops)"
    using assms(1) by (auto simp: logged_def)
  from assms(2) show ?thesis
  proof cases
    case (at_effect i r x s)
    then show ?thesis
      using st ops st [of i]
      by (intro loggedI [of _ "ops @ [Call i r x]"]) (auto simp: replay_append)
  next
    case (at_late i r x s)
    then show ?thesis
      using st ops st [of i]
      by (intro loggedI [of _ "ops @ [Call i r x]"]) (auto simp: replay_append accounts_def)
  next
    case (at_other s)
    then consider "s = at_state a" | r where "s = snd (sh_handle h r (at_state a))"
      | q where "s = snd (sh_on_handshake h q (at_state a))" by (auto simp: foreign_def)
    then show ?thesis
    proof cases
      case 1
      with at_other ops st show ?thesis by (intro loggedI [of _ ops]) auto
    next
      case (2 r)
      with at_other ops st show ?thesis by (intro loggedI [of _ "ops @ [Other_Call r]"]) (auto simp: replay_append)
    next
      case (3 q)
      with at_other ops st show ?thesis by (intro loggedI [of _ "ops @ [Greet q]"]) (auto simp: replay_append)
    qed
  next
    case (at_join i)
    with ops st st [of i] show ?thesis by (intro loggedI [of _ ops]) auto
  next
    case (at_invoke i r)
    with ops st st [of i] show ?thesis by (intro loggedI [of _ ops]) auto
  next
    case (at_refuse i r e)
    with ops st st [of i] show ?thesis by (intro loggedI [of _ ops]) (auto simp: accounts_def)
  next
    case (at_return i r x)
    with ops st st [of i] show ?thesis by (intro loggedI [of _ ops]) auto
  next
    case (at_lose i r e)
    with ops st st [of i] show ?thesis by (intro loggedI [of _ ops]) auto
  next
    case (at_lose_answer i r x e)
    with ops st st [of i] show ?thesis by (intro loggedI [of _ ops]) (auto simp: accounts_def)
  next
    case (at_leave i)
    with ops st st [of i] show ?thesis by (intro loggedI [of _ ops]) (auto simp: accounts_def)
  qed
qed

interpretation atomic: history_system "atomic_step h" "atomic_start state" "logged h state"
  by unfold_locales (auto simp: atomic_start_def intro: logged_step loggedI [of _ "[]"])

lemma atomic_log:
  assumes "runs (atomic_step h) (atomic_start state) es a"
  shows "\<exists>ops. replay h ops state = Some (at_state a) \<and> (\<forall>i. accounts i (filter (event_of i) es) (calls_of i ops))"
proof -
  obtain ops where "replay h ops state = Some (at_state a)"
    "\<And>i. story i (at_calls a i) (filter (event_of i) es) (calls_of i ops)"
    using atomic.runs_holds [OF assms] by (auto simp: logged_def)
  then show ?thesis by (blast intro: story_accounts)
qed

end
