(* ===== verification/Interleaving.thy ===== *)
theory Interleaving
  imports Server Atomic_Service
begin

text \<open>
  The handling of one message by \<^verbatim>\<open>src/src/server.rs\<close> in its single steps. A connection task shares the service
  handler, the metrics and the notifications with all others; between any two of its operations
  the others may run. A program is a tree of such operations; run without interruption it is the function of
  \<open>Server\<close>. What the steps of a program may do to the handler and to its connection is given by a small
  automaton, whatever the others do in between.
\<close>

section \<open>Programs\<close>

datatype ('c, 'a) prog = Finish "'a result" | Act "'c \<Rightarrow> 'c" "'c \<Rightarrow> ('c, 'a) prog"

primrec run :: "('c, 'a) prog \<Rightarrow> 'c \<Rightarrow> 'a result \<times> 'c" where
  "run (Finish r) = (\<lambda>c. (r, c))"
| "run (Act upd next) = (\<lambda>c. run (next c) (upd c))"

text \<open>One operation, then the rest of the program, unless it fails.\<close>

definition step_then :: "('c, 'b) action \<Rightarrow> ('b \<Rightarrow> ('c, 'a) prog) \<Rightarrow> ('c, 'a) prog" where
  "step_then m k = Act (\<lambda>c. snd (m c)) (\<lambda>c. case fst (m c) of Inl e \<Rightarrow> Finish (Err e) | Inr x \<Rightarrow> k x)"

lemma run_step_then [simp]: "run (step_then m k) = and_then m (\<lambda>x. run (k x))"
  by (rule ext) (auto simp: step_then_def and_then_def split: prod.split sum.split)

section \<open>The programs of the server\<close>

definition fine_request :: "surroundings \<Rightarrow> 's service_handler \<Rightarrow> string \<Rightarrow> u8 \<Rightarrow> bytes \<Rightarrow> ('s connection, bool) prog" where
  "fine_request en h client_id msg_type payload =
     (let cd = en_codec en; name = sh_service_name h in
      step_then (measure_start name) (\<lambda>_.
      step_then (event en (RequestReceived client_id name (show_nat (unat msg_type)))) (\<lambda>_.
      case decode cd rq_of_json ''ServiceRequest'' payload of
        Inl e \<Rightarrow>
          step_then elapsed (\<lambda>d.
          step_then (measure_end name d False) (\<lambda>_.
          step_then (reply_error en (''invalid request: '' @ e)) (\<lambda>_. Finish (Ok True))))
      | Inr request \<Rightarrow>
          if \<not> validate_request request then
            step_then elapsed (\<lambda>d.
            step_then (measure_end name d False) (\<lambda>_.
            step_then (reply_error en ''invalid request format'') (\<lambda>_. Finish (Ok True))))
          else
            step_then (run_handle h request) (\<lambda>response.
            step_then elapsed (\<lambda>duration.
            step_then (reply MSG_RESPONSE (jc_to_vec cd (rs_to_json response))) (\<lambda>_.
            step_then (measure_end name duration (rs_status response = ''success'')) (\<lambda>_.
            step_then (event en (ResponseSent (rs_request_id response) name (rs_status response)
              (as_millis_u64 duration))) (\<lambda>_. Finish (Ok True)))))))))"

definition fine_stream :: "surroundings \<Rightarrow> 's service_handler \<Rightarrow> bytes \<Rightarrow> ('s connection, bool) prog" where
  "fine_stream en h payload =
     (if cf_enable_streaming (en_config en) then
        step_then (lift_result (from_slice (en_codec en) rq_of_json ''ServiceRequest'' payload)) (\<lambda>request.
        step_then (reply MSG_STREAM_START (jc_to_vec (en_codec en) (stream_start_doc request))) (\<lambda>_.
        step_then (run_handle h request) (\<lambda>response.
        step_then (reply MSG_STREAM_END (jc_to_vec (en_codec en) (stream_end_doc response))) (\<lambda>_. Finish (Ok True)))))
      else Finish (Ok True))"

definition fine_dispatch :: "surroundings \<Rightarrow> 's service_handler \<Rightarrow> string \<Rightarrow> u8 \<Rightarrow> bytes \<Rightarrow> ('s connection, bool) prog" where
  "fine_dispatch en h client_id t payload =
     (let limit = cf_max_request_size (en_config en) in
      if length payload > limit then
        step_then (reply_error en (''payload too large: '' @ show_nat (length payload) @ '' > '' @ show_nat limit))
          (\<lambda>_. Finish (Ok True))
      else if t = MSG_REQUEST then fine_request en h client_id t payload
      else if t = MSG_STREAM_REQUEST then fine_stream en h payload
      else if t = MSG_PING then step_then (reply MSG_PONG []) (\<lambda>_. Finish (Ok True))
      else if t = MSG_SCHEMA_REQUEST then step_then (serve_schema en h) (\<lambda>_. Finish (Ok True))
      else if t = MSG_CLOSE then Finish (Ok False)
      else Finish (Ok True))"

text \<open>Run without interruption, the program is the body of the loop in \<open>Server\<close>.\<close>

lemma run_finish: "run (Finish (Ok x)) = give x"
  by (rule ext) simp

lemma and_then_case: "and_then (case r of Inl e \<Rightarrow> f e | Inr x \<Rightarrow> g x) k = (case r of Inl e \<Rightarrow> and_then (f e) k | Inr x \<Rightarrow> and_then (g x) k)"
  by (simp split: sum.split)

lemma pair_give: "Pair (Ok x) = give x"
  by (rule ext) simp

lemma and_then_give [simp]: "and_then (give x) k = k x"
  by (rule ext) (simp add: and_then_def)

lemma run_fine_request: "run (fine_request en h cid t p) = and_then (serve_request en h cid t p) (\<lambda>_. give True)"
  unfolding fine_request_def serve_request_def Let_def
  by (simp add: and_then_assoc run_finish del: run.simps(1) split: sum.split)

lemma run_fine_stream: "run (fine_stream en h p) = and_then (serve_stream en h p) (\<lambda>_. give True)"
  unfolding fine_stream_def serve_stream_def
  by (simp add: and_then_assoc run_finish pair_give del: run.simps(1) give_fail)

lemma run_fine_dispatch: "run (fine_dispatch en h cid t p) = dispatch en h cid t p"
  unfolding fine_dispatch_def dispatch_def Let_def
  by (simp add: run_fine_request run_fine_stream run_finish del: run.simps(1))

section \<open>What a program may do\<close>

text \<open>
  The stages of a program that handles a request: the handler is to be applied to the request; its answer is to be
  written; an error is to be written; all is written; the write failed. \<open>Anything\<close> stands for the program of a
  connection of which nothing is known.
\<close>

datatype stage = Asking service_request | Answering service_response | Rejecting | Quiet | Failed | Anything

inductive stage_step :: "surroundings \<Rightarrow> 's service_handler \<Rightarrow> stage \<Rightarrow> 's connection \<Rightarrow> 's connection \<Rightarrow> stage \<Rightarrow> bool"
  for en :: surroundings and h :: "'s service_handler" where
  ask_wait: "cn_handler c' = cn_handler c \<Longrightarrow> cn_sink c' = cn_sink c \<Longrightarrow> stage_step en h (Asking r) c c' (Asking r)"
| ask_handle: "sh_handle h r (cn_handler c) = (x, cn_handler c') \<Longrightarrow> cn_sink c' = cn_sink c \<Longrightarrow>
    stage_step en h (Asking r) c c' (Answering x)"
| answer_wait: "cn_handler c' = cn_handler c \<Longrightarrow> cn_sink c' = cn_sink c \<Longrightarrow> stage_step en h (Answering x) c c' (Answering x)"
| answer_write: "cn_handler c' = cn_handler c \<Longrightarrow>
    (sk_room (cn_sink c) = None \<Longrightarrow> fits (jc_to_vec (en_codec en) (rs_to_json x)) \<and> sk_room (cn_sink c') = None
      \<and> sk_out (cn_sink c') = sk_out (cn_sink c) @ frame_bytes 1 MSG_RESPONSE (jc_to_vec (en_codec en) (rs_to_json x))) \<Longrightarrow>
    stage_step en h (Answering x) c c' Quiet"
| answer_fail: "cn_handler c' = cn_handler c \<Longrightarrow>
    (sk_room (cn_sink c) = None \<Longrightarrow> \<not> fits (jc_to_vec (en_codec en) (rs_to_json x)) \<and> cn_sink c' = cn_sink c) \<Longrightarrow>
    stage_step en h (Answering x) c c' Failed"
| reject_wait: "cn_handler c' = cn_handler c \<Longrightarrow> cn_sink c' = cn_sink c \<Longrightarrow> stage_step en h Rejecting c c' Rejecting"
| reject_write: "cn_handler c' = cn_handler c \<Longrightarrow>
    (sk_room (cn_sink c) = None \<Longrightarrow> sk_room (cn_sink c') = None
      \<and> (\<exists>p. fits p \<and> sk_out (cn_sink c') = sk_out (cn_sink c) @ frame_bytes 1 MSG_ERROR p)) \<Longrightarrow>
    stage_step en h Rejecting c c' Quiet"
| reject_fail: "cn_handler c' = cn_handler c \<Longrightarrow> (sk_room (cn_sink c) = None \<Longrightarrow> cn_sink c' = cn_sink c) \<Longrightarrow>
    stage_step en h Rejecting c c' Failed"
| quiet_wait: "cn_handler c' = cn_handler c \<Longrightarrow> cn_sink c' = cn_sink c \<Longrightarrow> stage_step en h Quiet c c' Quiet"
| any_step: "foreign h (cn_handler c) (cn_handler c') \<Longrightarrow> stage_step en h Anything c c' Anything"

inductive_cases stage_stepE: "stage_step en h st c c' st'"
inductive_cases asking_stepE: "stage_step en h (Asking r) c c' st'"
inductive_cases answering_stepE: "stage_step en h (Answering x) c c' st'"
inductive_cases rejecting_stepE: "stage_step en h Rejecting c c' st'"
inductive_cases quiet_stepE: "stage_step en h Quiet c c' st'"
inductive_cases failed_stepE: "stage_step en h Failed c c' st'"
inductive_cases any_stepE: "stage_step en h Anything c c' st'"

fun ends_in :: "stage \<Rightarrow> bool result \<Rightarrow> bool" where
  "ends_in Quiet r = (r = Ok True)"
| "ends_in Failed r = (\<not> is_ok r)"
| "ends_in Anything r = True"
| "ends_in _ r = False"

inductive follows :: "surroundings \<Rightarrow> 's service_handler \<Rightarrow> stage \<Rightarrow> ('s connection, bool) prog \<Rightarrow> bool"
  for en :: surroundings and h :: "'s service_handler" where
  follows_end: "ends_in st r \<Longrightarrow> follows en h st (Finish r)"
| follows_act: "(\<And>c. \<exists>st'. stage_step en h st c (upd c) st' \<and> follows en h st' (next c)) \<Longrightarrow> follows en h st (Act upd next)"

inductive_cases follows_finishE: "follows en h st (Finish r)"
inductive_cases follows_actE: "follows en h st (Act upd next)"

lemma follows_actD:
  assumes "follows en h st (Act upd next)"
  obtains st' where "stage_step en h st c (upd c) st'" "follows en h st' (next c)"
  using assms by (auto elim: follows_actE)

text \<open>An operation in front of a program.\<close>

lemma follows_step:
  assumes "\<And>c r c'. m c = (r, c') \<Longrightarrow> \<exists>st'. stage_step en h st c c' st'
    \<and> (case r of Inl e \<Rightarrow> ends_in st' (Err e) | Inr x \<Rightarrow> follows en h st' (k x))"
  shows "follows en h st (step_then m k)"
  unfolding step_then_def
proof (rule follows_act)
  fix c
  obtain r c' where m: "m c = (r, c')" by force
  from assms [OF m] obtain st' where st': "stage_step en h st c c' st'"
    "case r of Inl e \<Rightarrow> ends_in st' (Err e) | Inr x \<Rightarrow> follows en h st' (k x)" by blast
  then have "follows en h st' (case r of Inl e \<Rightarrow> Finish (Err e) | Inr x \<Rightarrow> k x)"
    by (cases r) (simp_all add: follows_end)
  with st'(1) m show "\<exists>st'. stage_step en h st c (snd (m c)) st'
      \<and> follows en h st' (case fst (m c) of Inl e \<Rightarrow> Finish (Err e) | Inr x \<Rightarrow> k x)"
    by auto
qed

text \<open>Operations that touch neither the handler nor the connection, and cannot fail.\<close>

definition calm :: "('s connection, 'a) action \<Rightarrow> bool" where
  "calm m \<longleftrightarrow> (\<forall>c. is_ok (fst (m c)) \<and> cn_handler (snd (m c)) = cn_handler c \<and> cn_sink (snd (m c)) = cn_sink c)"

lemma calm_operations:
  "calm (measure_start name)" "calm (measure_end name d b)" "calm (event en e)" "calm elapsed"
  by (simp_all add: calm_def measure_start_def measure_end_def event_def elapsed_def split: list.split)

lemma follows_calm:
  assumes "calm m" and "st \<noteq> Failed" and "\<And>x. follows en h st (k x)"
  shows "follows en h st (step_then m k)"
proof (rule follows_step)
  fix c r c' assume m: "m c = (r, c')"
  then have c': "cn_handler c' = cn_handler c" "cn_sink c' = cn_sink c" "is_ok r"
    using assms(1) unfolding calm_def by (metis fst_conv snd_conv)+
  have "stage_step en h st c c' st"
    using c'(1,2) assms(2) by (cases st) (auto intro: stage_step.intros simp: foreign_def)
  with c'(3) assms(3) show "\<exists>st'. stage_step en h st c c' st' \<and> (case r of Inl e \<Rightarrow> ends_in st' (Err e) | Inr x \<Rightarrow> follows en h st' (k x))"
    by (cases r) auto
qed

lemma reply_unfit: "\<not> fits p \<Longrightarrow> reply t p c = (Err (InvalidMessage ''message too large''), c)"
  by (simp add: reply_def write_message_def fits_def)

lemma reply_cases:
  assumes "reply t p c = (r, c')"
  shows "cn_handler c' = cn_handler c \<and> (sk_room (cn_sink c) = None \<longrightarrow>
    (case r of Inl _ \<Rightarrow> \<not> fits p \<and> cn_sink c' = cn_sink c
     | Inr _ \<Rightarrow> fits p \<and> sk_room (cn_sink c') = None \<and> sk_out (cn_sink c') = sk_out (cn_sink c) @ frame_bytes 1 t p))"
  using assms reply_keeps [OF assms] reply_unfit [of p t c] reply_open [of p c t] by (cases "fits p") auto

lemma follows_answer:
  assumes "\<And>u. follows en h Quiet (k u)"
  shows "follows en h (Answering x) (step_then (reply MSG_RESPONSE (jc_to_vec (en_codec en) (rs_to_json x))) k)"
proof (rule follows_step)
  fix c c' :: "'a connection" and r assume m: "reply MSG_RESPONSE (jc_to_vec (en_codec en) (rs_to_json x)) c = (r, c')"
  show "\<exists>st'. stage_step en h (Answering x) c c' st' \<and> (case r of Inl e \<Rightarrow> ends_in st' (Err e) | Inr u \<Rightarrow> follows en h st' (k u))"
  proof (cases r)
    case (Inl e)
    then have "stage_step en h (Answering x) c c' Failed"
      using reply_cases [OF m] by (intro answer_fail) auto
    with Inl show ?thesis by (intro exI [of _ Failed]) simp
  next
    case (Inr u)
    then have "stage_step en h (Answering x) c c' Quiet"
      using reply_cases [OF m] by (intro answer_write) auto
    with Inr assms show ?thesis by (intro exI [of _ Quiet]) simp
  qed
qed

lemma follows_reject:
  assumes "\<And>u. follows en h Quiet (k u)"
  shows "follows en h Rejecting (step_then (reply_error en msg) k)"
proof (rule follows_step)
  fix c c' :: "'a connection" and r assume m: "reply_error en msg c = (r, c')"
  show "\<exists>st'. stage_step en h Rejecting c c' st' \<and> (case r of Inl e \<Rightarrow> ends_in st' (Err e) | Inr u \<Rightarrow> follows en h st' (k u))"
  proof (cases r)
    case (Inl e)
    then have "stage_step en h (Rejecting) c c' Failed"
      using reply_cases [OF m [unfolded reply_error_def]] by (intro reject_fail) auto
    with Inl show ?thesis by (intro exI [of _ Failed]) simp
  next
    case (Inr u)
    then have "stage_step en h (Rejecting) c c' Quiet"
      using reply_cases [OF m [unfolded reply_error_def]] by (intro reject_write) auto
    with Inr assms show ?thesis by (intro exI [of _ Quiet]) simp
  qed
qed

lemma follows_handle:
  assumes "\<And>x. follows en h (Answering x) (k x)"
  shows "follows en h (Asking q) (step_then (run_handle h q) k)"
proof (rule follows_step)
  fix c r c' assume "run_handle h q c = (r, c')"
  then obtain x where "r = Ok x" "sh_handle h q (cn_handler c) = (x, cn_handler c')" "cn_sink c' = cn_sink c"
    by (auto simp: run_handle_def split: prod.splits)
  with assms show "\<exists>st'. stage_step en h (Asking q) c c' st' \<and> (case r of Inl e \<Rightarrow> ends_in st' (Err e) | Inr x \<Rightarrow> follows en h st' (k x))"
    by (auto intro!: exI [of _ "Answering x"] intro: ask_handle)
qed

text \<open>A request that JSON carries: its texts are UTF-8, its payload a value, nested less than 128 deep. Whether the server
  accepts it is another matter.\<close>

definition sendable :: "service_request \<Rightarrow> bool" where
  "sendable r \<longleftrightarrow> is_value (rq_payload r) \<and> readable (rq_to_json r)"

definition accepted :: "surroundings \<Rightarrow> service_request \<Rightarrow> bool" where
  "accepted en r \<longleftrightarrow> validate_request r \<and> length (jc_to_vec (en_codec en) (rq_to_json r)) \<le> cf_max_request_size (en_config en)"

abbreviation request_bytes :: "surroundings \<Rightarrow> service_request \<Rightarrow> bytes" where
  "request_bytes en r \<equiv> jc_to_vec (en_codec en) (rq_to_json r)"

abbreviation response_bytes :: "surroundings \<Rightarrow> service_response \<Rightarrow> bytes" where
  "response_bytes en x \<equiv> jc_to_vec (en_codec en) (rs_to_json x)"

lemma decode_request: "codec_law (en_codec en) \<Longrightarrow> sendable r \<Longrightarrow>
    decode (en_codec en) rq_of_json ''ServiceRequest'' (request_bytes en r) = Inr r"
  unfolding sendable_def by (intro service_request.decode_to_vec) simp_all

lemma follows_finish: "ends_in st (Ok True) \<Longrightarrow> follows en h st (Finish (Ok True))"
  by (rule follows_end)

lemmas follows_rules = follows_calm [OF calm_operations(1)] follows_calm [OF calm_operations(2)]
  follows_calm [OF calm_operations(3)] follows_calm [OF calm_operations(4)] follows_finish

lemma fine_request_asks:
  assumes "codec_law (en_codec en)" and "sendable r" and "accepted en r"
  shows "follows en h (Asking r) (fine_dispatch en h cid MSG_REQUEST (request_bytes en r))"
proof -
  have "\<not> length (request_bytes en r) > cf_max_request_size (en_config en)" "validate_request r"
    using assms(3) by (simp_all add: accepted_def)
  then have eq: "fine_dispatch en h cid MSG_REQUEST (request_bytes en r) =
      (let name = sh_service_name h in
      step_then (measure_start name) (\<lambda>_.
      step_then (event en (RequestReceived cid name (show_nat (unat MSG_REQUEST)))) (\<lambda>_.
      step_then (run_handle h r) (\<lambda>response.
      step_then elapsed (\<lambda>duration.
      step_then (reply MSG_RESPONSE (response_bytes en response)) (\<lambda>_.
      step_then (measure_end name duration (rs_status response = ''success'')) (\<lambda>_.
      step_then (event en (ResponseSent (rs_request_id response) name (rs_status response)
        (as_millis_u64 duration))) (\<lambda>_. Finish (Ok True)))))))))"
    using decode_request [OF assms(1,2)] by (simp add: fine_dispatch_def fine_request_def Let_def)
  show ?thesis
    unfolding eq Let_def by (intro follows_rules follows_handle follows_answer) simp_all
qed

lemma fine_request_rejects:
  assumes "codec_law (en_codec en)" and "sendable r" and "\<not> accepted en r"
  shows "follows en h Rejecting (fine_dispatch en h cid MSG_REQUEST (request_bytes en r))"
proof (cases "length (request_bytes en r) > cf_max_request_size (en_config en)")
  case True
  then show ?thesis
    unfolding fine_dispatch_def Let_def by (simp add: follows_reject follows_finish)
next
  case False
  then have "\<not> validate_request r" using assms(3) by (simp add: accepted_def)
  then have eq: "fine_dispatch en h cid MSG_REQUEST (request_bytes en r) =
      (let name = sh_service_name h in
      step_then (measure_start name) (\<lambda>_.
      step_then (event en (RequestReceived cid name (show_nat (unat MSG_REQUEST)))) (\<lambda>_.
      step_then elapsed (\<lambda>d.
      step_then (measure_end name d False) (\<lambda>_.
      step_then (reply_error en ''invalid request format'') (\<lambda>_. Finish (Ok True)))))))"
    using False decode_request [OF assms(1,2)] by (simp add: fine_dispatch_def fine_request_def Let_def)
  show ?thesis
    unfolding eq Let_def by (intro follows_rules follows_reject) simp_all
qed

section \<open>A program of which nothing is known\<close>

text \<open>\<open>acts h m\<close>: \<open>m\<close> calls the handler once at most.\<close>

definition acts :: "'s service_handler \<Rightarrow> ('s connection, 'a) action \<Rightarrow> bool" where
  "acts h m \<longleftrightarrow> (\<forall>c. foreign h (cn_handler c) (cn_handler (snd (m c))))"

lemma foreign_refl [simp]: "foreign h s s" by (simp add: foreign_def)

lemma actsD: "acts h m \<Longrightarrow> m c = (r, c') \<Longrightarrow> foreign h (cn_handler c) (cn_handler c')"
  by (auto simp: acts_def dest: spec [of _ c])

lemma acts_run: "acts h (run_handle h r)" "acts h (run_on_handshake h q)"
  by (auto simp: acts_def foreign_def run_handle_def run_on_handshake_def case_prod_beta)

lemma acts_keeps: "keeps cn_handler m \<Longrightarrow> acts h m"
  by (simp add: acts_def keeps_def)

lemma keeps_handler_more:
  "keeps cn_handler (rate_check en client)" "keeps cn_handler (serve_schema en h)"
  by (auto simp: keeps_def rate_check_def serve_schema_def reply_def split: prod.split)

lemma follows_any:
  assumes "acts h m" and "\<And>x. follows en h Anything (k x)"
  shows "follows en h Anything (step_then m k)"
proof (rule follows_step)
  fix c r c' assume "m c = (r, c')"
  from actsD [OF assms(1) this] assms(2)
  show "\<exists>st'. stage_step en h Anything c c' st' \<and> (case r of Inl e \<Rightarrow> ends_in st' (Err e) | Inr x \<Rightarrow> follows en h st' (k x))"
    by (cases r) (auto intro!: exI [of _ Anything] any_step)
qed

lemma follows_any_end: "follows en h Anything (Finish r)"
  by (rule follows_end) simp

lemmas any_rules = follows_any [OF acts_keeps [OF keeps_measure(3)]] follows_any [OF acts_keeps [OF keeps_measure(4)]]
  follows_any [OF acts_keeps [OF keeps_event(2)]] follows_any [OF acts_keeps [OF keeps_elapsed(2)]]
  follows_any [OF acts_keeps [OF keeps_reply(2)]] follows_any [OF acts_keeps [OF keeps_reply_error(2)]]
  follows_any [OF acts_keeps [OF keeps_give(3)]] follows_any [OF acts_keeps [OF keeps_handler_more(2)]]
  follows_any [OF acts_run(1)] follows_any_end

lemma fine_request_any: "follows en h Anything (fine_request en h cid t p)"
  unfolding fine_request_def Let_def by (intro any_rules) (auto intro!: any_rules split: sum.split)

lemma fine_stream_any: "follows en h Anything (fine_stream en h p)"
  unfolding fine_stream_def by (auto intro!: any_rules)

lemma fine_dispatch_any: "follows en h Anything (fine_dispatch en h cid t p)"
  unfolding fine_dispatch_def Let_def by (auto intro!: any_rules fine_request_any fine_stream_any)

text \<open>The handshake is taken as one step; it calls the handler once at most.\<close>

lemma acts_later: "keeps cn_handler m \<Longrightarrow> (\<And>x. acts h (f x)) \<Longrightarrow> acts h (and_then m f)"
  unfolding acts_def keeps_def and_then_def by (auto simp: case_prod_beta split: sum.split) metis

lemma acts_before: "acts h m \<Longrightarrow> (\<And>x. keeps cn_handler (f x)) \<Longrightarrow> acts h (and_then m f)"
  unfolding acts_def keeps_def and_then_def by (auto simp: case_prod_beta split: sum.split)

lemma acts_if: "acts h m \<Longrightarrow> acts h m' \<Longrightarrow> acts h (if b then m else m')"
  by simp

lemma acts_shake: "acts h (shake en h t p)"
  unfolding shake_def Let_def
  by (intro acts_if acts_later [OF keeps_give(3)] acts_later [OF keeps_event(2)] acts_later [OF keeps_handler_more(1)]
      acts_before [OF acts_run(2)] keeps_and_then keeps_reply keeps_give acts_keeps [OF keeps_give(2)]
      acts_keeps [OF keeps_and_then] keeps_reply_error)

end
