(* ===== verification/Shared_Service.thy ===== *)
theory Shared_Service
  imports Server_System Client Interleaving
begin

text \<open>
  Clients of \<^verbatim>\<open>src/src/client.rs\<close> on one server of \<^verbatim>\<open>src/src/server.rs\<close>. A call of a client is two steps: it
  writes its request, later it reads the answer; between the two, and between any two operations of
  the server's handling of a message, every other connection may move. Some connections end in clients, past their handshake; at the others anything may
  arrive. Connections break and timers fire at any moment.
\<close>

section \<open>A call in two steps\<close>

definition call_result :: "json_codec \<Rightarrow> u8 \<times> bytes \<Rightarrow> service_response result" where
  "call_result cd = (\<lambda>(msg_type, payload).
     if msg_type \<noteq> MSG_RESPONSE then Err (Protocol ''invalid response type'')
     else from_slice cd rs_of_json ''ServiceResponse'' payload)"

text \<open>The call of \<open>Client\<close> is these two steps, with the peer in between.\<close>

lemma do_call_two_steps:
  "do_call_internal cd peer late request =
     and_then (uds_write peer MSG_REQUEST (jc_to_vec cd (rq_to_json request))) (\<lambda>_.
     and_then (uds_read late) (\<lambda>m. lift_result (call_result cd m)))"
  unfolding do_call_internal_def call_result_def
  by (intro arg_cong2 [where f = and_then] refl ext) (auto simp: lift_result_def)

text \<open>
  The end of a connection that a client holds: whether it still does, what it has written and the
  server has not read, how much of what the server wrote it has read, the call that is waiting.
\<close>

record client_end =
  ce_open :: bool
  ce_pipe :: bytes
  ce_read :: nat
  ce_waiting :: "service_request option"

definition end_closed :: "client_end \<Rightarrow> client_end" where
  "end_closed e = e\<lparr>ce_open := False, ce_waiting := None\<rparr>"

definition client_write :: "json_codec \<Rightarrow> service_request \<Rightarrow> client_end \<Rightarrow> unit result \<times> client_end" where
  "client_write cd r e =
     (case write_message MSG_REQUEST (jc_to_vec cd (rq_to_json r)) \<lparr>sk_out = ce_pipe e, sk_room = None\<rparr> of
        (Inl err, _) \<Rightarrow> (Inl err, end_closed e)
      | (Inr _, k) \<Rightarrow> (Ok (), e\<lparr>ce_pipe := sk_out k, ce_waiting := Some r\<rparr>))"

text \<open>What the task at the other end has written, and what of it is unread; an error of the call drops the stream.\<close>

definition unread :: "task \<Rightarrow> client_end \<Rightarrow> bytes" where
  "unread tk e = drop (ce_read e) (sk_out (tk_sink tk))"

definition client_read :: "json_codec \<Rightarrow> bool \<Rightarrow> task \<Rightarrow> client_end \<Rightarrow> service_response result \<times> client_end" where
  "client_read cd late tk e =
     (if late then (Err Timeout, end_closed e)
      else case read_message (unread tk e) of
        (Inl err, _) \<Rightarrow> (Err err, end_closed e)
      | (Inr m, rest) \<Rightarrow>
          (case call_result cd m of
             Inl err \<Rightarrow> (Err err, end_closed e)
           | Inr x \<Rightarrow> (Ok x, e\<lparr>ce_read := length (sk_out (tk_sink tk)) - length rest, ce_waiting := None\<rparr>)))"

section \<open>The whole system\<close>

text \<open>\<open>sd_busy\<close>: the tasks that are handling a message, with what is left of its program.\<close>

record 's shared =
  sd_server :: "'s server_system"
  sd_busy :: "nat \<rightharpoonup> ('s connection, bool) prog"
  sd_ends :: "nat \<rightharpoonup> client_end"

definition shared_start :: "surroundings \<Rightarrow> metrics_collector option \<Rightarrow> 's \<Rightarrow> 's shared" where
  "shared_start en mc state = \<lparr>sd_server = system_start en mc state, sd_busy = Map.empty, sd_ends = Map.empty\<rparr>"

text \<open>Once a client has dropped its stream, the server's writes fail after \<open>n\<close> more bytes.\<close>

definition cut :: "nat \<Rightarrow> nat \<Rightarrow> 's server_system \<Rightarrow> 's server_system" where
  "cut i n s = s\<lparr>sy_tasks := (sy_tasks s)[i := (sy_tasks s ! i)\<lparr>tk_sink := (tk_sink (sy_tasks s ! i))\<lparr>sk_room := Some n\<rparr>\<rparr>]\<rparr>"

definition put_end :: "nat \<Rightarrow> nat \<Rightarrow> client_end \<Rightarrow> 's shared \<Rightarrow> 's shared" where
  "put_end i n e s = s\<lparr>sd_server := (if ce_open e then sd_server s else cut i n (sd_server s)),
     sd_ends := (sd_ends s)(i \<mapsto> e)\<rparr>"

abbreviation task_at :: "'s shared \<Rightarrow> nat \<Rightarrow> task" where
  "task_at s i \<equiv> sy_tasks (sd_server s) ! i"

text \<open>A task reads a message, carries out one operation of its program, comes to the end of it.\<close>

definition task_reads :: "surroundings \<Rightarrow> 's service_handler \<Rightarrow> nat \<Rightarrow> string \<Rightarrow> u8 \<Rightarrow> bytes \<Rightarrow> 's shared \<Rightarrow> 's shared" where
  "task_reads en h i client_id t p s =
     (let tk = task_at s i; sv = sd_server s in
      s\<lparr>sd_server := sv\<lparr>sy_tasks := (sy_tasks sv)[i := tk\<lparr>tk_taken := tk_taken tk @ [(t, p)]\<rparr>]\<rparr>,
        sd_busy := (sd_busy s)(i \<mapsto> fine_dispatch en h client_id t p)\<rparr>)"

definition task_acts :: "nat \<Rightarrow> duration list \<Rightarrow> ('s connection \<Rightarrow> 's connection) \<Rightarrow> ('s connection \<Rightarrow> ('s connection, bool) prog)
    \<Rightarrow> 's shared \<Rightarrow> 's shared" where
  "task_acts i ds upd next s =
     (let c = task_view (task_at s i) ds (sd_server s) in
      s\<lparr>sd_server := task_store i (task_at s i) (upd c) (sd_server s), sd_busy := (sd_busy s)(i \<mapsto> next c)\<rparr>)"

definition task_finishes :: "nat \<Rightarrow> bool result \<Rightarrow> 's shared \<Rightarrow> 's shared" where
  "task_finishes i r s =
     s\<lparr>sd_server := (case r of
         Inl e \<Rightarrow> task_end i (Err e) (sd_server s)
       | Inr go_on \<Rightarrow> if go_on then sd_server s else task_end i (Ok ()) (sd_server s)),
       sd_busy := (sd_busy s)(i := None)\<rparr>"

inductive shared_step :: "surroundings \<Rightarrow> 's service_handler \<Rightarrow> 's shared \<Rightarrow> call_event list \<Rightarrow> 's shared \<Rightarrow> bool"
  for en :: surroundings and h :: "'s service_handler" where
  sd_accept: "sk_out k = [] \<Longrightarrow>
    shared_step en h s [] (s\<lparr>sd_server := accept (cf_max_connections (en_config en)) k (sd_server s)\<rparr>)"
| sd_greet: "i < length (sy_tasks (sd_server s)) \<Longrightarrow> tk_phase (task_at s i) = Greeting \<Longrightarrow>
    shared_step en h s [] (s\<lparr>sd_server := receive en h i t p ds (sd_server s)\<rparr>)"
| sd_read: "i < length (sy_tasks (sd_server s)) \<Longrightarrow> tk_phase (task_at s i) = Serving cid \<Longrightarrow>
    sd_busy s i = None \<Longrightarrow> sd_ends s i = None \<Longrightarrow> shared_step en h s [] (task_reads en h i cid t p s)"
| sd_act: "sd_busy s i = Some (Act upd next) \<Longrightarrow> shared_step en h s [] (task_acts i ds upd next s)"
| sd_finish: "sd_busy s i = Some (Finish r) \<Longrightarrow> shared_step en h s [] (task_finishes i r s)"
| sd_hang_up: "i < length (sy_tasks (sd_server s)) \<Longrightarrow> sd_busy s i = None \<Longrightarrow>
    shared_step en h s [] (s\<lparr>sd_server := hang_up i e (sd_server s)\<rparr>)"
| sd_tick: "shared_step en h s [] (s\<lparr>sd_server := (sd_server s)\<lparr>sy_now := sy_now (sd_server s) + d\<rparr>\<rparr>)"
| sd_join: "i < length (sy_tasks (sd_server s)) \<Longrightarrow> sd_ends s i = None \<Longrightarrow> sd_busy s i = None \<Longrightarrow>
    tk_phase (task_at s i) = Serving cid \<Longrightarrow> sk_room (tk_sink (task_at s i)) = None \<Longrightarrow>
    e = \<lparr>ce_open = True, ce_pipe = [], ce_read = length (sk_out (tk_sink (task_at s i))), ce_waiting = None\<rparr> \<Longrightarrow>
    shared_step en h s [] (s\<lparr>sd_ends := (sd_ends s)(i \<mapsto> e)\<rparr>)"
| sd_invoke: "sd_ends s i = Some e \<Longrightarrow> ce_open e \<Longrightarrow> ce_waiting e = None \<Longrightarrow> sendable r \<Longrightarrow>
    client_write (en_codec en) r e = (Ok (), e') \<Longrightarrow> shared_step en h s [Invokes i r] (put_end i n e' s)"
| sd_refuse: "sd_ends s i = Some e \<Longrightarrow> ce_open e \<Longrightarrow> ce_waiting e = None \<Longrightarrow>
    client_write (en_codec en) r e = (Err err, e') \<or> \<not> running (task_at s i) \<and> e' = end_closed e \<and> err = from_io_error broken_pipe \<Longrightarrow>
    shared_step en h s [Invokes i r, Returns i (Err err)] (put_end i n e' s)"
| sd_serve: "sd_ends s i = Some e \<Longrightarrow> tk_phase (task_at s i) = Serving cid \<Longrightarrow> sd_busy s i = None \<Longrightarrow>
    read_message (ce_pipe e) = (Inr (t, p), rest) \<Longrightarrow>
    shared_step en h s [] ((task_reads en h i cid t p s)\<lparr>sd_ends := (sd_ends s)(i \<mapsto> e\<lparr>ce_pipe := rest\<rparr>)\<rparr>)"
| sd_return: "sd_ends s i = Some e \<Longrightarrow> ce_open e \<Longrightarrow> ce_waiting e = Some r \<Longrightarrow>
    late \<or> is_ok (fst (read_message (unread (task_at s i) e))) \<or> \<not> running (task_at s i) \<Longrightarrow>
    client_read (en_codec en) late (task_at s i) e = (x, e') \<Longrightarrow>
    shared_step en h s [Returns i x] (put_end i n e' s)"
| sd_leave: "sd_ends s i = Some e \<Longrightarrow> ce_open e \<Longrightarrow> ce_waiting e = None \<Longrightarrow>
    shared_step en h s [] (put_end i n (end_closed e) s)"

end
