(* ===== verification/Coupling.thy ===== *)
theory Coupling
  imports Shared_Service
begin

text \<open>
  How the system of \<open>Shared_Service\<close> and the object of \<open>Atomic_Service\<close> correspond: for every client, what its pipe, its
  unread bytes and the program of its task say about the phase of its call. Each step of the system
  is one step of the object, or none.
\<close>

section \<open>The relation to the atomic object\<close>

text \<open>What a task may be doing: nothing or what is left after a written answer; nothing that calls the handler.\<close>

definition winding_down :: "surroundings \<Rightarrow> 's service_handler \<Rightarrow> ('s connection, bool) prog option \<Rightarrow> bool" where
  "winding_down en h b = (case b of None \<Rightarrow> True | Some P \<Rightarrow> follows en h Quiet P)"

fun mute_stage :: "stage \<Rightarrow> bool" where
  "mute_stage (Asking r) = False"
| "mute_stage Anything = False"
| "mute_stage _ = True"

definition mute :: "surroundings \<Rightarrow> 's service_handler \<Rightarrow> ('s connection, bool) prog option \<Rightarrow> bool" where
  "mute en h b = (case b of None \<Rightarrow> True | Some P \<Rightarrow> \<exists>st. mute_stage st \<and> follows en h st P)"

definition requested :: "surroundings \<Rightarrow> service_request \<Rightarrow> client_end \<Rightarrow> bool" where
  "requested en r e \<longleftrightarrow> ce_pipe e = frame_bytes 1 MSG_REQUEST (request_bytes en r) \<and> fits (request_bytes en r)"

text \<open>An asked call: its request is in the pipe, or being handled, or refused with an error, or the connection has failed.\<close>

inductive asked :: "surroundings \<Rightarrow> 's service_handler \<Rightarrow> task \<Rightarrow> ('s connection, bool) prog option \<Rightarrow> client_end \<Rightarrow> service_request \<Rightarrow> bool"
  for en :: surroundings and h :: "'s service_handler" and tk :: task and b :: "('s connection, bool) prog option"
    and e :: client_end and r :: service_request where
  in_pipe: "requested en r e \<Longrightarrow> unread tk e = [] \<Longrightarrow> winding_down en h b \<Longrightarrow> asked en h tk b e r"
| in_hand: "ce_pipe e = [] \<Longrightarrow> unread tk e = [] \<Longrightarrow> b = Some P \<Longrightarrow> follows en h (Asking r) P \<Longrightarrow> asked en h tk b e r"
| in_refusal: "ce_pipe e = [] \<Longrightarrow> unread tk e = [] \<Longrightarrow> \<not> accepted en r \<Longrightarrow> b = Some P \<Longrightarrow> st = Rejecting \<or> st = Failed \<Longrightarrow>
    follows en h st P \<Longrightarrow> asked en h tk b e r"
| refused_with: "ce_pipe e = [] \<Longrightarrow> unread tk e = frame_bytes 1 MSG_ERROR p \<Longrightarrow> fits p \<Longrightarrow> \<not> accepted en r \<Longrightarrow> winding_down en h b \<Longrightarrow>
    asked en h tk b e r"
| cut_off: "ce_pipe e = [] \<Longrightarrow> unread tk e = [] \<Longrightarrow> b = None \<Longrightarrow> \<not> running tk \<Longrightarrow> asked en h tk b e r"

inductive settled :: "surroundings \<Rightarrow> 's service_handler \<Rightarrow> task \<Rightarrow> ('s connection, bool) prog option \<Rightarrow> client_end \<Rightarrow> service_response \<Rightarrow> bool"
  for en :: surroundings and h :: "'s service_handler" and tk :: task and b :: "('s connection, bool) prog option"
    and e :: client_end and x :: service_response where
  answering: "unread tk e = [] \<Longrightarrow> b = Some P \<Longrightarrow> follows en h (Answering x) P \<Longrightarrow> settled en h tk b e x"
| unanswerable: "unread tk e = [] \<Longrightarrow> b = Some P \<Longrightarrow> follows en h Failed P \<Longrightarrow> \<not> fits (response_bytes en x) \<Longrightarrow> settled en h tk b e x"
| answered_with: "unread tk e = frame_bytes 1 MSG_RESPONSE (response_bytes en x) \<Longrightarrow> fits (response_bytes en x) \<Longrightarrow> winding_down en h b \<Longrightarrow>
    settled en h tk b e x"
| answer_lost: "unread tk e = [] \<Longrightarrow> b = None \<Longrightarrow> \<not> running tk \<Longrightarrow> settled en h tk b e x"

fun agrees :: "surroundings \<Rightarrow> 's service_handler \<Rightarrow> task \<Rightarrow> ('s connection, bool) prog option \<Rightarrow> client_end \<Rightarrow> call_phase \<Rightarrow> bool" where
  "agrees en h tk b e Resting \<longleftrightarrow> ce_open e \<and> ce_waiting e = None \<and> sk_room (tk_sink tk) = None
     \<and> ce_pipe e = [] \<and> unread tk e = [] \<and> winding_down en h b"
| "agrees en h tk b e (Asked r) \<longleftrightarrow> ce_open e \<and> ce_waiting e = Some r \<and> sk_room (tk_sink tk) = None \<and> sendable r
     \<and> asked en h tk b e r"
| "agrees en h tk b e (Settled r x) \<longleftrightarrow> ce_open e \<and> ce_waiting e = Some r \<and> sk_room (tk_sink tk) = None \<and> ce_pipe e = []
     \<and> (\<exists>st. x = fst (sh_handle h r st)) \<and> is_value (rs_payload x) \<and> readable (rs_to_json x) \<and> settled en h tk b e x"
| "agrees en h tk b e (Adrift r) \<longleftrightarrow> \<not> ce_open e \<and> sendable r \<and> (requested en r e \<and> mute en h b
     \<or> ce_pipe e = [] \<and> (mute en h b \<or> (\<exists>P. b = Some P \<and> follows en h (Asking r) P)))"
| "agrees en h tk b e Gone \<longleftrightarrow> \<not> ce_open e \<and> ce_pipe e = [] \<and> mute en h b"

definition end_agrees :: "surroundings \<Rightarrow> 's service_handler \<Rightarrow> task list \<Rightarrow> (nat \<rightharpoonup> ('s connection, bool) prog) \<Rightarrow> nat \<Rightarrow> client_end \<Rightarrow> call_phase \<Rightarrow> bool" where
  "end_agrees en h tks busy i e ph \<longleftrightarrow> i < length tks \<and> tk_phase (tks ! i) \<noteq> Greeting
     \<and> (busy i \<noteq> None \<longrightarrow> running (tks ! i))
     \<and> (ce_open e \<longrightarrow> ce_read e \<le> length (sk_out (tk_sink (tks ! i)))) \<and> agrees en h (tks ! i) (busy i) e ph"

text \<open>The program of a stranger may do anything, once per operation.\<close>

definition coupled :: "surroundings \<Rightarrow> 's service_handler \<Rightarrow> 's shared \<Rightarrow> 's atomic_service \<Rightarrow> bool" where
  "coupled en h s a \<longleftrightarrow> at_state a = sy_handler (sd_server s)
     \<and> (\<forall>i. rel_option (end_agrees en h (sy_tasks (sd_server s)) (sd_busy s) i) (sd_ends s i) (at_calls a i))
     \<and> (\<forall>i P. sd_busy s i = Some P \<longrightarrow> sd_ends s i = None \<longrightarrow> follows en h Anything P)"

lemma coupled_state: "coupled en h s a \<Longrightarrow> at_state a = sy_handler (sd_server s)"
  by (simp add: coupled_def)

lemma coupled_stranger: "coupled en h s a \<Longrightarrow> sd_busy s i = Some P \<Longrightarrow> sd_ends s i = None \<Longrightarrow> follows en h Anything P"
  by (simp add: coupled_def)

lemma coupled_rel:
  "coupled en h s a \<Longrightarrow> rel_option (end_agrees en h (sy_tasks (sd_server s)) (sd_busy s) i) (sd_ends s i) (at_calls a i)"
  by (simp add: coupled_def)

lemma coupled_noneD: "coupled en h s a \<Longrightarrow> sd_ends s i = None \<Longrightarrow> at_calls a i = None"
  using coupled_rel [of en h s a i] by simp

lemma coupledD:
  assumes "coupled en h s a" and "sd_ends s i = Some e"
  obtains ph where "at_calls a i = Some ph" "end_agrees en h (sy_tasks (sd_server s)) (sd_busy s) i e ph"
  using coupled_rel [OF assms(1), of i] assms(2) by (auto simp: option_rel_Some1)

text \<open>A step at one client's connection, and a step at no client's.\<close>

lemma coupled_at:
  assumes "coupled en h s a" and "at_state a' = sy_handler (sd_server s')"
    and "length (sy_tasks (sd_server s)) \<le> length (sy_tasks (sd_server s'))"
    and "\<And>j. j \<noteq> i \<Longrightarrow> task_at s' j = task_at s j" and "\<And>j. j \<noteq> i \<Longrightarrow> sd_busy s' j = sd_busy s j"
    and "sd_ends s' = (sd_ends s)(i \<mapsto> e)" and "at_calls a' = (at_calls a)(i \<mapsto> ph)"
    and "end_agrees en h (sy_tasks (sd_server s')) (sd_busy s') i e ph"
  shows "coupled en h s' a'"
  unfolding coupled_def
proof (intro conjI allI impI)
  fix j
  show "rel_option (end_agrees en h (sy_tasks (sd_server s')) (sd_busy s') j) (sd_ends s' j) (at_calls a' j)"
  proof (cases "j = i")
    case False
    have "rel_option (end_agrees en h (sy_tasks (sd_server s')) (sd_busy s') j) (sd_ends s j) (at_calls a j)"
      by (rule option.rel_mono_strong [OF coupled_rel [OF assms(1)]])
        (use assms(3) assms(4,5) [OF False] in \<open>simp add: end_agrees_def\<close>)
    then show ?thesis using False assms(6,7) by simp
  qed (use assms(6-8) in simp)
next
  fix j P assume "sd_busy s' j = Some P" "sd_ends s' j = None"
  moreover from this assms(6) have "j \<noteq> i" by auto
  ultimately show "follows en h Anything P" using coupled_stranger [OF assms(1)] assms(5,6) by simp
qed (rule assms(2))

lemma coupled_rest:
  assumes "coupled en h s a" and "length (sy_tasks (sd_server s)) \<le> length (sy_tasks (sd_server s'))"
    and "\<And>j. j < length (sy_tasks (sd_server s)) \<Longrightarrow> sd_ends s j \<noteq> None \<Longrightarrow> task_at s' j = task_at s j \<and> sd_busy s' j = sd_busy s j"
    and "sd_ends s' = sd_ends s" and "\<And>j P. sd_busy s' j = Some P \<Longrightarrow> sd_ends s j = None \<Longrightarrow> follows en h Anything P"
  shows "coupled en h s' (a\<lparr>at_state := sy_handler (sd_server s')\<rparr>)"
  unfolding coupled_def
proof (intro conjI allI impI)
  fix j
  have "rel_option (end_agrees en h (sy_tasks (sd_server s')) (sd_busy s') j) (sd_ends s j) (at_calls a j)"
  proof (rule option.rel_mono_strong [OF coupled_rel [OF assms(1)]])
    fix e ph
    assume e: "e \<in> set_option (sd_ends s j)" and ok: "end_agrees en h (sy_tasks (sd_server s)) (sd_busy s) j e ph"
    have "task_at s' j = task_at s j \<and> sd_busy s' j = sd_busy s j" using e ok by (intro assms(3)) (auto simp: end_agrees_def)
    with ok assms(2) show "end_agrees en h (sy_tasks (sd_server s')) (sd_busy s') j e ph" by (simp add: end_agrees_def)
  qed
  then show "rel_option (end_agrees en h (sy_tasks (sd_server s')) (sd_busy s') j) (sd_ends s' j)
      (at_calls (a\<lparr>at_state := sy_handler (sd_server s')\<rparr>) j)" using assms(4) by simp
next
  fix j P assume "sd_busy s' j = Some P" "sd_ends s' j = None"
  then show "follows en h Anything P" using assms(4,5) by simp
qed simp

lemma rest_step:
  assumes "coupled en h s a" and "length (sy_tasks (sd_server s)) \<le> length (sy_tasks (sd_server s'))"
    and "\<And>j. j < length (sy_tasks (sd_server s)) \<Longrightarrow> sd_ends s j \<noteq> None \<Longrightarrow> task_at s' j = task_at s j \<and> sd_busy s' j = sd_busy s j"
    and "sd_ends s' = sd_ends s" and "\<And>j P. sd_busy s' j = Some P \<Longrightarrow> sd_ends s j = None \<Longrightarrow> follows en h Anything P"
    and "foreign h (sy_handler (sd_server s)) (sy_handler (sd_server s'))"
  shows "\<exists>a'. atomic_step h a [] a' \<and> coupled en h s' a'"
  using coupled_rest [OF assms(1-5)] at_other [of h a "sy_handler (sd_server s')"] assms(6) coupled_state [OF assms(1)] by auto

section \<open>Steps of the server\<close>

lemma receive_others [simp]:
  "length (sy_tasks (receive en h i t p ds s)) = length (sy_tasks s)"
  "j \<noteq> i \<Longrightarrow> sy_tasks (receive en h i t p ds s) ! j = sy_tasks s ! j"
  by (simp_all add: receive_def task_store_def task_end_def Let_def split: prod.split sum.split task_phase.split)

lemma hang_up_others [simp]:
  "length (sy_tasks (hang_up i e s)) = length (sy_tasks s)" "j \<noteq> i \<Longrightarrow> sy_tasks (hang_up i e s) ! j = sy_tasks s ! j"
  "sy_handler (hang_up i e s) = sy_handler s"
  by (simp_all add: hang_up_def task_end_def split: task_phase.split)

lemma cut_simps [simp]:
  "length (sy_tasks (cut i n s)) = length (sy_tasks s)" "j \<noteq> i \<Longrightarrow> sy_tasks (cut i n s) ! j = sy_tasks s ! j"
  "sy_handler (cut i n s) = sy_handler s"
  "i < length (sy_tasks s) \<Longrightarrow> tk_phase (sy_tasks (cut i n s) ! i) = tk_phase (sy_tasks s ! i)"
  "i < length (sy_tasks s) \<Longrightarrow> sk_out (tk_sink (sy_tasks (cut i n s) ! i)) = sk_out (tk_sink (sy_tasks s ! i))"
  by (simp_all add: cut_def)

lemma task_reads_simps [simp]:
  "sy_handler (sd_server (task_reads en h i cid t p s)) = sy_handler (sd_server s)"
  "length (sy_tasks (sd_server (task_reads en h i cid t p s))) = length (sy_tasks (sd_server s))"
  "j \<noteq> i \<Longrightarrow> task_at (task_reads en h i cid t p s) j = task_at s j"
  "sd_busy (task_reads en h i cid t p s) = (sd_busy s)(i \<mapsto> fine_dispatch en h cid t p)"
  "sd_ends (task_reads en h i cid t p s) = sd_ends s"
  "i < length (sy_tasks (sd_server s)) \<Longrightarrow> task_at (task_reads en h i cid t p s) i = (task_at s i)\<lparr>tk_taken := tk_taken (task_at s i) @ [(t, p)]\<rparr>"
  by (simp_all add: task_reads_def Let_def)

lemma task_acts_simps [simp]:
  "sy_handler (sd_server (task_acts i ds u n s)) = cn_handler (u (task_view (task_at s i) ds (sd_server s)))"
  "length (sy_tasks (sd_server (task_acts i ds u n s))) = length (sy_tasks (sd_server s))"
  "j \<noteq> i \<Longrightarrow> task_at (task_acts i ds u n s) j = task_at s j"
  "sd_busy (task_acts i ds u n s) = (sd_busy s)(i \<mapsto> n (task_view (task_at s i) ds (sd_server s)))"
  "sd_ends (task_acts i ds u n s) = sd_ends s"
  "i < length (sy_tasks (sd_server s)) \<Longrightarrow>
    task_at (task_acts i ds u n s) i = (task_at s i)\<lparr>tk_sink := cn_sink (u (task_view (task_at s i) ds (sd_server s)))\<rparr>"
  by (simp_all add: task_acts_def task_store_def Let_def)

lemma task_finishes_simps [simp]:
  "sy_handler (sd_server (task_finishes i r s)) = sy_handler (sd_server s)"
  "length (sy_tasks (sd_server (task_finishes i r s))) = length (sy_tasks (sd_server s))"
  "j \<noteq> i \<Longrightarrow> task_at (task_finishes i r s) j = task_at s j"
  "sd_busy (task_finishes i r s) = (sd_busy s)(i := None)"
  "sd_ends (task_finishes i r s) = sd_ends s"
  by (simp_all add: task_finishes_def task_end_def split: sum.split)

lemma task_finishes_at:
  "i < length (sy_tasks (sd_server s)) \<Longrightarrow> task_at (task_finishes i r s) i =
    (case r of Inl e \<Rightarrow> (task_at s i)\<lparr>tk_phase := Ended (Err e)\<rparr>
     | Inr go_on \<Rightarrow> if go_on then task_at s i else (task_at s i)\<lparr>tk_phase := Ended (Ok ())\<rparr>)"
  by (simp add: task_finishes_def task_end_def split: sum.split)

lemma view_simps [simp]:
  "cn_handler (task_view tk ds s) = sy_handler s" "cn_sink (task_view tk ds s) = tk_sink tk"
  by (simp_all add: task_view_def)

lemma receive_foreign:
  assumes "tk_phase (sy_tasks s ! i) = Greeting"
  shows "foreign h (sy_handler s) (sy_handler (receive en h i t p ds s))"
  using actsD [OF acts_shake, of "en\<lparr>en_now := sy_now s\<rparr>" h t p "task_view (sy_tasks s ! i) ds s"] assms
  by (auto simp: receive_def task_store_def task_end_def Let_def split: prod.split sum.split)

lemma greet_step:
  assumes "coupled en h s a" and "tk_phase (task_at s i) = Greeting"
  shows "\<exists>a'. atomic_step h a [] a' \<and> coupled en h (s\<lparr>sd_server := receive en h i t p ds (sd_server s)\<rparr>) a'"
proof (rule rest_step [OF assms(1)])
  fix j assume "sd_ends s j \<noteq> None"
  then obtain e where "sd_ends s j = Some e" by auto
  then have "tk_phase (task_at s j) \<noteq> Greeting" using coupledD [OF assms(1)] by (metis end_agrees_def)
  then have "j \<noteq> i" using assms(2) by auto
  then show "task_at (s\<lparr>sd_server := receive en h i t p ds (sd_server s)\<rparr>) j = task_at s j
    \<and> sd_busy (s\<lparr>sd_server := receive en h i t p ds (sd_server s)\<rparr>) j = sd_busy s j" by simp
qed (use assms coupled_stranger [OF assms(1)] receive_foreign in auto)

lemma read_step:
  assumes "coupled en h s a" and "sd_ends s i = None"
  shows "\<exists>a'. atomic_step h a [] a' \<and> coupled en h (task_reads en h i cid t p s) a'"
proof (rule rest_step [OF assms(1)])
  fix j assume "sd_ends s j \<noteq> None"
  then have "j \<noteq> i" using assms(2) by auto
  then show "task_at (task_reads en h i cid t p s) j = task_at s j \<and> sd_busy (task_reads en h i cid t p s) j = sd_busy s j" by simp
next
  fix j P assume "sd_busy (task_reads en h i cid t p s) j = Some P" "sd_ends s j = None"
  then show "follows en h Anything P"
    using coupled_stranger [OF assms(1)] fine_dispatch_any by (cases "j = i") auto
qed simp_all

text \<open>A client's connection whose task moves.\<close>

lemma unchanged: "at_calls a i = Some ph \<Longrightarrow> at_state a = st \<Longrightarrow> atomic_step h a [] (set_call i ph st a)"
  using at_idle [of h a] by (cases a) (simp add: set_call_def fun_upd_idem)

lemma act_conclude:
  assumes "coupled en h s a" and "sd_ends s i = Some e" and "end_agrees en h (sy_tasks (sd_server s)) (sd_busy s) i e ph"
    and "sd_busy s i = Some (Act u n)"
    and "atomic_step h a [] (set_call i ph' (cn_handler (u (task_view (task_at s i) ds (sd_server s)))) a)"
    and "agrees en h ((task_at s i)\<lparr>tk_sink := cn_sink (u (task_view (task_at s i) ds (sd_server s)))\<rparr>)
      (Some (n (task_view (task_at s i) ds (sd_server s)))) e ph'"
    and "ce_open e \<Longrightarrow> length (sk_out (tk_sink (task_at s i))) \<le> length (sk_out (cn_sink (u (task_view (task_at s i) ds (sd_server s)))))"
  shows "\<exists>a'. atomic_step h a [] a' \<and> coupled en h (task_acts i ds u n s) a'"
proof (intro exI conjI)
  show "coupled en h (task_acts i ds u n s) (set_call i ph' (cn_handler (u (task_view (task_at s i) ds (sd_server s)))) a)"
    by (rule coupled_at [OF assms(1), where i = i and e = e and ph = ph'])
      (use assms(2,3,4,6,7) in \<open>auto simp: end_agrees_def running_def\<close>)
qed (rule assms(5))

lemma mute_act:
  assumes "mute en h (Some (Act u n))"
  shows "cn_handler (u c) = cn_handler c" and "mute en h (Some (n c))"
proof -
  obtain st where st: "mute_stage st" "follows en h st (Act u n)" using assms by (auto simp: mute_def)
  obtain st' where st': "stage_step en h st c (u c) st'" "follows en h st' (n c)" using follows_actD [OF st(2)] .
  have "cn_handler (u c) = cn_handler c \<and> mute_stage st'" using st'(1) st(1) by (cases rule: stage_step.cases) auto
  with st'(2) show "cn_handler (u c) = cn_handler c" "mute en h (Some (n c))" by (auto simp: mute_def)
qed

lemma quiet_act:
  assumes "winding_down en h (Some (Act u n))"
  shows "cn_handler (u c) = cn_handler c" and "cn_sink (u c) = cn_sink c" and "winding_down en h (Some (n c))"
proof -
  have q: "follows en h Quiet (Act u n)" using assms by (simp add: winding_down_def)
  obtain st' where st': "stage_step en h Quiet c (u c) st'" "follows en h st' (n c)" using follows_actD [OF q] .
  then show "cn_handler (u c) = cn_handler c" "cn_sink (u c) = cn_sink c" "winding_down en h (Some (n c))"
    by (auto simp: winding_down_def elim!: quiet_stepE)
qed

lemma failed_acts: "\<not> follows en h Failed (Act u n)"
proof
  assume "follows en h Failed (Act u n)"
  from follows_actD [OF this] show False by (metis failed_stepE)
qed

text \<open>
  A handler whose answers JSON carries too.
\<close>

definition sound_handler :: "'s service_handler \<Rightarrow> bool" where
  "sound_handler h \<longleftrightarrow> (\<forall>r s. sendable r \<longrightarrow>
     is_value (rs_payload (fst (sh_handle h r s))) \<and> readable (rs_to_json (fst (sh_handle h r s))))"

lemma sound_handlerD: "sound_handler h \<Longrightarrow> sendable r \<Longrightarrow> sh_handle h r s = (x, s') \<Longrightarrow> is_value (rs_payload x) \<and> readable (rs_to_json x)"
  unfolding sound_handler_def by (metis fst_conv)


lemma same_sink [simp]: "tk\<lparr>tk_sink := tk_sink tk\<rparr> = tk"
  by (cases tk) simp

lemma unread_more: "ce_read e \<le> length (sk_out (tk_sink tk)) \<Longrightarrow> sk_out k = sk_out (tk_sink tk) @ bs \<Longrightarrow>
    unread (tk\<lparr>tk_sink := k\<rparr>) e = unread tk e @ bs"
  by (simp add: unread_def)

lemma asked_act:
  assumes "asked en h tk (Some (Act u n)) e r" and c: "cn_sink c = tk_sink tk" and room: "sk_room (tk_sink tk) = None"
    and len: "ce_read e \<le> length (sk_out (tk_sink tk))"
  shows "cn_handler (u c) = cn_handler c \<and> sk_room (cn_sink (u c)) = None \<and> asked en h (tk\<lparr>tk_sink := cn_sink (u c)\<rparr>) (Some (n c)) e r
      \<and> length (sk_out (tk_sink tk)) \<le> length (sk_out (cn_sink (u c)))
    \<or> (\<exists>x. sh_handle h r (cn_handler c) = (x, cn_handler (u c)) \<and> cn_sink (u c) = tk_sink tk \<and> ce_pipe e = []
      \<and> settled en h tk (Some (n c)) e x)"
  using assms(1)
proof cases
  case in_pipe
  with quiet_act [OF in_pipe(3), of c] c room show ?thesis by (auto intro: asked.in_pipe)
next
  case (refused_with p)
  with quiet_act [OF refused_with(5), of c] c room show ?thesis by (auto intro: asked.refused_with)
next
  case (in_hand P)
  then have "follows en h (Asking r) (Act u n)" by simp
  from follows_actD [OF this, of c] obtain st' where st: "stage_step en h (Asking r) c (u c) st'" "follows en h st' (n c)" .
  from st(1) consider (wait) "st' = Asking r" "cn_handler (u c) = cn_handler c" "cn_sink (u c) = cn_sink c"
    | (took) x where "st' = Answering x" "sh_handle h r (cn_handler c) = (x, cn_handler (u c))" "cn_sink (u c) = cn_sink c"
    by (rule asking_stepE)
  then show ?thesis
  proof cases
    case wait
    with in_hand st(2) c room show ?thesis by (auto intro: asked.in_hand)
  next
    case (took x)
    with in_hand st(2) c show ?thesis by (auto intro: settled.answering)
  qed
next
  case (in_refusal P st)
  then have "follows en h Rejecting (Act u n)" using failed_acts by auto
  from follows_actD [OF this, of c] obtain st' where st: "stage_step en h Rejecting c (u c) st'" "follows en h st' (n c)" .
  from st(1) consider (wait) "st' = Rejecting" "cn_handler (u c) = cn_handler c" "cn_sink (u c) = cn_sink c"
    | (wrote) p where "st' = Quiet" "cn_handler (u c) = cn_handler c" "fits p" "sk_room (cn_sink (u c)) = None"
        "sk_out (cn_sink (u c)) = sk_out (tk_sink tk) @ frame_bytes 1 MSG_ERROR p"
    | (fail) "st' = Failed" "cn_handler (u c) = cn_handler c" "cn_sink (u c) = cn_sink c"
    by (rule rejecting_stepE) (use c room in auto)
  then show ?thesis
  proof cases
    case wait
    with in_refusal st(2) c room show ?thesis by (auto intro: asked.in_refusal)
  next
    case (wrote p)
    then have "asked en h (tk\<lparr>tk_sink := cn_sink (u c)\<rparr>) (Some (n c)) e r"
      using in_refusal st(2) unread_more [OF len wrote(5)] by (auto intro!: asked.refused_with simp: winding_down_def)
    with wrote show ?thesis by simp
  next
    case fail
    with in_refusal st(2) c room show ?thesis by (auto intro: asked.in_refusal)
  qed
qed simp

lemma settled_act:
  assumes "settled en h tk (Some (Act u n)) e x" and c: "cn_sink c = tk_sink tk" and room: "sk_room (tk_sink tk) = None"
    and len: "ce_read e \<le> length (sk_out (tk_sink tk))"
  shows "cn_handler (u c) = cn_handler c \<and> sk_room (cn_sink (u c)) = None \<and> settled en h (tk\<lparr>tk_sink := cn_sink (u c)\<rparr>) (Some (n c)) e x
      \<and> length (sk_out (tk_sink tk)) \<le> length (sk_out (cn_sink (u c)))"
  using assms(1)
proof cases
  case answered_with
  with quiet_act [OF answered_with(3), of c] c room show ?thesis by (auto intro: settled.answered_with)
next
  case (unanswerable P)
  then show ?thesis using failed_acts by auto
next
  case (answering P)
  then have "follows en h (Answering x) (Act u n)" by simp
  from follows_actD [OF this, of c] obtain st' where st: "stage_step en h (Answering x) c (u c) st'" "follows en h st' (n c)" .
  from st(1) consider (wait) "st' = Answering x" "cn_handler (u c) = cn_handler c" "cn_sink (u c) = cn_sink c"
    | (wrote) "st' = Quiet" "cn_handler (u c) = cn_handler c" "fits (response_bytes en x)" "sk_room (cn_sink (u c)) = None"
        "sk_out (cn_sink (u c)) = sk_out (tk_sink tk) @ frame_bytes 1 MSG_RESPONSE (response_bytes en x)"
    | (fail) "st' = Failed" "cn_handler (u c) = cn_handler c" "\<not> fits (response_bytes en x)" "cn_sink (u c) = cn_sink c"
    by (rule answering_stepE) (use c room in auto)
  then show ?thesis
  proof cases
    case wait
    with answering st(2) c room show ?thesis by (auto intro: settled.answering)
  next
    case wrote
    then have "settled en h (tk\<lparr>tk_sink := cn_sink (u c)\<rparr>) (Some (n c)) e x"
      using answering st(2) unread_more [OF len wrote(5)] by (auto intro!: settled.answered_with simp: winding_down_def)
    with wrote show ?thesis by simp
  next
    case fail
    with answering st(2) c room show ?thesis by (auto intro: settled.unanswerable)
  qed
qed simp

text \<open>What an operation of the server's task may mean for the call.\<close>

inductive call_move :: "'s service_handler \<Rightarrow> 's \<Rightarrow> call_phase \<Rightarrow> 's \<Rightarrow> call_phase \<Rightarrow> bool" for h :: "'s service_handler" where
  still: "call_move h st ph st ph"
| effect: "sh_handle h r st = (x, st') \<Longrightarrow> call_move h st (Asked r) st' (Settled r x)"
| late_effect: "sh_handle h r st = (x, st') \<Longrightarrow> call_move h st (Adrift r) st' Gone"

lemma call_move_step: "call_move h (at_state a) ph st ph' \<Longrightarrow> at_calls a i = Some ph \<Longrightarrow> atomic_step h a [] (set_call i ph' st a)"
  by (induction "at_state a" ph st ph' rule: call_move.induct) (auto intro: unchanged at_effect at_late)

text \<open>\<open>moves\<close>: after the operation the task agrees with the phase that the call has come to.\<close>

definition moves :: "surroundings \<Rightarrow> 's service_handler \<Rightarrow> task \<Rightarrow> client_end \<Rightarrow> call_phase \<Rightarrow> 's connection \<Rightarrow> 's connection
    \<Rightarrow> ('s connection, bool) prog \<Rightarrow> bool" where
  "moves en h tk e ph c c' P \<longleftrightarrow> (\<exists>ph'. call_move h (cn_handler c) ph (cn_handler c') ph'
     \<and> agrees en h (tk\<lparr>tk_sink := cn_sink c'\<rparr>) (Some P) e ph'
     \<and> (ce_open e \<longrightarrow> length (sk_out (tk_sink tk)) \<le> length (sk_out (cn_sink c'))))"

lemma movesI:
  assumes "call_move h (cn_handler c) ph (cn_handler c') ph'" and "agrees en h (tk\<lparr>tk_sink := cn_sink c'\<rparr>) (Some P) e ph'"
    and "ce_open e \<Longrightarrow> length (sk_out (tk_sink tk)) \<le> length (sk_out (cn_sink c'))"
  shows "moves en h tk e ph c c' P"
  using assms by (auto simp: moves_def)

lemma asked_moves:
  assumes ag: "agrees en h tk (Some (Act u n)) e (Asked r)" and c: "cn_sink c = tk_sink tk"
    and len: "ce_read e \<le> length (sk_out (tk_sink tk))" and "sound_handler h"
  shows "moves en h tk e (Asked r) c (u c) (n c)"
proof -
  have q: "asked en h tk (Some (Act u n)) e r" "sk_room (tk_sink tk) = None" "sendable r" using ag by simp_all
  consider (stay) "cn_handler (u c) = cn_handler c" "sk_room (cn_sink (u c)) = None"
        "asked en h (tk\<lparr>tk_sink := cn_sink (u c)\<rparr>) (Some (n c)) e r"
        "length (sk_out (tk_sink tk)) \<le> length (sk_out (cn_sink (u c)))"
    | (took) x where "sh_handle h r (cn_handler c) = (x, cn_handler (u c))" "cn_sink (u c) = tk_sink tk" "ce_pipe e = []"
        "settled en h tk (Some (n c)) e x"
    using asked_act [OF q(1) c q(2) len] by auto
  then show ?thesis
  proof cases
    case stay
    with ag show ?thesis by (intro movesI [of _ _ _ _ "Asked r"]) (auto intro: still)
  next
    case (took x)
    then have "\<exists>st. x = fst (sh_handle h r st)" by (metis fst_conv)
    with took ag sound_handlerD [OF assms(4) q(3) took(1)] show ?thesis
      by (intro movesI [of _ _ _ _ "Settled r x"]) (auto intro: effect)
  qed
qed

lemma adrift_moves:
  assumes ag: "agrees en h tk (Some (Act u n)) e (Adrift r)"
  shows "moves en h tk e (Adrift r) c (u c) (n c)"
proof (cases "mute en h (Some (Act u n))")
  case True
  from mute_act [OF this, of c] show ?thesis using ag by (intro movesI [of _ _ _ _ "Adrift r"]) (auto intro: still)
next
  case False
  then have ask: "ce_pipe e = []" "follows en h (Asking r) (Act u n)" "\<not> ce_open e" "sendable r" using ag by auto
  obtain st' where st: "stage_step en h (Asking r) c (u c) st'" "follows en h st' (n c)" using follows_actD [OF ask(2)] .
  from st(1) consider (wait) "st' = Asking r" "cn_handler (u c) = cn_handler c" "cn_sink (u c) = cn_sink c"
    | (took) x where "st' = Answering x" "sh_handle h r (cn_handler c) = (x, cn_handler (u c))" "cn_sink (u c) = cn_sink c"
    by (rule asking_stepE)
  then show ?thesis
  proof cases
    case wait
    with ask st(2) show ?thesis by (intro movesI [of _ _ _ _ "Adrift r"]) (auto intro: still)
  next
    case (took x)
    then have "mute en h (Some (n c))" using st(2) by (auto simp: mute_def intro: exI [of _ "Answering x"])
    with took ask show ?thesis by (intro movesI [of _ _ _ _ Gone]) (auto intro: late_effect)
  qed
qed

lemma agrees_act:
  assumes ag: "agrees en h tk (Some (Act u n)) e ph" and c: "cn_sink c = tk_sink tk"
    and len: "ce_open e \<Longrightarrow> ce_read e \<le> length (sk_out (tk_sink tk))" and "sound_handler h"
  shows "moves en h tk e ph c (u c) (n c)"
proof (cases ph)
  case Resting
  then have "winding_down en h (Some (Act u n))" using ag by simp
  from quiet_act [OF this, of c] show ?thesis using Resting ag c by (intro movesI [of _ _ _ _ Resting]) (auto intro: still)
next
  case (Asked r)
  then show ?thesis using asked_moves [OF _ c _ assms(4)] ag len by simp
next
  case (Settled r x)
  then have "settled en h tk (Some (Act u n)) e x" "sk_room (tk_sink tk) = None" "ce_open e" using ag by simp_all
  from settled_act [OF this(1) c this(2) len [OF this(3)]] show ?thesis
    using Settled ag by (intro movesI [of _ _ _ _ "Settled r x"]) (auto intro: still)
next
  case (Adrift r)
  then show ?thesis using adrift_moves ag by simp
next
  case Gone
  then have "mute en h (Some (Act u n))" using ag by simp
  from mute_act [OF this, of c] show ?thesis using Gone ag by (intro movesI [of _ _ _ _ Gone]) (auto intro: still)
qed

lemma act_step:
  assumes "coupled en h s a" and "sd_busy s i = Some (Act u n)" and "sound_handler h"
  shows "\<exists>a'. atomic_step h a [] a' \<and> coupled en h (task_acts i ds u n s) a'"
proof (cases "sd_ends s i")
  case None
  let ?c = "task_view (task_at s i) ds (sd_server s)"
  have "follows en h Anything (Act u n)" using coupled_stranger [OF assms(1,2) None] .
  from follows_actD [OF this, of ?c] obtain st' where "stage_step en h Anything ?c (u ?c) st'" "follows en h st' (n ?c)" .
  then have any: "follows en h Anything (n ?c)" "foreign h (sy_handler (sd_server s)) (cn_handler (u ?c))"
    by (auto elim!: any_stepE)
  show ?thesis
  proof (rule rest_step [OF assms(1)])
    fix j assume "sd_ends s j \<noteq> None"
    with None have "j \<noteq> i" by auto
    then show "task_at (task_acts i ds u n s) j = task_at s j \<and> sd_busy (task_acts i ds u n s) j = sd_busy s j" by simp
  next
    fix j P assume "sd_busy (task_acts i ds u n s) j = Some P" "sd_ends s j = None"
    then show "follows en h Anything P" using coupled_stranger [OF assms(1)] any by (cases "j = i") auto
  qed (use any in simp_all)
next
  case (Some e)
  obtain ph where ph: "at_calls a i = Some ph" "end_agrees en h (sy_tasks (sd_server s)) (sd_busy s) i e ph"
    using coupledD [OF assms(1) Some] .
  let ?c = "task_view (task_at s i) ds (sd_server s)"
  have "agrees en h (task_at s i) (Some (Act u n)) e ph" "ce_open e \<Longrightarrow> ce_read e \<le> length (sk_out (tk_sink (task_at s i)))"
    using ph(2) assms(2) by (simp_all add: end_agrees_def)
  from agrees_act [OF this(1) _ this(2) assms(3), of ?c] obtain ph' where
    ph': "call_move h (at_state a) ph (cn_handler (u ?c)) ph'"
      "agrees en h ((task_at s i)\<lparr>tk_sink := cn_sink (u ?c)\<rparr>) (Some (n ?c)) e ph'"
      "ce_open e \<Longrightarrow> length (sk_out (tk_sink (task_at s i))) \<le> length (sk_out (cn_sink (u ?c)))"
    using coupled_state [OF assms(1)] by (auto simp: moves_def)
  show ?thesis by (rule act_conclude [OF assms(1) Some ph(2) assms(2) call_move_step [OF ph'(1) ph(1)] ph'(2,3)])
qed


text \<open>The end of a program; a connection that breaks.\<close>

lemma unread_same [simp]:
  "unread (tk\<lparr>tk_phase := ph\<rparr>) e = unread tk e" "unread (tk\<lparr>tk_taken := ms\<rparr>) e = unread tk e"
  "unread tk (e\<lparr>ce_pipe := bs\<rparr>) = unread tk e" "unread tk (e\<lparr>ce_waiting := w\<rparr>) = unread tk e"
  by (simp_all add: unread_def)

lemma follows_finish_iff [simp]: "follows en h st (Finish r) \<longleftrightarrow> ends_in st r"
  by (auto elim: follows_finishE intro: follows_end)

definition after_finish :: "bool result \<Rightarrow> task \<Rightarrow> task" where
  "after_finish r tk = (case r of Inl e \<Rightarrow> tk\<lparr>tk_phase := Ended (Err e)\<rparr>
     | Inr go_on \<Rightarrow> if go_on then tk else tk\<lparr>tk_phase := Ended (Ok ())\<rparr>)"

lemma after_finish_simps [simp]:
  "after_finish (Inr True) tk = tk" "after_finish (Inl err) tk = tk\<lparr>tk_phase := Ended (Err err)\<rparr>"
  "unread (after_finish r tk) e = unread tk e" "tk_sink (after_finish r tk) = tk_sink tk"
  "tk_phase tk \<noteq> Greeting \<Longrightarrow> tk_phase (after_finish r tk) \<noteq> Greeting" "\<not> is_ok r \<Longrightarrow> \<not> running (after_finish r tk)"
  by (simp_all add: after_finish_def split: sum.split) auto

lemma winding_down_simps [simp]:
  "winding_down en h None" "winding_down en h (Some (Finish r)) \<longleftrightarrow> r = Ok True"
  by (simp_all add: winding_down_def)

lemma agrees_finish:
  assumes "agrees en h tk (Some (Finish r)) e ph" shows "agrees en h (after_finish r tk) None e ph"
proof (cases ph)
  case (Asked q)
  then have "asked en h tk (Some (Finish r)) e q" using assms by simp
  then have "asked en h (after_finish r tk) None e q"
    by cases (auto intro: asked.in_pipe asked.refused_with asked.cut_off)
  with Asked assms show ?thesis by simp
next
  case (Settled q x)
  then have "settled en h tk (Some (Finish r)) e x" using assms by simp
  then have "settled en h (after_finish r tk) None e x"
    by cases (auto intro: settled.answered_with settled.answer_lost)
  with Settled assms show ?thesis by simp
qed (use assms in \<open>auto simp: mute_def\<close>)

lemma agrees_ended:
  assumes "agrees en h tk None e ph" shows "agrees en h (tk\<lparr>tk_phase := Ended r\<rparr>) None e ph"
proof (cases ph)
  case (Asked q)
  then have "asked en h tk None e q" using assms by simp
  then have "asked en h (tk\<lparr>tk_phase := Ended r\<rparr>) None e q"
    by cases (auto intro: asked.in_pipe asked.refused_with asked.cut_off)
  with Asked assms show ?thesis by simp
next
  case (Settled q x)
  then have "settled en h tk None e x" using assms by simp
  then have "settled en h (tk\<lparr>tk_phase := Ended r\<rparr>) None e x"
    by cases (auto intro: settled.answered_with settled.answer_lost)
  with Settled assms show ?thesis by simp
qed (use assms in auto)

text \<open>A step that the abstract object does not see.\<close>

lemma unseen_step:
  assumes "coupled en h s a" and "sy_handler (sd_server s') = sy_handler (sd_server s)"
    and "length (sy_tasks (sd_server s')) = length (sy_tasks (sd_server s))"
    and "\<And>j. j \<noteq> i \<Longrightarrow> task_at s' j = task_at s j" and "\<And>j. j \<noteq> i \<Longrightarrow> sd_busy s' j = sd_busy s j"
    and "sd_ends s i = Some e" and "sd_ends s' = (sd_ends s)(i \<mapsto> e')"
    and "\<And>ph. end_agrees en h (sy_tasks (sd_server s)) (sd_busy s) i e ph \<Longrightarrow> end_agrees en h (sy_tasks (sd_server s')) (sd_busy s') i e' ph"
  shows "\<exists>a'. atomic_step h a [] a' \<and> coupled en h s' a'"
proof -
  obtain ph where ph: "at_calls a i = Some ph" "end_agrees en h (sy_tasks (sd_server s)) (sd_busy s) i e ph"
    using coupledD [OF assms(1,6)] .
  have "coupled en h s' a"
    by (rule coupled_at [OF assms(1), where i = i and e = e' and ph = ph])
      (use assms ph coupled_state [OF assms(1)] in auto)
  then show ?thesis using at_idle by blast
qed

lemma finish_step:
  assumes "coupled en h s a" and "sd_busy s i = Some (Finish r)"
  shows "\<exists>a'. atomic_step h a [] a' \<and> coupled en h (task_finishes i r s) a'"
proof (cases "sd_ends s i")
  case None
  show ?thesis
  proof (rule rest_step [OF assms(1)])
    fix j assume "sd_ends s j \<noteq> None"
    with None have "j \<noteq> i" by auto
    then show "task_at (task_finishes i r s) j = task_at s j \<and> sd_busy (task_finishes i r s) j = sd_busy s j" by simp
  next
    fix j P assume "sd_busy (task_finishes i r s) j = Some P" "sd_ends s j = None"
    then show "follows en h Anything P" using coupled_stranger [OF assms(1)] by (cases "j = i") auto
  qed simp_all
next
  case (Some e)
  show ?thesis
  proof (rule unseen_step [OF assms(1) _ _ _ _ Some, of _ e])
    fix ph assume "end_agrees en h (sy_tasks (sd_server s)) (sd_busy s) i e ph"
    then show "end_agrees en h (sy_tasks (sd_server (task_finishes i r s))) (sd_busy (task_finishes i r s)) i e ph"
      using task_finishes_at [of i s r] agrees_finish [of en h "task_at s i" r e ph] assms(2)
      by (simp add: end_agrees_def after_finish_def [symmetric])
  qed (use Some in auto)
qed

lemma hang_up_step:
  assumes "coupled en h s a" and i: "i < length (sy_tasks (sd_server s))" and "sd_busy s i = None"
  shows "\<exists>a'. atomic_step h a [] a' \<and> coupled en h (s\<lparr>sd_server := hang_up i err (sd_server s)\<rparr>) a'"
proof (cases "sd_ends s i")
  case None
  show ?thesis
  proof (rule rest_step [OF assms(1)])
    fix j assume "sd_ends s j \<noteq> None"
    with None have "j \<noteq> i" by auto
    then show "task_at (s\<lparr>sd_server := hang_up i err (sd_server s)\<rparr>) j = task_at s j
      \<and> sd_busy (s\<lparr>sd_server := hang_up i err (sd_server s)\<rparr>) j = sd_busy s j" by simp
  qed (use coupled_stranger [OF assms(1)] in simp_all)
next
  case (Some e)
  show ?thesis
  proof (rule unseen_step [OF assms(1) _ _ _ _ Some, of _ e])
    fix ph assume "end_agrees en h (sy_tasks (sd_server s)) (sd_busy s) i e ph"
    then show "end_agrees en h (sy_tasks (sd_server (s\<lparr>sd_server := hang_up i err (sd_server s)\<rparr>)))
        (sd_busy (s\<lparr>sd_server := hang_up i err (sd_server s)\<rparr>)) i e ph"
      using i assms(3) by (auto simp: end_agrees_def hang_up_def task_end_def agrees_ended split: task_phase.split)
  qed (use Some in auto)
qed

section \<open>Steps of the clients\<close>

lemma join_step:
  assumes "coupled en h s a" and "i < length (sy_tasks (sd_server s))" and "sd_ends s i = None" and "sd_busy s i = None"
    and "tk_phase (task_at s i) = Serving cid" and "sk_room (tk_sink (task_at s i)) = None"
    and "e = \<lparr>ce_open = True, ce_pipe = [], ce_read = length (sk_out (tk_sink (task_at s i))), ce_waiting = None\<rparr>"
  shows "\<exists>a'. atomic_step h a [] a' \<and> coupled en h (s\<lparr>sd_ends := (sd_ends s)(i \<mapsto> e)\<rparr>) a'"
proof -
  have "coupled en h (s\<lparr>sd_ends := (sd_ends s)(i \<mapsto> e)\<rparr>) (set_call i Resting (at_state a) a)"
    by (rule coupled_at [OF assms(1)])
      (use assms coupled_state [OF assms(1)] in \<open>auto simp: end_agrees_def unread_def\<close>)
  then show ?thesis using at_join coupled_noneD [OF assms(1,3)] by blast
qed

text \<open>The phase of an end that its client holds and that is not waiting.\<close>

lemma resting_end:
  assumes "coupled en h s a" and "sd_ends s i = Some e" and "ce_open e" and "ce_waiting e = None"
  obtains "at_calls a i = Some Resting" "end_agrees en h (sy_tasks (sd_server s)) (sd_busy s) i e Resting"
    "agrees en h (task_at s i) (sd_busy s i) e Resting"
proof -
  obtain ph where ph: "at_calls a i = Some ph" "end_agrees en h (sy_tasks (sd_server s)) (sd_busy s) i e ph"
    using coupledD [OF assms(1,2)] .
  have "ph = Resting" using ph(2) assms(3,4) by (cases ph) (auto simp: end_agrees_def)
  with ph that show thesis by (simp add: end_agrees_def)
qed

lemma closed_end [simp]:
  "\<not> ce_open (end_closed e)" "ce_pipe (end_closed e) = ce_pipe e" "ce_read (end_closed e) = ce_read e"
  "requested en r (end_closed e) = requested en r e"
  by (simp_all add: end_closed_def requested_def)

lemma winding_mute: "winding_down en h b \<Longrightarrow> mute en h b"
  by (cases b) (auto simp: winding_down_def mute_def intro: exI [of _ Quiet])

text \<open>The task of a client that has gone away, whose writes now fail.\<close>

lemma gone_agrees:
  assumes "end_agrees en h tks b i e ph" and "i < length tks" and "agrees en h (tks ! i) (b i) (end_closed e) ph'"
    and "ph' = Gone \<or> (\<exists>r. ph' = Adrift r)" and "tks' = tks[i := (tks ! i)\<lparr>tk_sink := k\<rparr>]"
  shows "end_agrees en h tks' b i (end_closed e) ph'"
  using assms by (auto simp: end_agrees_def running_def)

lemma closing_step:
  assumes "coupled en h s a" and "sd_ends s i = Some e" and "end_agrees en h (sy_tasks (sd_server s)) (sd_busy s) i e ph"
    and "agrees en h (task_at s i) (sd_busy s i) (end_closed e) ph'" and "ph' = Gone \<or> (\<exists>r. ph' = Adrift r)"
  shows "coupled en h (put_end i n (end_closed e) s) (set_call i ph' (at_state a) a)"
proof (rule coupled_at [OF assms(1)])
  show "end_agrees en h (sy_tasks (sd_server (put_end i n (end_closed e) s))) (sd_busy (put_end i n (end_closed e) s)) i (end_closed e) ph'"
    using gone_agrees [OF assms(3) _ assms(4,5)] assms(3) by (simp add: put_end_def cut_def end_agrees_def [of _ _ _ _ _ e])
qed (use coupled_state [OF assms(1)] in \<open>simp_all add: put_end_def\<close>)

lemma invoke_step:
  assumes "coupled en h s a" and "sd_ends s i = Some e" and "ce_open e" and "ce_waiting e = None" and "sendable r"
    and "client_write (en_codec en) r e = (Ok (), e')"
  shows "\<exists>a'. atomic_step h a [Invokes i r] a' \<and> coupled en h (put_end i n e' s) a'"
proof -
  obtain rest: "at_calls a i = Some Resting" "end_agrees en h (sy_tasks (sd_server s)) (sd_busy s) i e Resting"
    "agrees en h (task_at s i) (sd_busy s i) e Resting"
    using resting_end [OF assms(1-4)] .
  have e': "fits (request_bytes en r)" "e' = e\<lparr>ce_pipe := frame_bytes 1 MSG_REQUEST (request_bytes en r), ce_waiting := Some r\<rparr>"
    using assms(6) rest(3) by (auto simp: client_write_def dest: write_message_okD split: prod.splits sum.splits)
  then have "asked en h (task_at s i) (sd_busy s i) e' r"
    using rest(3) by (auto intro: asked.in_pipe simp: requested_def)
  then have "coupled en h (put_end i n e' s) (set_call i (Asked r) (at_state a) a)"
    using rest(2,3) e' assms(3,5) coupled_state [OF assms(1)]
    by (intro coupled_at [OF assms(1), where i = i and e = e' and ph = "Asked r"])
      (auto simp: put_end_def end_agrees_def)
  then show ?thesis using at_invoke [of a i h r] rest(1) by blast
qed

lemma refuse_step:
  assumes "coupled en h s a" and "sd_ends s i = Some e" and "ce_open e" and "ce_waiting e = None"
    and "client_write (en_codec en) r e = (Err err, e') \<or> e' = end_closed e"
  shows "\<exists>a'. atomic_step h a [Invokes i r, Returns i (Err err)] a' \<and> coupled en h (put_end i n e' s) a'"
proof -
  obtain rest: "at_calls a i = Some Resting" "end_agrees en h (sy_tasks (sd_server s)) (sd_busy s) i e Resting"
    "agrees en h (task_at s i) (sd_busy s i) e Resting"
    using resting_end [OF assms(1-4)] .
  have e': "e' = end_closed e" using assms(5) by (auto simp: client_write_def split: prod.splits sum.splits)
  have "coupled en h (put_end i n e' s) (set_call i Gone (at_state a) a)"
    unfolding e' using rest(3) by (intro closing_step [OF assms(1,2) rest(2)]) (auto intro: winding_mute)
  then show ?thesis using at_refuse [of a i h r err] rest(1) by blast
qed

lemma leave_step:
  assumes "coupled en h s a" and "sd_ends s i = Some e" and "ce_open e" and "ce_waiting e = None"
  shows "\<exists>a'. atomic_step h a [] a' \<and> coupled en h (put_end i n (end_closed e) s) a'"
proof -
  obtain rest: "at_calls a i = Some Resting" "end_agrees en h (sy_tasks (sd_server s)) (sd_busy s) i e Resting"
    "agrees en h (task_at s i) (sd_busy s i) e Resting"
    using resting_end [OF assms(1-4)] .
  have "coupled en h (put_end i n (end_closed e) s) (set_call i Gone (at_state a) a)"
    using rest(3) by (intro closing_step [OF assms(1,2) rest(2)]) (auto intro: winding_mute)
  then show ?thesis using at_leave [of a i h] rest(1) by blast
qed


text \<open>The server reads a request of a client, whether the client still waits for the answer or not.\<close>

lemma pipe_request:
  assumes "agrees en h tk None e ph" and "read_message (ce_pipe e) = (Inr (t, p), rest)"
  obtains r where "ph = Asked r \<or> ph = Adrift r" "t = MSG_REQUEST" "p = request_bytes en r" "rest = []" "sendable r"
    "ce_open e \<Longrightarrow> unread tk e = []"
proof -
  have nonempty: "ce_pipe e \<noteq> []" using assms(2) by auto
  have "\<exists>r. (ph = Asked r \<or> ph = Adrift r) \<and> requested en r e \<and> sendable r \<and> (ce_open e \<longrightarrow> unread tk e = [])"
    using assms(1) nonempty by (cases ph) (auto elim: asked.cases)
  then obtain r where r: "ph = Asked r \<or> ph = Adrift r" "requested en r e" "sendable r" "ce_open e \<longrightarrow> unread tk e = []" by blast
  have "read_message (ce_pipe e) = (Inr (MSG_REQUEST, request_bytes en r), [])"
    using read_message_frame [of "request_bytes en r" 1 MSG_REQUEST "[]"] r(2) by (simp add: requested_def)
  then show thesis using that r(1,3,4) assms(2) by simp
qed

lemma agrees_serve:
  assumes "agrees en h tk None e ph" and "ph = Asked r \<or> ph = Adrift r" and "sendable r" and "codec_law (en_codec en)"
    and "ce_open e \<Longrightarrow> unread tk e = []"
  shows "agrees en h (tk\<lparr>tk_taken := ms\<rparr>) (Some (fine_dispatch en h cid MSG_REQUEST (request_bytes en r))) (e\<lparr>ce_pipe := []\<rparr>) ph"
proof -
  let ?P = "fine_dispatch en h cid MSG_REQUEST (request_bytes en r)"
  show ?thesis
  proof (cases "accepted en r")
    case True
    have P: "follows en h (Asking r) ?P" by (rule fine_request_asks [OF assms(4,3) True])
    then have "ce_open e \<Longrightarrow> asked en h (tk\<lparr>tk_taken := ms\<rparr>) (Some ?P) (e\<lparr>ce_pipe := []\<rparr>) r"
      using assms(5) by (intro asked.in_hand) auto
    with P assms(1,2) show ?thesis by auto
  next
    case False
    have P: "follows en h Rejecting ?P" by (rule fine_request_rejects [OF assms(4,3) False])
    then have "ce_open e \<Longrightarrow> asked en h (tk\<lparr>tk_taken := ms\<rparr>) (Some ?P) (e\<lparr>ce_pipe := []\<rparr>) r"
      using assms(5) False by (intro asked.in_refusal) auto
    moreover have "mute en h (Some ?P)" using P by (auto simp: mute_def intro: exI [of _ Rejecting])
    ultimately show ?thesis using assms(1,2) by auto
  qed
qed

lemma request_step:
  assumes "coupled en h s a" and "sd_ends s i = Some e" and "tk_phase (task_at s i) = Serving cid" and "sd_busy s i = None"
    and "read_message (ce_pipe e) = (Inr (t, p), rest)" and "codec_law (en_codec en)"
  shows "\<exists>a'. atomic_step h a [] a' \<and> coupled en h
    ((task_reads en h i cid t p s)\<lparr>sd_ends := (sd_ends s)(i \<mapsto> e\<lparr>ce_pipe := rest\<rparr>)\<rparr>) a'"
proof (rule unseen_step [OF assms(1) _ _ _ _ assms(2)])
  fix ph assume ok: "end_agrees en h (sy_tasks (sd_server s)) (sd_busy s) i e ph"
  then have "agrees en h (task_at s i) None e ph" using assms(4) by (simp add: end_agrees_def)
  from this pipe_request [OF this assms(5)] assms(6)
  have "agrees en h ((task_at s i)\<lparr>tk_taken := ms\<rparr>) (Some (fine_dispatch en h cid t p)) (e\<lparr>ce_pipe := rest\<rparr>) ph" for ms
    by (metis agrees_serve)
  then show "end_agrees en h (sy_tasks (sd_server ((task_reads en h i cid t p s)\<lparr>sd_ends := (sd_ends s)(i \<mapsto> e\<lparr>ce_pipe := rest\<rparr>)\<rparr>)))
      (sd_busy ((task_reads en h i cid t p s)\<lparr>sd_ends := (sd_ends s)(i \<mapsto> e\<lparr>ce_pipe := rest\<rparr>)\<rparr>)) i (e\<lparr>ce_pipe := rest\<rparr>) ph"
    using ok assms(3) by (simp add: end_agrees_def)
qed simp_all

text \<open>The client reads the answer, or gives up.\<close>

lemma muteI: "follows en h st P \<Longrightarrow> mute_stage st \<Longrightarrow> mute en h (Some P)" "mute en h None"
  by (auto simp: mute_def)

lemma asked_lost:
  assumes "asked en h tk b e r" shows "requested en r e \<and> mute en h b \<or> ce_pipe e = [] \<and> (mute en h b \<or> (\<exists>P. b = Some P \<and> follows en h (Asking r) P))"
  using assms by cases (auto intro: winding_mute muteI)

lemma settled_lost:
  assumes "settled en h tk b e x" shows "mute en h b"
  using assms by cases (auto intro: winding_mute muteI)

lemma asked_unread:
  assumes "asked en h tk b e r" shows "unread tk e = [] \<or> (\<exists>p. fits p \<and> unread tk e = frame_bytes 1 MSG_ERROR p)"
  using assms by cases auto

lemma asked_returns:
  assumes "coupled en h s a" and "sd_ends s i = Some e" and ph: "at_calls a i = Some (Asked r)"
    "end_agrees en h (sy_tasks (sd_server s)) (sd_busy s) i e (Asked r)"
    and "client_read (en_codec en) late (task_at s i) e = (y, e')"
  shows "\<exists>a'. atomic_step h a [Returns i y] a' \<and> coupled en h (put_end i n e' s) a'"
proof -
  have q: "asked en h (task_at s i) (sd_busy s i) e r" "sendable r" using ph(2) by (simp_all add: end_agrees_def)
  have "\<exists>err. y = Err err \<and> e' = end_closed e"
    using asked_unread [OF q(1)] assms(5) read_message_frame [of _ 1 MSG_ERROR "[]"]
    by (auto simp: client_read_def call_result_def msg_defs split: if_splits sum.splits)
  then obtain err where y: "y = Err err" "e' = end_closed e" by blast
  have "coupled en h (put_end i n e' s) (set_call i (Adrift r) (at_state a) a)"
    unfolding y using asked_lost [OF q(1)] q(2) by (intro closing_step [OF assms(1,2) ph(2)]) auto
  then show ?thesis using at_lose [OF ph(1), of h err] y(1) by blast
qed

lemma settled_returns:
  assumes "coupled en h s a" and "sd_ends s i = Some e" and ph: "at_calls a i = Some (Settled r x)"
    "end_agrees en h (sy_tasks (sd_server s)) (sd_busy s) i e (Settled r x)"
    and "client_read (en_codec en) late (task_at s i) e = (y, e')" and "codec_law (en_codec en)"
  shows "\<exists>a'. atomic_step h a [Returns i y] a' \<and> coupled en h (put_end i n e' s) a'"
proof -
  let ?tk = "task_at s i" and ?b = "sd_busy s i"
  have v: "is_value (rs_payload x)" "readable (rs_to_json x)" "settled en h ?tk ?b e x" "ce_pipe e = []" "ce_open e" "sk_room (tk_sink ?tk) = None"
    using ph(2) by (simp_all add: end_agrees_def)
  show ?thesis
  proof (cases "late \<or> unread ?tk e = []")
    case True
    then obtain err where y: "y = Err err" "e' = end_closed e"
      using assms(5) by (auto simp: client_read_def split: if_splits)
    have "coupled en h (put_end i n e' s) (set_call i Gone (at_state a) a)"
      unfolding y using v settled_lost [OF v(3)] by (intro closing_step [OF assms(1,2) ph(2)]) auto
    then show ?thesis using at_lose_answer [OF ph(1), of h err] y(1) by blast
  next
    case False
    then have u: "unread ?tk e = frame_bytes 1 MSG_RESPONSE (response_bytes en x)" "fits (response_bytes en x)" "winding_down en h ?b"
      using v(3) by (auto elim: settled.cases)
    have "from_slice (en_codec en) rs_of_json ''ServiceResponse'' (response_bytes en x) = Ok x"
      using assms(6) v by (intro service_response.from_slice_to_vec) auto
    then have y: "y = Ok x" "e' = e\<lparr>ce_read := length (sk_out (tk_sink ?tk)), ce_waiting := None\<rparr>"
      using False assms(5) u read_message_frame [OF u(2), of 1 MSG_RESPONSE "[]"]
      by (auto simp: client_read_def call_result_def)
    have "coupled en h (put_end i n e' s) (set_call i Resting (at_state a) a)"
    proof (rule coupled_at [OF assms(1)])
      show "end_agrees en h (sy_tasks (sd_server (put_end i n e' s))) (sd_busy (put_end i n e' s)) i e' Resting"
        using ph(2) y(2) v u(3) by (auto simp: end_agrees_def put_end_def unread_def)
    qed (use y(2) v coupled_state [OF assms(1)] in \<open>simp_all add: put_end_def\<close>)
    then show ?thesis using at_return [OF ph(1), of h] y(1) by blast
  qed
qed

lemma return_step:
  assumes "coupled en h s a" and "sd_ends s i = Some e" and "ce_open e" and "ce_waiting e = Some r"
    and "client_read (en_codec en) late (task_at s i) e = (y, e')" and "codec_law (en_codec en)"
  shows "\<exists>a'. atomic_step h a [Returns i y] a' \<and> coupled en h (put_end i n e' s) a'"
proof -
  obtain ph where ph: "at_calls a i = Some ph" "end_agrees en h (sy_tasks (sd_server s)) (sd_busy s) i e ph"
    using coupledD [OF assms(1,2)] .
  consider "ph = Asked r" | x where "ph = Settled r x"
    using ph(2) assms(3,4) by (cases ph) (auto simp: end_agrees_def)
  then show ?thesis
    using asked_returns [OF assms(1,2) _ _ assms(5)] settled_returns [OF assms(1,2) _ _ assms(5,6)] ph by cases auto
qed

end
