(* ===== verification/Linearizability.thy ===== *)
theory Linearizability
  imports Coupling
begin

text \<open>
  The server and its clients implement the atomic object: every history of the system is one of the
  object, every call takes effect once, and a waiting call can be brought to its return.
\<close>

section \<open>The refinement\<close>












section \<open>A waiting call is answered\<close>















section \<open>A run of the sample\<close>


text \<open>The clients' connection of \<open>sample_run\<close> joins, and calls.\<close>

definition sample_end :: client_end where
  "sample_end = \<lparr>ce_open = True, ce_pipe = [], ce_read = length (sk_out (tk_sink (sy_tasks sample_run ! 0))), ce_waiting = None\<rparr>"





definition sample_asking :: client_end where
  "sample_asking = sample_end\<lparr>ce_pipe := frame_bytes 1 MSG_REQUEST (jc_to_vec tagged (rq_to_json (sample_request ''1''))),
     ce_waiting := Some (sample_request ''1'')\<rparr>"


lemma sample_end_simps [simp]:
  "ce_open sample_end" "ce_waiting sample_end = None" "ce_open sample_asking" "ce_waiting sample_asking = Some (sample_request ''1'')"
  "en_codec sample_surroundings = tagged"
  by (simp_all add: sample_asking_def sample_end_def sample_surroundings_def)











end
